(* ===== verification/Prelude.thy ===== *)
theory Prelude
  imports Main "HOL-Library.Word" "HOL-Library.Sublist"
begin

text \<open>
  Shared vocabulary of the development: the Rust types the crates use, the operations of the
  Rust standard library they call (on integers, strings and results), and the generic lemmas
  the component theories build on.

  A Rust \<^verbatim>\<open>String\<close> is the list of its UTF-8 bytes, one \<^typ>\<open>char\<close> per byte, so
  \<^const>\<open>length\<close> is Rust's \<^verbatim>\<open>len()\<close>.  Unsigned integers are \<^typ>\<open>nat\<close> and signed ones
  \<^typ>\<open>int\<close>; saturation, wrap-around (release profile) and \<^verbatim>\<open>as\<close> casts are written out.
\<close>

section \<open>Types\<close>

type_synonym byte = "8 word"
type_synonym u64 = nat
type_synonym usize = nat
type_synonym i16 = int
type_synonym i32 = int
type_synonym i64 = int
type_synonym instant = int
type_synonym bigdecimal = int

text \<open>What a Rust call does: it returns, or it panics (the task that runs it is unwound).\<close>

datatype 'a rust = Return 'a | Panic

named_theorems rust_defs \<open>definitions of the Rust standard library operations\<close>
named_theorems row_defs \<open>row constraints of the database tables\<close>
named_theorems stmt_defs \<open>definitions of the SQL statements\<close>

section \<open>Integers\<close>

definition u64_max :: u64 where
  "u64_max = 2 ^ 64 - 1"

definition sat_add :: "u64 \<Rightarrow> u64 \<Rightarrow> u64" where
  [rust_defs]: "sat_add a b = min (a + b) u64_max"

definition sat_mul :: "u64 \<Rightarrow> u64 \<Rightarrow> u64" where
  [rust_defs]: "sat_mul a b = min (a * b) u64_max"

definition sat_sub :: "u64 \<Rightarrow> u64 \<Rightarrow> u64" where
  [rust_defs]: "sat_sub a b = (if a < b then 0 else a - b)"

definition wrap_add :: "u64 \<Rightarrow> u64 \<Rightarrow> u64" where
  [rust_defs]: "wrap_add a b = (a + b) mod 2 ^ 64"

definition wrap_sub :: "u64 \<Rightarrow> u64 \<Rightarrow> u64" where
  [rust_defs]: "wrap_sub a b = (a + 2 ^ 64 - b) mod 2 ^ 64"

text \<open>The casts \<^verbatim>\<open>as i64\<close>, \<^verbatim>\<open>as u64\<close> and \<^verbatim>\<open>as i32\<close> reinterpret or truncate.\<close>

definition u64_as_i64 :: "u64 \<Rightarrow> i64" where
  [rust_defs]: "u64_as_i64 n = (if n < 2 ^ 63 then int n else int n - 2 ^ 64)"

definition i64_as_u64 :: "i64 \<Rightarrow> u64" where
  [rust_defs]: "i64_as_u64 i = nat (i mod 2 ^ 64)"

definition as_i32 :: "int \<Rightarrow> i32" where
  [rust_defs]: "as_i32 i = (let r = i mod 2 ^ 32 in if r < 2 ^ 31 then r else r - 2 ^ 32)"

text \<open>Signed 64-bit arithmetic wraps.\<close>

definition i64_wrap :: "int \<Rightarrow> i64" where
  [rust_defs]: "i64_wrap i = (i + 2 ^ 63) mod 2 ^ 64 - 2 ^ 63"

definition clamp :: "'a::linorder \<Rightarrow> 'a \<Rightarrow> 'a \<Rightarrow> 'a" where
  [rust_defs]: "clamp x lo hi = (if x < lo then lo else if hi < x then hi else x)"

lemma clamp_bounds: "lo \<le> hi \<Longrightarrow> lo \<le> clamp x lo hi \<and> clamp x lo hi \<le> hi"
  by (auto simp: clamp_def)

lemma clamp_id: "lo \<le> x \<Longrightarrow> x \<le> hi \<Longrightarrow> clamp x lo hi = x"
  by (auto simp: clamp_def)

lemma i64_wrap_id [simp]: "- (2 ^ 63) \<le> i \<Longrightarrow> i < 2 ^ 63 \<Longrightarrow> i64_wrap i = i"
  by (simp add: i64_wrap_def)

lemma u64_as_i64_small [simp]: "n < 2 ^ 63 \<Longrightarrow> u64_as_i64 n = int n"
  by (simp add: u64_as_i64_def)

lemma i64_as_u64_of_nat [simp]: "n < 2 ^ 64 \<Longrightarrow> i64_as_u64 (int n) = n"
  by (simp add: i64_as_u64_def)

lemma i64_as_u64_cast [simp]: "n < 2 ^ 64 \<Longrightarrow> i64_as_u64 (u64_as_i64 n) = n"
  by (simp add: i64_as_u64_def u64_as_i64_def)

lemma wrap_add_small [simp]: "a + b < 2 ^ 64 \<Longrightarrow> wrap_add a b = a + b"
  by (simp add: wrap_add_def)

lemma wrap_sub_small [simp]: "b \<le> a \<Longrightarrow> a < 2 ^ 64 \<Longrightarrow> wrap_sub a b = a - b"
proof -
  assume h: "b \<le> a" "a < 2 ^ 64"
  then have "wrap_sub a b = ((a - b) + 2 ^ 64) mod 2 ^ 64" by (simp add: wrap_sub_def)
  also have "\<dots> = (a - b) mod 2 ^ 64" by (rule mod_add_self2)
  finally show ?thesis using h by simp
qed

section \<open>Results and options\<close>

fun ok :: "'e + 'a \<Rightarrow> 'a option" where
  "ok (Inl e) = None"
| "ok (Inr x) = Some x"

fun unwrap_or :: "'a option \<Rightarrow> 'a \<Rightarrow> 'a" where
  "unwrap_or None d = d"
| "unwrap_or (Some x) d = x"

text \<open>The \<^verbatim>\<open>?\<close> operator.\<close>

definition bind_result :: "'e + 'a \<Rightarrow> ('a \<Rightarrow> 'e + 'b) \<Rightarrow> 'e + 'b" where
  "bind_result r f = (case r of Inl e \<Rightarrow> Inl e | Inr x \<Rightarrow> f x)"

lemma bind_result_simps [simp]:
  "bind_result (Inl e) f = Inl e"
  "bind_result (Inr x) f = f x"
  by (simp_all add: bind_result_def)

lemma bind_result_cong [fundef_cong]:
  "r = r' \<Longrightarrow> (\<And>x. r' = Inr x \<Longrightarrow> f x = g x) \<Longrightarrow> bind_result r f = bind_result r' g"
  by (auto simp: bind_result_def split: sum.splits)

text \<open>\<^verbatim>\<open>filter_map(|x| f(x).ok())\<close> over a slice.\<close>

definition filter_ok :: "('a \<Rightarrow> 'e + 'b) \<Rightarrow> 'a list \<Rightarrow> 'b list" where
  "filter_ok f xs = concat (map (\<lambda>x. case f x of Inl _ \<Rightarrow> [] | Inr y \<Rightarrow> [y]) xs)"

lemma filter_ok_simps [simp]:
  "filter_ok f [] = []"
  "filter_ok f (x # xs) = (case f x of Inl _ \<Rightarrow> filter_ok f xs | Inr y \<Rightarrow> y # filter_ok f xs)"
  by (auto simp: filter_ok_def split: sum.splits)

lemma filter_ok_cong [fundef_cong]:
  "xs = ys \<Longrightarrow> (\<And>x. x \<in> set ys \<Longrightarrow> f x = g x) \<Longrightarrow> filter_ok f xs = filter_ok g ys"
  by (auto simp: filter_ok_def intro!: arg_cong [where f = concat])

lemma length_filter_ok: "length (filter_ok f xs) \<le> length xs"
  by (induction xs) (auto split: sum.splits)

lemma filter_ok_all: "(\<And>x. x \<in> set xs \<Longrightarrow> f x = Inr (g x)) \<Longrightarrow> filter_ok f xs = map g xs"
  by (induction xs) auto

section \<open>Lists\<close>

lemma takeWhile_split:
  assumes "\<And>x. x \<in> set xs \<Longrightarrow> P x" and "ys = [] \<or> \<not> P (hd ys)"
  shows "takeWhile P (xs @ ys) = xs" and "dropWhile P (xs @ ys) = ys"
  using assms by (induction xs) (cases ys; auto)+

section \<open>Strings\<close>

text \<open>
  Lowercasing maps the ASCII capitals and leaves every other byte alone.  Rust's
  \<^verbatim>\<open>to_lowercase\<close> also folds non-ASCII letters; the crates apply it to hexadecimal addresses and,
  in the classifier, before a search for ASCII keywords, where folding a non-ASCII letter never
  makes or breaks a match.
\<close>

definition lower_char :: "char \<Rightarrow> char" where
  [rust_defs]: "lower_char c = (let n = (of_char c :: nat) in if 65 \<le> n \<and> n \<le> 90 then char_of (n + 32) else c)"

definition to_lowercase :: "string \<Rightarrow> string" where
  "to_lowercase s = map lower_char s"

fun contains :: "string \<Rightarrow> string \<Rightarrow> bool" where
  "contains [] p = (p = [])"
| "contains (c # cs) p = (prefix p (c # cs) \<or> contains cs p)"

definition strip_prefix :: "string \<Rightarrow> string \<Rightarrow> string option" where
  [rust_defs]: "strip_prefix p s = (if prefix p s then Some (drop (length p) s) else None)"

definition strip_suffix :: "string \<Rightarrow> string \<Rightarrow> string option" where
  [rust_defs]: "strip_suffix p s = (if suffix p s then Some (take (length s - length p) s) else None)"

definition strip_0x :: "string \<Rightarrow> string" where
  [rust_defs]: "strip_0x s = unwrap_or (strip_prefix ''0x'' s) s"

text \<open>Slicing a string inside a character panics.\<close>

definition is_char_boundary :: "string \<Rightarrow> nat \<Rightarrow> bool" where
  "is_char_boundary s i \<longleftrightarrow>
     i = length s \<or> (i < length s \<and> \<not> (128 \<le> (of_char (s ! i) :: nat) \<and> (of_char (s ! i) :: nat) < 192))"

text \<open>The byte offset of the first occurrence of a pattern, as \<^verbatim>\<open>str::find\<close> gives it.\<close>

fun find_str :: "string \<Rightarrow> string \<Rightarrow> nat option" where
  "find_str [] p = (if p = [] then Some 0 else None)"
| "find_str (c # cs) p = (if prefix p (c # cs) then Some 0 else map_option Suc (find_str cs p))"

definition is_ascii_ws :: "char \<Rightarrow> bool" where
  [rust_defs]: "is_ascii_ws c \<longleftrightarrow> (of_char c :: nat) \<in> {9, 10, 12, 13, 32}"

text \<open>\<^verbatim>\<open>str::trim\<close> removes the characters with the Unicode property White\_Space at both ends; these
  are their UTF-8 forms.\<close>

definition white_space :: "string list" where
  [rust_defs]: "white_space =
     map (\<lambda>n. [char_of (n :: nat)]) [9, 10, 11, 12, 13, 32]
     @ [[CHR 0xC2, CHR 0x85], [CHR 0xC2, CHR 0xA0], [CHR 0xE1, CHR 0x9A, CHR 0x80]]
     @ map (\<lambda>n. [CHR 0xE2, CHR 0x80, char_of (n :: nat)]) ([128 ..< 139] @ [168, 169, 175])
     @ [[CHR 0xE2, CHR 0x81, CHR 0x9F], [CHR 0xE3, CHR 0x80, CHR 0x80]]"

fun drop_forms :: "string list \<Rightarrow> string \<Rightarrow> string" where
  "drop_forms ws [] = []"
| "drop_forms ws (c # s) =
     (case find (\<lambda>w. w \<noteq> [] \<and> take (length w) (c # s) = w) ws of
        None \<Rightarrow> c # s
      | Some w \<Rightarrow> drop_forms ws (drop (length w - 1) s))"

definition trim :: "string \<Rightarrow> string" where
  [rust_defs]: "trim s = rev (drop_forms (map rev white_space) (rev (drop_forms white_space s)))"

lemma contains_iff_sublist: "contains s p \<longleftrightarrow> sublist p s"
  by (induction s) (auto simp: sublist_Cons_right)

lemma lower_char_idem [simp]: "lower_char (lower_char c) = lower_char c"
proof (cases "65 \<le> (of_char c :: nat) \<and> (of_char c :: nat) \<le> 90")
  case True
  then have "(of_char (char_of ((of_char c :: nat) + 32) :: char) :: nat) = of_char c + 32"
    by (simp add: of_char_of)
  with True show ?thesis by (simp add: lower_char_def)
next
  case False
  then show ?thesis by (auto simp: lower_char_def)
qed

lemma to_lowercase_idem [simp]: "to_lowercase (to_lowercase s) = to_lowercase s"
  by (simp add: to_lowercase_def)

lemma length_to_lowercase [simp]: "length (to_lowercase s) = length s"
  by (simp add: to_lowercase_def)

lemma to_lowercase_append [simp]: "to_lowercase (s @ t) = to_lowercase s @ to_lowercase t"
  by (simp add: to_lowercase_def)

lemma contains_append_left: "contains s p \<Longrightarrow> contains (s @ t) p"
  by (auto simp: contains_iff_sublist sublist_append)

lemma contains_append_right: "contains t p \<Longrightarrow> contains (s @ t) p"
  by (auto simp: contains_iff_sublist sublist_append)

lemma contains_lower_mid: "contains (to_lowercase (u @ k @ v)) (to_lowercase k)"
  by (simp add: contains_iff_sublist)

lemma find_str_None_iff: "find_str s p = None \<longleftrightarrow> \<not> contains s p"
  by (induction s) auto

lemma find_str_Some:
  "find_str s p = Some n \<Longrightarrow> n \<le> length s \<and> prefix p (drop n s) \<and> (\<forall>m < n. \<not> prefix p (drop m s))"
proof (induction s arbitrary: n)
  case Nil
  then show ?case by (auto split: if_splits)
next
  case (Cons c cs)
  show ?case
  proof (cases "prefix p (c # cs)")
    case True
    with Cons.prems show ?thesis by auto
  next
    case False
    with Cons.prems obtain k where k: "find_str cs p = Some k" "n = Suc k" by auto
    from Cons.IH [OF k(1)] k(2) False show ?thesis
      by (auto simp: less_Suc_eq_0_disj)
  qed
qed

section \<open>Step relations\<close>

text \<open>A predicate that every step preserves holds in every state a run reaches.\<close>

locale invariant_system =
  fixes step :: "'s \<Rightarrow> 's \<Rightarrow> bool"
    and inv :: "'s \<Rightarrow> bool"
  assumes inv_step: "inv s \<Longrightarrow> step s s' \<Longrightarrow> inv s'"
begin

lemma reachable: "step\<^sup>*\<^sup>* s s' \<Longrightarrow> inv s \<Longrightarrow> inv s'"
  by (induction rule: rtranclp_induct) (auto intro: inv_step)

end

end
