(* ===== verification/Encoding.thy ===== *)
theory Encoding
  imports Prelude
begin

text \<open>
  Text and byte encodings of the Rust standard library that the crates rely on: hexadecimal and
  decimal formatting and parsing, the lossy UTF-8 decoder \<^verbatim>\<open>String::from_utf8_lossy\<close>, and
  the JSON value type the trace parser and the API exchange.
\<close>

section \<open>Digits\<close>

definition hex_digit :: "nat \<Rightarrow> char" where
  "hex_digit n = (if n < 10 then char_of (48 + n) else char_of (87 + n))"

text \<open>\<^verbatim>\<open>format!("{b:02x}")\<close>.\<close>

definition hex_byte :: "byte \<Rightarrow> string" where
  "hex_byte b = [hex_digit (unat b div 16), hex_digit (unat b mod 16)]"

definition digit_value :: "char \<Rightarrow> nat option" where
  "digit_value c =
     (let n = (of_char c :: nat) in
      if 48 \<le> n \<and> n \<le> 57 then Some (n - 48)
      else if 97 \<le> n \<and> n \<le> 102 then Some (n - 87)
      else if 65 \<le> n \<and> n \<le> 70 then Some (n - 55)
      else None)"

definition is_ascii_hexdigit :: "char \<Rightarrow> bool" where
  "is_ascii_hexdigit c \<longleftrightarrow> digit_value c \<noteq> None"

text \<open>The value of a non-empty digit string in a base, \<^const>\<open>None\<close> on a foreign character.\<close>

fun digits_value :: "nat \<Rightarrow> nat \<Rightarrow> string \<Rightarrow> nat option" where
  "digits_value base acc [] = Some acc"
| "digits_value base acc (c # cs) =
     (case digit_value c of
        None \<Rightarrow> None
      | Some d \<Rightarrow> if d < base then digits_value base (acc * base + d) cs else None)"

text \<open>\<^verbatim>\<open>u64::from_str_radix\<close> and \<^verbatim>\<open>u128::from_str_radix\<close>: an optional plus sign, then at
  least one digit, and the value must fit.\<close>

definition from_str_radix :: "nat \<Rightarrow> nat \<Rightarrow> string \<Rightarrow> nat option" where
  "from_str_radix bits base s =
     (let ds = (case s of [] \<Rightarrow> [] | c # cs \<Rightarrow> if c = CHR ''+'' \<and> cs \<noteq> [] then cs else s) in
      if ds = [] then None
      else case digits_value base 0 ds of
             None \<Rightarrow> None
           | Some n \<Rightarrow> if n < 2 ^ bits then Some n else None)"

fun show_nat :: "nat \<Rightarrow> string" where
  "show_nat n = (if n < 10 then [hex_digit n] else show_nat (n div 10) @ [hex_digit (n mod 10)])"

declare show_nat.simps [simp del]

definition show_int :: "int \<Rightarrow> string" where
  "show_int i = (if i < 0 then CHR ''-'' # show_nat (nat (- i)) else show_nat (nat i))"

text \<open>\<^verbatim>\<open>str::parse\<close> for a signed integer of the given width.\<close>

definition parse_signed :: "nat \<Rightarrow> string \<Rightarrow> int option" where
  "parse_signed bits s =
     (let neg = (case s of c # _ \<Rightarrow> c = CHR ''-'' | [] \<Rightarrow> False);
          ds = (case s of c # cs \<Rightarrow> if (c = CHR ''+'' \<or> c = CHR ''-'') \<and> cs \<noteq> [] then cs else s | [] \<Rightarrow> [])
      in if ds = [] then None
         else case digits_value 10 0 ds of
                None \<Rightarrow> None
              | Some n \<Rightarrow>
                  let v = (if neg then - int n else int n) in
                  if - (2 ^ (bits - 1)) \<le> v \<and> v < 2 ^ (bits - 1) then Some v else None)"

lemma of_char_hex_digit: "n < 16 \<Longrightarrow> (of_char (hex_digit n) :: nat) = (if n < 10 then 48 + n else 87 + n)"
  by (simp add: hex_digit_def)

lemma digit_value_hex_digit [simp]: "n < 16 \<Longrightarrow> digit_value (hex_digit n) = Some n"
  by (simp add: digit_value_def of_char_hex_digit Let_def)

lemma hex_digit_neq_sign: "n < 16 \<Longrightarrow> hex_digit n \<noteq> CHR ''-'' \<and> hex_digit n \<noteq> CHR ''+''"
proof -
  assume n: "n < 16"
  have "(of_char (hex_digit n) :: nat) \<noteq> of_char (CHR ''-'')"
    and "(of_char (hex_digit n) :: nat) \<noteq> of_char (CHR ''+'')"
    using of_char_hex_digit [OF n] by simp_all
  then show ?thesis by metis
qed

lemma digits_value_append:
  "digits_value b acc (xs @ ys) =
     (case digits_value b acc xs of None \<Rightarrow> None | Some v \<Rightarrow> digits_value b v ys)"
  by (induction xs arbitrary: acc) (auto split: option.splits)

lemma show_nat_nonempty [simp]: "show_nat n \<noteq> []"
  by (subst show_nat.simps) simp

lemma digits_value_show_nat: "digits_value 10 0 (show_nat n) = Some n"
proof (induction n rule: show_nat.induct)
  case (1 n)
  show ?case
  proof (cases "n < 10")
    case True
    then show ?thesis by (subst show_nat.simps) simp
  next
    case False
    with 1 have "digits_value 10 0 (show_nat (n div 10)) = Some (n div 10)" by simp
    with False show ?thesis
      by (subst show_nat.simps) (simp add: digits_value_append)
  qed
qed

lemma show_nat_hd: "hd (show_nat n) \<noteq> CHR ''-'' \<and> hd (show_nat n) \<noteq> CHR ''+''"
proof (induction n rule: show_nat.induct)
  case (1 n)
  then show ?case
    by (cases "n < 10") (subst (1 2) show_nat.simps, simp add: hex_digit_neq_sign)+
qed

lemma parse_signed_show_int:
  assumes "- (2 ^ (bits - 1)) \<le> i" "i < 2 ^ (bits - 1)"
  shows "parse_signed bits (show_int i) = Some i"
proof (cases "i < 0")
  case True
  with assms show ?thesis by (simp add: parse_signed_def show_int_def digits_value_show_nat Let_def)
next
  case False
  obtain c cs where c: "show_nat (nat i) = c # cs" by (cases "show_nat (nat i)") simp_all
  then have "c \<noteq> CHR ''-''" "c \<noteq> CHR ''+''" using show_nat_hd [of "nat i"] by auto
  moreover have "digits_value 10 0 (c # cs) = Some (nat i)"
    using digits_value_show_nat [of "nat i"] c by simp
  ultimately show ?thesis using False assms c
    by (simp add: parse_signed_def show_int_def Let_def del: digits_value.simps)
qed

section \<open>Lossy UTF-8\<close>

definition byte_at :: "byte list \<Rightarrow> nat \<Rightarrow> byte" where
  "byte_at bs i = (if i < length bs then bs ! i else 0)"

definition is_cont :: "byte \<Rightarrow> bool" where
  "is_cont b \<longleftrightarrow> 0x80 \<le> b \<and> b \<le> 0xBF"

definition utf8_width :: "byte \<Rightarrow> nat" where
  "utf8_width b =
     (if b < 0x80 then 1
      else if 0xC2 \<le> b \<and> b \<le> 0xDF then 2
      else if 0xE0 \<le> b \<and> b \<le> 0xEF then 3
      else if 0xF0 \<le> b \<and> b \<le> 0xF4 then 4
      else 0)"

definition second_ok :: "byte \<Rightarrow> byte \<Rightarrow> bool" where
  "second_ok b c \<longleftrightarrow>
     (b = 0xE0 \<and> 0xA0 \<le> c \<and> c \<le> 0xBF) \<or> (0xE1 \<le> b \<and> b \<le> 0xEC \<and> is_cont c)
     \<or> (b = 0xED \<and> 0x80 \<le> c \<and> c \<le> 0x9F) \<or> (0xEE \<le> b \<and> b \<le> 0xEF \<and> is_cont c)
     \<or> (b = 0xF0 \<and> 0x90 \<le> c \<and> c \<le> 0xBF) \<or> (0xF1 \<le> b \<and> b \<le> 0xF3 \<and> is_cont c)
     \<or> (b = 0xF4 \<and> 0x80 \<le> c \<and> c \<le> 0x8F)"

text \<open>One character at the head of the input: whether it is well formed, and how many bytes the
  decoder consumes (the whole character, or the maximal ill-formed prefix it replaces).\<close>

definition utf8_scan :: "byte list \<Rightarrow> bool \<times> nat" where
  "utf8_scan bs =
     (let b = byte_at bs 0; w = utf8_width b in
      if w = 1 then (True, 1)
      else if w = 2 then (if is_cont (byte_at bs 1) then (True, 2) else (False, 1))
      else if w = 3 then
        (if \<not> second_ok b (byte_at bs 1) then (False, 1)
         else if \<not> is_cont (byte_at bs 2) then (False, 2) else (True, 3))
      else if w = 4 then
        (if \<not> second_ok b (byte_at bs 1) then (False, 1)
         else if \<not> is_cont (byte_at bs 2) then (False, 2)
         else if \<not> is_cont (byte_at bs 3) then (False, 3) else (True, 4))
      else (False, 1))"

lemma utf8_scan_pos: "0 < snd (utf8_scan bs)"
  by (simp add: utf8_scan_def Let_def)

function from_utf8_lossy :: "byte list \<Rightarrow> byte list" where
  "from_utf8_lossy bs =
     (if bs = [] then []
      else (if fst (utf8_scan bs) then take (snd (utf8_scan bs)) bs else [0xEF, 0xBF, 0xBD])
           @ from_utf8_lossy (drop (snd (utf8_scan bs)) bs))"
  by pat_completeness auto
termination
  by (relation "measure length") (auto simp: utf8_scan_pos diff_less)

function utf8_valid :: "byte list \<Rightarrow> bool" where
  "utf8_valid bs =
     (if bs = [] then True
      else if fst (utf8_scan bs) then utf8_valid (drop (snd (utf8_scan bs)) bs) else False)"
  by pat_completeness auto
termination
  by (relation "measure length") (auto simp: utf8_scan_pos diff_less)

declare from_utf8_lossy.simps [simp del] utf8_valid.simps [simp del]

lemma utf8_valid_Nil [simp]: "utf8_valid []" and from_utf8_lossy_Nil [simp]: "from_utf8_lossy [] = []"
  by (simp_all add: utf8_valid.simps from_utf8_lossy.simps)

lemma byte_at_0_bad: "\<not> is_cont 0" "\<not> second_ok b 0"
  by (simp_all add: is_cont_def second_ok_def)

lemma utf8_scan_len:
  assumes "bs \<noteq> []" "utf8_scan bs = (True, n)"
  shows "n \<le> length bs"
proof -
  have in_range: "i < length bs" if "is_cont (byte_at bs i) \<or> second_ok b (byte_at bs i)" for i b
    using that byte_at_0_bad by (auto simp: byte_at_def split: if_splits)
  have pos: "0 < length bs" using assms(1) by simp
  consider "n = 1" | "n = 2" "is_cont (byte_at bs 1)" | "n = 3" "is_cont (byte_at bs 2)"
    | "n = 4" "is_cont (byte_at bs 3)"
    using assms(2) by (auto simp: utf8_scan_def Let_def split: if_splits)
  then show ?thesis
    using pos in_range [of 1] in_range [of 2] in_range [of 3] by cases (auto simp: Suc_le_eq)
qed

lemma utf8_scan_take:
  assumes "bs \<noteq> []" "utf8_scan bs = (True, n)"
  shows "utf8_scan (take n bs @ r) = (True, n)"
proof -
  have len: "n \<le> length bs" using utf8_scan_len [OF assms] .
  have at: "byte_at (take n bs @ r) i = byte_at bs i" if "i < n" for i
    using that len by (simp add: byte_at_def nth_append)
  have "0 < n" using utf8_scan_pos [of bs] assms(2) by simp
  with at have 0: "byte_at (take n bs @ r) 0 = byte_at bs 0" by blast
  consider "n = 1" | "n = 2" | "n = 3" | "n = 4"
    using assms(2) by (auto simp: utf8_scan_def Let_def split: if_splits)
  then show ?thesis
    using assms(2) 0 at [of 1] at [of 2] at [of 3]
    by cases (auto simp: utf8_scan_def Let_def split: if_splits)
qed

lemma utf8_valid_scan_append:
  assumes "bs \<noteq> []" "utf8_scan bs = (True, n)" "utf8_valid r"
  shows "utf8_valid (take n bs @ r)"
proof -
  have "drop n (take n bs @ r) = r" using utf8_scan_len [OF assms(1,2)] by simp
  then show ?thesis using utf8_scan_take [OF assms(1,2), of r] assms(3)
    by (subst utf8_valid.simps) simp
qed

lemma utf8_valid_lossy: "utf8_valid (from_utf8_lossy bs)"
proof (induction bs rule: from_utf8_lossy.induct)
  case (1 bs)
  show ?case
  proof (cases "bs = []")
    case False
    obtain v n where s: "utf8_scan bs = (v, n)" by fastforce
    from 1 [OF False] s have IH: "utf8_valid (from_utf8_lossy (drop n bs))" by simp
    show ?thesis
    proof (cases v)
      case True
      with s False IH show ?thesis
        using utf8_valid_scan_append [OF False, of n] by (subst from_utf8_lossy.simps) simp
    next
      case False
      have "utf8_scan [0xEF, 0xBF, 0xBD] = (True, 3)"
        by (simp add: utf8_scan_def byte_at_def utf8_width_def second_ok_def is_cont_def)
      from utf8_valid_scan_append [OF _ this IH] False s \<open>bs \<noteq> []\<close> show ?thesis
        by (subst from_utf8_lossy.simps) simp
    qed
  qed simp
qed

lemma from_utf8_lossy_valid: "utf8_valid bs \<Longrightarrow> from_utf8_lossy bs = bs"
proof (induction bs rule: utf8_valid.induct)
  case (1 bs)
  then show ?case
  proof (cases "bs = []")
    case False
    with "1.prems" have "fst (utf8_scan bs)" "utf8_valid (drop (snd (utf8_scan bs)) bs)"
      by (simp_all add: utf8_valid.simps [of bs] split: if_splits)
    with "1.IH" False show ?thesis by (subst from_utf8_lossy.simps) simp
  qed simp
qed

lemma utf8_valid_ascii: "(\<And>b. b \<in> set bs \<Longrightarrow> b < 0x80) \<Longrightarrow> utf8_valid bs"
proof (induction bs)
  case (Cons b bs)
  then have "utf8_scan (b # bs) = (True, 1)"
    by (simp add: utf8_scan_def byte_at_def utf8_width_def)
  with Cons show ?case by (subst utf8_valid.simps) simp
qed simp

definition str_of_bytes :: "byte list \<Rightarrow> string" where
  "str_of_bytes bs = map (\<lambda>b. char_of (unat b)) bs"

lemma length_str_of_bytes [simp]: "length (str_of_bytes bs) = length bs"
  by (simp add: str_of_bytes_def)

section \<open>JSON values\<close>

text \<open>\<^verbatim>\<open>serde_json::Value\<close>; a number is kept as its text.\<close>

datatype json =
    JNull
  | JBool bool
  | JNumber string
  | JString string
  | JArray "json list"
  | JObject "(string \<times> json) list"

fun json_get :: "string \<Rightarrow> json \<Rightarrow> json option" where
  "json_get k (JObject kvs) = map_of kvs k"
| "json_get k _ = None"

fun as_str :: "json \<Rightarrow> string option" where
  "as_str (JString s) = Some s"
| "as_str _ = None"

fun as_array :: "json \<Rightarrow> json list option" where
  "as_array (JArray xs) = Some xs"
| "as_array _ = None"

definition get_str :: "string \<Rightarrow> json \<Rightarrow> string option" where
  "get_str k j = Option.bind (json_get k j) as_str"

definition get_array :: "string \<Rightarrow> json \<Rightarrow> json list option" where
  "get_array k j = Option.bind (json_get k j) as_array"

lemma get_array_size: "get_array k j = Some xs \<Longrightarrow> c \<in> set xs \<Longrightarrow> size c < size j"
proof -
  assume g: "get_array k j = Some xs" and c: "c \<in> set xs"
  then obtain kvs where j: "j = JObject kvs" and kv: "map_of kvs k = Some (JArray xs)"
    by (cases j) (auto simp: get_array_def bind_eq_Some_conv elim!: as_array.elims)
  have "size c < size (JArray xs)" using c by (simp add: size_list_estimation less_Suc_eq_le size_list_estimation')
  moreover have "(k, JArray xs) \<in> set kvs" using kv by (rule map_of_SomeD)
  then have "size_prod (\<lambda>_. 0) size (k, JArray xs) \<le> size_list (size_prod (\<lambda>_. 0) size) kvs"
    by (rule size_list_estimation') simp
  ultimately show ?thesis by (simp add: j)
qed

end
