(* ===== verification/Trace.thy ===== *)
theory Trace
  imports Encoding
begin

text \<open>
  The trace decoder (\<^verbatim>\<open>crates/decoder/src/trace.rs\<close>): the parser of the \<^verbatim>\<open>callTracer\<close>
  JSON, the pre-order flattening of the call tree, and the decoder of revert data.  The revert
  decoder can panic (a slice index out of order), so its result is in \<^typ>\<open>'a rust\<close>.
\<close>

section \<open>Data\<close>

datatype decode_error =
    UnknownTopic string
  | AbiDecode string
  | MissingField string
  | InvalidDataLength usize usize
  | TraceParse string
  | JsonError string

datatype call_frame =
  CallFrame (cf_call_type: string) (cf_from: string) (cf_to: "string option")
    (cf_value: "string option") (cf_gas_used: u64) (cf_input: "string option")
    (cf_output: "string option") (cf_error: "string option") (cf_calls: "call_frame list")

record flat_frame =
  ff_depth :: i32
  ff_call_type :: string
  ff_from :: string
  ff_to :: "string option"
  ff_value :: string
  ff_gas_used :: i64
  ff_input :: "string option"
  ff_output :: "string option"
  ff_error :: "string option"

record flattened_trace =
  ft_tx_hash :: string
  ft_frames :: "flat_frame list"

lemma cf_calls_size: "child \<in> set (cf_calls frame) \<Longrightarrow> size child < size frame"
  by (cases frame) (auto simp: less_Suc_eq_le size_list_estimation')

section \<open>Parsing and flattening\<close>

definition zero_address :: string where
  "zero_address = ''0x0000000000000000000000000000000000000000''"

function parse_call_frame :: "json \<Rightarrow> decode_error + call_frame" where
  "parse_call_frame j =
     (case get_str ''type'' j of
        None \<Rightarrow> Inl (TraceParse ''missing 'type' field'')
      | Some call_type \<Rightarrow>
          Inr (CallFrame
            call_type
            (to_lowercase (unwrap_or (get_str ''from'' j) zero_address))
            (map_option to_lowercase (get_str ''to'' j))
            (get_str ''value'' j)
            (unwrap_or (Option.bind (get_str ''gasUsed'' j) (\<lambda>s. from_str_radix 64 16 (strip_0x s))) 0)
            (get_str ''input'' j)
            (get_str ''output'' j)
            (get_str ''error'' j)
            (case get_array ''calls'' j of None \<Rightarrow> [] | Some arr \<Rightarrow> filter_ok parse_call_frame arr)))"
  by pat_completeness auto
termination
  by (relation "measure size") (auto intro: get_array_size)

declare parse_call_frame.simps [simp del]

definition value_decimal :: "string option \<Rightarrow> string" where
  "value_decimal v =
     (case v of
        None \<Rightarrow> ''0''
      | Some h \<Rightarrow> (case from_str_radix 128 16 (strip_0x h) of None \<Rightarrow> ''0'' | Some n \<Rightarrow> show_nat n))"

definition flat_of :: "call_frame \<Rightarrow> i32 \<Rightarrow> flat_frame" where
  "flat_of frame depth =
     \<lparr>ff_depth = depth, ff_call_type = cf_call_type frame, ff_from = cf_from frame,
      ff_to = cf_to frame, ff_value = value_decimal (cf_value frame),
      ff_gas_used = u64_as_i64 (cf_gas_used frame), ff_input = cf_input frame,
      ff_output = cf_output frame, ff_error = cf_error frame\<rparr>"

text \<open>The recursion pushes the frame, then each child one level deeper, on the output vector.\<close>

function flatten_call_frame :: "call_frame \<Rightarrow> i32 \<Rightarrow> flat_frame list \<Rightarrow> flat_frame list" where
  "flatten_call_frame frame depth out =
     fold (\<lambda>child out'. flatten_call_frame child (depth + 1) out')
       (cf_calls frame) (out @ [flat_of frame depth])"
  by pat_completeness auto
termination
  by (relation "measure (\<lambda>(f, _, _). size f)") (auto intro: cf_calls_size)

declare flatten_call_frame.simps [simp del]

definition parse_trace :: "string \<Rightarrow> json \<Rightarrow> decode_error + flattened_trace" where
  "parse_trace tx_hash trace_json =
     (case parse_call_frame trace_json of
        Inl e \<Rightarrow> Inl e
      | Inr root \<Rightarrow> Inr \<lparr>ft_tx_hash = tx_hash, ft_frames = flatten_call_frame root 0 []\<rparr>)"

section \<open>Revert data\<close>

definition bytes_to_hex :: "byte list \<Rightarrow> string" where
  "bytes_to_hex bytes = concat (map hex_byte bytes)"

definition from_be_bytes :: "byte list \<Rightarrow> nat" where
  "from_be_bytes bs = foldl (\<lambda>acc b. acc * 256 + unat b) 0 bs"

definition decode_abi_string :: "byte list \<Rightarrow> (decode_error + string) rust" where
  "decode_abi_string data =
     (if length data < 64 then Return (Inl (AbiDecode ''ABI string data too short''))
      else
        let len = from_be_bytes (take 8 (drop 56 data));
            str_start = 64;
            str_end = wrap_add str_start len
        in if length data < str_end then Return (Inl (AbiDecode ''string length exceeds data''))
           else if str_end < str_start then Panic
           else Return (Inr (str_of_bytes (from_utf8_lossy (take (str_end - str_start) (drop str_start data))))))"

definition decode_revert_reason :: "byte list \<Rightarrow> (decode_error + string) rust" where
  "decode_revert_reason output =
     (if length output < 4 then Return (Inr (''0x'' @ bytes_to_hex output))
      else if take 4 output = [0x08, 0xc3, 0x79, 0xa0] then decode_abi_string (drop 4 output)
      else if take 4 output = [0x4e, 0x48, 0x7b, 0x71] \<and> 36 \<le> length output
      then Return (Inr (''Panic(0x'' @ hex_byte (output ! 35) @ '')''))
      else Return (Inr (''0x'' @ bytes_to_hex output)))"

section \<open>The pre-order linearisation\<close>

function preorder :: "i32 \<Rightarrow> call_frame \<Rightarrow> flat_frame list" where
  "preorder d frame = flat_of frame d # concat (map (preorder (d + 1)) (cf_calls frame))"
  by pat_completeness auto
termination
  by (relation "measure (\<lambda>(_, f). size f)") (auto intro: cf_calls_size)

declare preorder.simps [simp del]

lemma flatten_preorder: "flatten_call_frame f d out = out @ preorder d f"
proof (induction f d out rule: flatten_call_frame.induct)
  case (1 frame depth out)
  have "fold (\<lambda>c o'. flatten_call_frame c (depth + 1) o') cs acc
        = acc @ concat (map (preorder (depth + 1)) cs)"
    if "set cs \<subseteq> set (cf_calls frame)" for cs acc
    using that 1 by (induction cs arbitrary: acc) auto
  then show ?case
    by (simp add: flatten_call_frame.simps [of frame] preorder.simps [of depth frame])
qed

text \<open>A call tree over flat frames, and its reconstruction from the depths alone: the children of
  a frame are the frames that follow it with a larger depth.\<close>

datatype frame_tree = Node flat_frame "frame_tree list"

function frame_tree_of :: "i32 \<Rightarrow> call_frame \<Rightarrow> frame_tree" where
  "frame_tree_of d frame = Node (flat_of frame d) (map (frame_tree_of (d + 1)) (cf_calls frame))"
  by pat_completeness auto
termination
  by (relation "measure (\<lambda>(_, f). size f)") (auto intro: cf_calls_size)

declare frame_tree_of.simps [simp del]

function rebuild :: "flat_frame list \<Rightarrow> frame_tree list" where
  "rebuild [] = []"
| "rebuild (x # xs) =
     Node x (rebuild (takeWhile (\<lambda>y. ff_depth x < ff_depth y) xs))
     # rebuild (dropWhile (\<lambda>y. ff_depth x < ff_depth y) xs)"
  by pat_completeness auto
termination
  by (relation "measure length") (auto simp: less_Suc_eq_le length_takeWhile_le length_dropWhile_le)

lemma preorder_depths: "x \<in> set (preorder d f) \<Longrightarrow> d \<le> ff_depth x"
proof (induction d f rule: preorder.induct)
  case (1 d frame)
  from "1.prems" consider "x = flat_of frame d"
    | c where "c \<in> set (cf_calls frame)" "x \<in> set (preorder (d + 1) c)"
    by (auto simp: preorder.simps [of d frame])
  then show ?case
  proof cases
    case 1
    then show ?thesis by (simp add: flat_of_def)
  next
    case 2
    then show ?thesis using "1.IH" by force
  qed
qed

lemma rebuild_forest:
  "rebuild (concat (map (preorder d) fs)) = map (frame_tree_of d) fs"
proof (induction "sum_list (map size fs)" arbitrary: d fs rule: less_induct)
  case less
  show ?case
  proof (cases fs)
    case Nil
    then show ?thesis by simp
  next
    case (Cons f gs)
    let ?kids = "concat (map (preorder (d + 1)) (cf_calls f))"
    let ?rest = "concat (map (preorder d) gs)"
    have kids: "d < ff_depth x" if "x \<in> set ?kids" for x
      using that preorder_depths by force
    have rest: "?rest = [] \<or> \<not> d < ff_depth (hd ?rest)"
      by (cases gs) (auto simp: preorder.simps [of d] flat_of_def)
    have "sum_list (map size (cf_calls f)) < size f"
      by (cases f) (simp add: size_list_conv_sum_list less_Suc_eq_le)
    then have s1: "sum_list (map size (cf_calls f)) < sum_list (map size fs)"
      and s2: "sum_list (map size gs) < sum_list (map size fs)" using Cons by simp_all
    have d0: "ff_depth (flat_of f d) = d" by (simp add: flat_of_def)
    show ?thesis
      using takeWhile_split [of ?kids "\<lambda>y. d < ff_depth y" ?rest, OF kids rest]
        less.hyps [OF s1] less.hyps [OF s2]
      by (simp add: Cons preorder.simps [of d f] frame_tree_of.simps [of d f] d0)
  qed
qed

text \<open>C31: the flattened trace determines the call tree.  Parsing fails exactly when the root has
  no string \<^verbatim>\<open>type\<close> field; otherwise the frames are the pre-order traversal of the parsed tree,
  the root frame first at depth 0, and grouping every frame with the deeper frames that follow it
  gives the tree back, so reading the rows in insertion order loses nothing.\<close>

theorem parse_trace_roundtrip:
  "(case parse_call_frame j of
      Inl e \<Rightarrow> parse_trace tx j = Inl e \<and> get_str ''type'' j = None
    | Inr root \<Rightarrow>
        (\<exists>t. parse_trace tx j = Inr t \<and> ft_tx_hash t = tx
          \<and> ft_frames t = preorder 0 root
          \<and> hd (ft_frames t) = flat_of root 0
          \<and> rebuild (ft_frames t) = [frame_tree_of 0 root]))"
proof (cases "parse_call_frame j")
  case (Inl e)
  then have "get_str ''type'' j = None"
    by (simp add: parse_call_frame.simps [of j] split: option.splits)
  with Inl show ?thesis by (simp add: parse_trace_def)
next
  case (Inr root)
  have "rebuild (preorder 0 root) = [frame_tree_of 0 root]"
    using rebuild_forest [of 0 "[root]"] by simp
  with Inr show ?thesis
    by (simp add: parse_trace_def flatten_preorder preorder.simps [of 0 root])
qed

section \<open>Revert data: round trips and the panic\<close>

fun be_bytes :: "nat \<Rightarrow> nat \<Rightarrow> byte list" where
  "be_bytes 0 n = []"
| "be_bytes (Suc k) n = be_bytes k (n div 256) @ [of_nat n]"

lemma length_be_bytes [simp]: "length (be_bytes k n) = k"
  by (induction k arbitrary: n) auto

lemma drop_be_bytes: "drop j (be_bytes (j + k) n) = be_bytes k n"
  by (induction k arbitrary: n) auto

lemma from_be_bytes_be_bytes: "from_be_bytes (be_bytes k n) = n mod 256 ^ k"
proof (induction k arbitrary: n)
  case 0
  then show ?case by (simp add: from_be_bytes_def)
next
  case (Suc k)
  have "unat (of_nat n :: byte) = n mod 256" by (simp add: unat_of_nat)
  with Suc show ?case
    by (simp add: from_be_bytes_def mod_mult2_eq add.commute mult.commute)
qed

text \<open>The ABI encoding of \<^verbatim>\<open>Error(string)\<close>: selector, offset word, length word, the bytes, padding.\<close>

definition encode_error_string :: "byte list \<Rightarrow> byte list \<Rightarrow> byte list" where
  "encode_error_string msg pad =
     [0x08, 0xc3, 0x79, 0xa0] @ be_bytes 32 32 @ be_bytes 32 (length msg) @ msg @ pad"

lemma abi_length_word:
  "from_be_bytes (take 8 (drop 56 (be_bytes 32 a @ be_bytes 32 n @ rest))) = n mod 2 ^ 64"
proof -
  have "take 8 (drop 56 (be_bytes 32 a @ be_bytes 32 n @ rest)) = drop 24 (be_bytes 32 n)"
    by simp
  also have "\<dots> = be_bytes 8 n" using drop_be_bytes [of 24 8 n] by simp
  finally show ?thesis by (simp add: from_be_bytes_be_bytes)
qed

lemma decode_encoded_error:
  assumes "length msg < 2 ^ 64 - 64"
  shows "decode_revert_reason (encode_error_string msg pad) = Return (Inr (str_of_bytes (from_utf8_lossy msg)))"
proof -
  let ?d = "be_bytes 32 32 @ be_bytes 32 (length msg) @ msg @ pad"
  have len: "from_be_bytes (take 8 (drop 56 ?d)) = length msg"
    unfolding abi_length_word using assms by simp
  have "wrap_add 64 (length msg) = 64 + length msg" using assms by simp
  then have "decode_abi_string ?d = Return (Inr (str_of_bytes (from_utf8_lossy msg)))"
    unfolding decode_abi_string_def Let_def len by simp
  then show ?thesis by (simp add: decode_revert_reason_def encode_error_string_def)
qed

text \<open>C32: \<^verbatim>\<open>Error(string)\<close> data round-trips.  Decoding the ABI encoding of a UTF-8 message, with any
  padding after it, gives the message back; and whatever the bytes are, the decoded reason is
  valid UTF-8.\<close>

theorem decode_revert_reason_error_roundtrip:
  assumes "length msg < 2 ^ 64 - 64"
  shows "decode_revert_reason (encode_error_string msg pad)
       = Return (Inr (str_of_bytes (from_utf8_lossy msg)))
     \<and> utf8_valid (from_utf8_lossy msg)
     \<and> (utf8_valid msg \<longrightarrow>
          decode_revert_reason (encode_error_string msg pad) = Return (Inr (str_of_bytes msg)))"
  using decode_encoded_error [OF assms] utf8_valid_lossy from_utf8_lossy_valid by auto

theorem decode_revert_reason_error_roundtrip_witness:
  "decode_revert_reason (encode_error_string [0x53, 0x54, 0x46] (replicate 29 0)) = Return (Inr ''STF'')"
proof -
  have h: "length [0x53, 0x54, 0x46 :: byte] < 2 ^ 64 - 64" by simp
  have "utf8_valid [0x53, 0x54, 0x46]" by (rule utf8_valid_ascii) auto
  moreover have "str_of_bytes [0x53, 0x54, 0x46] = ''STF''" by code_simp
  ultimately show ?thesis
    using decode_revert_reason_error_roundtrip [OF h, of "replicate 29 0"] by metis
qed

text \<open>C33: when the revert decoder panics.  The decoder never panics on data that is not
  \<^verbatim>\<open>Error(string)\<close>; on \<^verbatim>\<open>Error(string)\<close> data it panics exactly when the header is complete and
  the low eight bytes of the length word are at least \<open>2^64 - 64\<close>: the end of the string then
  wraps below its start and the slice is out of order.\<close>

theorem decode_revert_reason_panic_iff:
  "decode_revert_reason output = Panic \<longleftrightarrow>
     take 4 output = [0x08, 0xc3, 0x79, 0xa0] \<and> 68 \<le> length output
     \<and> 2 ^ 64 - 64 \<le> from_be_bytes (take 8 (drop 60 output))"
proof -
  have bound: "from_be_bytes bs < 256 ^ length bs" for bs
  proof (induction bs rule: rev_induct)
    case Nil
    then show ?case by (simp add: from_be_bytes_def)
  next
    case (snoc b bs)
    have "unat b < 256" using unsigned_less [of b, where 'a = nat] by simp
    with snoc show ?case by (simp add: from_be_bytes_def)
  qed
  have "decode_abi_string data = Panic \<longleftrightarrow>
      64 \<le> length data \<and> 2 ^ 64 - 64 \<le> from_be_bytes (take 8 (drop 56 data))" for data
  proof (cases "64 \<le> length data")
    case True
    define len where "len = from_be_bytes (take 8 (drop 56 data))"
    have "len < 2 ^ 64" using bound [of "take 8 (drop 56 data)"] True by (simp add: len_def)
    then have "wrap_add 64 len < 64 \<longleftrightarrow> 2 ^ 64 - 64 \<le> len"
      by (auto simp: wrap_add_def mod_if)
    with True show ?thesis
      by (auto simp: decode_abi_string_def Let_def len_def)
  qed (simp add: decode_abi_string_def)
  then show ?thesis by (auto simp: decode_revert_reason_def)
qed

end
