(* ===== verification/Events.thy ===== *)
theory Events
  imports Trace
begin

text \<open>
  The event decoder (\<^verbatim>\<open>crates/decoder/src/events.rs\<close>): topic dispatch and the lowering of the
  four Solidity events to rows.  The code the \<^verbatim>\<open>sol!\<close> macro generates (signature hashes and
  \<^verbatim>\<open>decode_raw_log\<close>), the display of an address and \<^verbatim>\<open>BigDecimal::from_str\<close> come from other
  crates: they are the fields of the record \<open>sol\<close>, an argument of every decoder.
\<close>

section \<open>Data\<close>

type_synonym b256 = string
type_synonym address = "160 word"

record swap_raw =
  sr_sender :: address
  sr_recipient :: address
  sr_amount0 :: int
  sr_amount1 :: int
  sr_sqrtPriceX96 :: int
  sr_liquidity :: int
  sr_tick :: int

record position_raw =
  pr_owner :: address
  pr_tickLower :: int
  pr_tickUpper :: int
  pr_amount :: int
  pr_amount0 :: int
  pr_amount1 :: int

record transfer_raw =
  tr_from :: address
  tr_to :: address
  tr_value :: int

record sol =
  Swap_SIGNATURE_HASH :: b256
  Mint_SIGNATURE_HASH :: b256
  Burn_SIGNATURE_HASH :: b256
  Transfer_SIGNATURE_HASH :: b256
  Swap_decode :: "b256 list \<Rightarrow> byte list \<Rightarrow> string + swap_raw"
  Mint_decode :: "b256 list \<Rightarrow> byte list \<Rightarrow> string + position_raw"
  Burn_decode :: "b256 list \<Rightarrow> byte list \<Rightarrow> string + position_raw"
  Transfer_decode :: "b256 list \<Rightarrow> byte list \<Rightarrow> string + transfer_raw"
  address_display :: "address \<Rightarrow> string"
  BigDecimal_from_str :: "string \<Rightarrow> string + bigdecimal"

record decoded_swap =
  ds_pool_address :: string
  ds_tx_hash :: string
  ds_sender :: string
  ds_recipient :: string
  ds_amount0 :: bigdecimal
  ds_amount1 :: bigdecimal
  ds_amount_in :: bigdecimal
  ds_amount_out :: bigdecimal
  ds_sqrt_price_x96 :: bigdecimal
  ds_liquidity :: bigdecimal
  ds_tick :: i32
  ds_log_index :: i32
  ds_timestamp :: instant

record decoded_liquidity =
  dl_event_type :: string
  dl_pool_address :: string
  dl_tx_hash :: string
  dl_provider :: string
  dl_token0_amount :: bigdecimal
  dl_token1_amount :: bigdecimal
  dl_tick_lower :: i32
  dl_tick_upper :: i32
  dl_liquidity :: bigdecimal
  dl_log_index :: i32
  dl_timestamp :: instant

record decoded_transfer =
  dt_tx_hash :: string
  dt_token_address :: string
  dt_from_addr :: string
  dt_to_addr :: string
  dt_amount :: bigdecimal
  dt_log_index :: i32
  dt_timestamp :: instant

datatype decoded_event =
    Swap decoded_swap
  | Liquidity decoded_liquidity
  | Transfer decoded_transfer

section \<open>Decoders\<close>

definition bd_from_str :: "sol \<Rightarrow> string \<Rightarrow> decode_error + bigdecimal" where
  "bd_from_str S s =
     (case BigDecimal_from_str S s of Inl e \<Rightarrow> Inl (AbiDecode e) | Inr d \<Rightarrow> Inr d)"

definition i32_from_str :: "string \<Rightarrow> decode_error + i32" where
  "i32_from_str s =
     (case parse_signed 32 s of None \<Rightarrow> Inl (AbiDecode ''invalid i32'') | Some i \<Rightarrow> Inr i)"

definition abi_decode :: "string + 'a \<Rightarrow> decode_error + 'a" where
  "abi_decode r = (case r of Inl e \<Rightarrow> Inl (AbiDecode e) | Inr x \<Rightarrow> Inr x)"

definition swap_in_out :: "bigdecimal \<Rightarrow> bigdecimal \<Rightarrow> bigdecimal \<times> bigdecimal" where
  "swap_in_out amount0 amount1 =
     (if amount0 \<ge> 0 then (amount0, \<bar>amount1\<bar>) else (amount1, \<bar>amount0\<bar>))"

definition decode_swap ::
    "sol \<Rightarrow> b256 list \<Rightarrow> byte list \<Rightarrow> string \<Rightarrow> string \<Rightarrow> i32 \<Rightarrow> instant \<Rightarrow> decode_error + decoded_event" where
  "decode_swap S topics data pool_address tx_hash log_index timestamp =
     bind_result (abi_decode (Swap_decode S topics data)) (\<lambda>decoded.
     bind_result (bd_from_str S (show_int (sr_amount0 decoded))) (\<lambda>amount0.
     bind_result (bd_from_str S (show_int (sr_amount1 decoded))) (\<lambda>amount1.
     let (amount_in, amount_out) = swap_in_out amount0 amount1 in
     bind_result (bd_from_str S (show_int (sr_sqrtPriceX96 decoded))) (\<lambda>sqrt_price.
     bind_result (bd_from_str S (show_int (sr_liquidity decoded))) (\<lambda>liquidity.
     bind_result (i32_from_str (show_int (sr_tick decoded))) (\<lambda>tick.
       Inr (Swap \<lparr>
         ds_pool_address = pool_address, ds_tx_hash = tx_hash,
         ds_sender = to_lowercase (address_display S (sr_sender decoded)),
         ds_recipient = to_lowercase (address_display S (sr_recipient decoded)),
         ds_amount0 = amount0, ds_amount1 = amount1,
         ds_amount_in = amount_in, ds_amount_out = amount_out,
         ds_sqrt_price_x96 = sqrt_price, ds_liquidity = liquidity, ds_tick = tick,
         ds_log_index = log_index, ds_timestamp = timestamp\<rparr>)))))))"

definition decode_mint ::
    "sol \<Rightarrow> b256 list \<Rightarrow> byte list \<Rightarrow> string \<Rightarrow> string \<Rightarrow> i32 \<Rightarrow> instant \<Rightarrow> decode_error + decoded_event" where
  "decode_mint S topics data pool_address tx_hash log_index timestamp =
     bind_result (abi_decode (Mint_decode S topics data)) (\<lambda>decoded.
     bind_result (bd_from_str S (show_int (pr_amount0 decoded))) (\<lambda>token0.
     bind_result (bd_from_str S (show_int (pr_amount1 decoded))) (\<lambda>token1.
     bind_result (i32_from_str (show_int (pr_tickLower decoded))) (\<lambda>lower.
     bind_result (i32_from_str (show_int (pr_tickUpper decoded))) (\<lambda>upper.
     bind_result (bd_from_str S (show_int (pr_amount decoded))) (\<lambda>liquidity.
       Inr (Liquidity \<lparr>
         dl_event_type = ''MINT'', dl_pool_address = pool_address, dl_tx_hash = tx_hash,
         dl_provider = to_lowercase (address_display S (pr_owner decoded)),
         dl_token0_amount = token0, dl_token1_amount = token1,
         dl_tick_lower = lower, dl_tick_upper = upper, dl_liquidity = liquidity,
         dl_log_index = log_index, dl_timestamp = timestamp\<rparr>)))))))"

definition decode_burn ::
    "sol \<Rightarrow> b256 list \<Rightarrow> byte list \<Rightarrow> string \<Rightarrow> string \<Rightarrow> i32 \<Rightarrow> instant \<Rightarrow> decode_error + decoded_event" where
  "decode_burn S topics data pool_address tx_hash log_index timestamp =
     bind_result (abi_decode (Burn_decode S topics data)) (\<lambda>decoded.
     bind_result (bd_from_str S (show_int (pr_amount0 decoded))) (\<lambda>token0.
     bind_result (bd_from_str S (show_int (pr_amount1 decoded))) (\<lambda>token1.
     bind_result (i32_from_str (show_int (pr_tickLower decoded))) (\<lambda>lower.
     bind_result (i32_from_str (show_int (pr_tickUpper decoded))) (\<lambda>upper.
     bind_result (bd_from_str S (show_int (pr_amount decoded))) (\<lambda>liquidity.
       Inr (Liquidity \<lparr>
         dl_event_type = ''BURN'', dl_pool_address = pool_address, dl_tx_hash = tx_hash,
         dl_provider = to_lowercase (address_display S (pr_owner decoded)),
         dl_token0_amount = token0, dl_token1_amount = token1,
         dl_tick_lower = lower, dl_tick_upper = upper, dl_liquidity = liquidity,
         dl_log_index = log_index, dl_timestamp = timestamp\<rparr>)))))))"

definition decode_transfer ::
    "sol \<Rightarrow> b256 list \<Rightarrow> byte list \<Rightarrow> string \<Rightarrow> string \<Rightarrow> i32 \<Rightarrow> instant \<Rightarrow> decode_error + decoded_event" where
  "decode_transfer S topics data token_address tx_hash log_index timestamp =
     bind_result (abi_decode (Transfer_decode S topics data)) (\<lambda>decoded.
     bind_result (bd_from_str S (show_int (tr_value decoded))) (\<lambda>amount.
       Inr (Transfer \<lparr>
         dt_tx_hash = tx_hash, dt_token_address = token_address,
         dt_from_addr = to_lowercase (address_display S (tr_from decoded)),
         dt_to_addr = to_lowercase (address_display S (tr_to decoded)),
         dt_amount = amount, dt_log_index = log_index, dt_timestamp = timestamp\<rparr>)))"

definition decode_log ::
    "sol \<Rightarrow> b256 list \<Rightarrow> byte list \<Rightarrow> string \<Rightarrow> string \<Rightarrow> i32 \<Rightarrow> instant \<Rightarrow> decode_error + decoded_event" where
  "decode_log S log_topics log_data pool_address tx_hash log_index timestamp =
     (case log_topics of
        [] \<Rightarrow> Inl (MissingField ''topic0'')
      | topic0 # _ \<Rightarrow>
          if topic0 = Swap_SIGNATURE_HASH S then
            decode_swap S log_topics log_data pool_address tx_hash log_index timestamp
          else if topic0 = Mint_SIGNATURE_HASH S then
            decode_mint S log_topics log_data pool_address tx_hash log_index timestamp
          else if topic0 = Burn_SIGNATURE_HASH S then
            decode_burn S log_topics log_data pool_address tx_hash log_index timestamp
          else if topic0 = Transfer_SIGNATURE_HASH S then
            decode_transfer S log_topics log_data pool_address tx_hash log_index timestamp
          else Inl (UnknownTopic topic0))"

lemmas event_decoder_defs =
  decode_swap_def decode_mint_def decode_burn_def decode_transfer_def

section \<open>What the generated code promises\<close>

text \<open>\<^verbatim>\<open>BigDecimal::from_str\<close> reads back the decimal text of an integer; the four signature
  hashes are distinct; a decoded \<^verbatim>\<open>int24\<close> is in range.\<close>

definition bigdecimal_reads_decimals :: "sol \<Rightarrow> bool" where
  "bigdecimal_reads_decimals S \<longleftrightarrow> (\<forall>i. BigDecimal_from_str S (show_int i) = Inr i)"

definition signatures_distinct :: "sol \<Rightarrow> bool" where
  "signatures_distinct S \<longleftrightarrow>
     distinct [Swap_SIGNATURE_HASH S, Mint_SIGNATURE_HASH S, Burn_SIGNATURE_HASH S, Transfer_SIGNATURE_HASH S]"

definition is_int24 :: "int \<Rightarrow> bool" where
  "is_int24 i \<longleftrightarrow> - (2 ^ 23) \<le> i \<and> i < 2 ^ 23"

lemma bd_from_str_show_int: "bigdecimal_reads_decimals S \<Longrightarrow> bd_from_str S (show_int i) = Inr i"
  by (simp add: bd_from_str_def bigdecimal_reads_decimals_def)

lemma i32_from_str_show_int: "is_int24 i \<Longrightarrow> i32_from_str (show_int i) = Inr i"
  by (simp add: i32_from_str_def is_int24_def parse_signed_show_int)

lemmas lowering = bd_from_str_show_int i32_from_str_show_int

lemma swap_in_out_opposite:
  "amount0 * amount1 < 0 \<Longrightarrow>
     swap_in_out amount0 amount1 = (max amount0 amount1, - min amount0 amount1)"
  by (auto simp: swap_in_out_def mult_less_0_iff)

text \<open>C35: a swap log gives the swap row the event describes.  When the generated decoder accepts
  a log under the swap topic, decoding succeeds, keeps the signed amounts, price, liquidity and
  tick, lowercases the addresses, and splits the amounts: for amounts of opposite signs the
  positive one is \<open>amount_in\<close> and the magnitude of the negative one is \<open>amount_out\<close>.  With
  \<open>amount0 = 0\<close> and a positive \<open>amount1\<close> the split is the other way round: the input is reported
  as 0 and the tokens that came in as the output.\<close>

theorem decode_log_swap:
  assumes "bigdecimal_reads_decimals S"
    and "Swap_decode S (Swap_SIGNATURE_HASH S # topics) data = Inr raw"
    and "is_int24 (sr_tick raw)"
  shows "\<exists>sw. decode_log S (Swap_SIGNATURE_HASH S # topics) data pool tx ix ts = Inr (Swap sw)
     \<and> ds_amount0 sw = sr_amount0 raw \<and> ds_amount1 sw = sr_amount1 raw
     \<and> ds_sqrt_price_x96 sw = sr_sqrtPriceX96 raw \<and> ds_liquidity sw = sr_liquidity raw
     \<and> ds_tick sw = sr_tick raw
     \<and> ds_sender sw = to_lowercase (address_display S (sr_sender raw))
     \<and> ds_recipient sw = to_lowercase (address_display S (sr_recipient raw))
     \<and> ds_pool_address sw = pool \<and> ds_tx_hash sw = tx \<and> ds_log_index sw = ix \<and> ds_timestamp sw = ts
     \<and> (sr_amount0 raw * sr_amount1 raw < 0 \<longrightarrow>
          ds_amount_in sw = max (sr_amount0 raw) (sr_amount1 raw)
          \<and> ds_amount_out sw = - min (sr_amount0 raw) (sr_amount1 raw)
          \<and> 0 < ds_amount_in sw \<and> 0 < ds_amount_out sw)
     \<and> (sr_amount0 raw = 0 \<and> 0 < sr_amount1 raw \<longrightarrow>
          ds_amount_in sw = 0 \<and> ds_amount_out sw = sr_amount1 raw)"
proof -
  define sw where "sw = \<lparr>ds_pool_address = pool, ds_tx_hash = tx,
    ds_sender = to_lowercase (address_display S (sr_sender raw)),
    ds_recipient = to_lowercase (address_display S (sr_recipient raw)),
    ds_amount0 = sr_amount0 raw, ds_amount1 = sr_amount1 raw,
    ds_amount_in = fst (swap_in_out (sr_amount0 raw) (sr_amount1 raw)),
    ds_amount_out = snd (swap_in_out (sr_amount0 raw) (sr_amount1 raw)),
    ds_sqrt_price_x96 = sr_sqrtPriceX96 raw, ds_liquidity = sr_liquidity raw,
    ds_tick = sr_tick raw, ds_log_index = ix, ds_timestamp = ts\<rparr>"
  have "decode_log S (Swap_SIGNATURE_HASH S # topics) data pool tx ix ts = Inr (Swap sw)"
    using assms(2)
    by (simp add: decode_log_def decode_swap_def abi_decode_def lowering assms(1,3) sw_def split_beta)
  moreover have "sr_amount0 raw * sr_amount1 raw < 0 \<longrightarrow>
      ds_amount_in sw = max (sr_amount0 raw) (sr_amount1 raw)
      \<and> ds_amount_out sw = - min (sr_amount0 raw) (sr_amount1 raw)
      \<and> 0 < ds_amount_in sw \<and> 0 < ds_amount_out sw"
    by (auto simp: sw_def swap_in_out_opposite mult_less_0_iff)
  moreover have "sr_amount0 raw = 0 \<and> 0 < sr_amount1 raw \<longrightarrow>
      ds_amount_in sw = 0 \<and> ds_amount_out sw = sr_amount1 raw"
    by (simp add: sw_def swap_in_out_def)
  moreover have "ds_amount0 sw = sr_amount0 raw \<and> ds_amount1 sw = sr_amount1 raw
     \<and> ds_sqrt_price_x96 sw = sr_sqrtPriceX96 raw \<and> ds_liquidity sw = sr_liquidity raw
     \<and> ds_tick sw = sr_tick raw
     \<and> ds_sender sw = to_lowercase (address_display S (sr_sender raw))
     \<and> ds_recipient sw = to_lowercase (address_display S (sr_recipient raw))
     \<and> ds_pool_address sw = pool \<and> ds_tx_hash sw = tx \<and> ds_log_index sw = ix \<and> ds_timestamp sw = ts"
    by (simp add: sw_def)
  ultimately show ?thesis by blast
qed

text \<open>A concrete stand-in for the generated code, used to exercise the decoders.\<close>

definition sample_decimal :: "string \<Rightarrow> string + bigdecimal" where
  "sample_decimal s =
     (let neg = (s \<noteq> [] \<and> hd s = CHR ''-'') in
      case digits_value 10 0 (if neg then tl s else s) of
        None \<Rightarrow> Inl ''invalid''
      | Some n \<Rightarrow> Inr (if neg then - int n else int n))"

definition sample_swap :: swap_raw where
  "sample_swap = \<lparr>sr_sender = 1, sr_recipient = 2, sr_amount0 = -5, sr_amount1 = 7,
     sr_sqrtPriceX96 = 11, sr_liquidity = 13, sr_tick = -3\<rparr>"

definition sample_position :: position_raw where
  "sample_position = \<lparr>pr_owner = 3, pr_tickLower = -60, pr_tickUpper = 60, pr_amount = 9,
     pr_amount0 = 4, pr_amount1 = 6\<rparr>"

definition sample_sol :: sol where
  "sample_sol = \<lparr>Swap_SIGNATURE_HASH = ''0xc4'', Mint_SIGNATURE_HASH = ''0x7a'',
     Burn_SIGNATURE_HASH = ''0x0c'', Transfer_SIGNATURE_HASH = ''0xdd'',
     Swap_decode = (\<lambda>ts d. if d = [] then Inl ''short'' else Inr sample_swap),
     Mint_decode = (\<lambda>ts d. Inr sample_position),
     Burn_decode = (\<lambda>ts d. Inr sample_position),
     Transfer_decode = (\<lambda>ts d. Inr \<lparr>tr_from = 1, tr_to = 2, tr_value = 100\<rparr>),
     address_display = (\<lambda>a. ''0x'' @ show_nat (unat a)),
     BigDecimal_from_str = sample_decimal\<rparr>"

lemma sample_sol_reads: "bigdecimal_reads_decimals sample_sol"
  using show_nat_hd
  by (auto simp: bigdecimal_reads_decimals_def sample_sol_def sample_decimal_def show_int_def
      digits_value_show_nat)

theorem decode_log_swap_witness:
  "\<exists>sw. decode_log sample_sol [''0xc4''] [1] ''pool'' ''tx'' 4 0 = Inr (Swap sw)
     \<and> ds_amount_in sw = 7 \<and> ds_amount_out sw = 5"
proof -
  have "Swap_decode sample_sol [Swap_SIGNATURE_HASH sample_sol] [1] = Inr sample_swap"
    and "is_int24 (sr_tick sample_swap)"
    by (simp_all add: sample_sol_def sample_swap_def is_int24_def)
  from decode_log_swap [OF sample_sol_reads this, of "''pool''" "''tx''" 4 0]
  show ?thesis by (auto simp: sample_sol_def sample_swap_def)
qed

text \<open>Every log is dispatched to the decoder of its topic.  Given distinct signature hashes
  and the documented decimal parser, a log without topics is a missing field, a foreign topic is
  reported as unknown, a payload the generated decoder rejects is an ABI error carrying its
  message, and an accepted one gives an event of the variant its topic names; a Mint and a Burn
  differ only in the tag.\<close>

lemma decode_log_topics:
  assumes "signatures_distinct S"
  shows "decode_log S (Mint_SIGNATURE_HASH S # topics) = decode_mint S (Mint_SIGNATURE_HASH S # topics)"
    and "decode_log S (Burn_SIGNATURE_HASH S # topics) = decode_burn S (Burn_SIGNATURE_HASH S # topics)"
    and "decode_log S (Transfer_SIGNATURE_HASH S # topics) = decode_transfer S (Transfer_SIGNATURE_HASH S # topics)"
  using assms by (auto simp: decode_log_def signatures_distinct_def fun_eq_iff)

lemma decode_log_dispatch:
  assumes "bigdecimal_reads_decimals S" "signatures_distinct S"
    and "is_int24 (pr_tickLower p)" "is_int24 (pr_tickUpper p)"
  shows "decode_log S [] data a tx ix ts = Inl (MissingField ''topic0'')
     \<and> (t \<notin> {Swap_SIGNATURE_HASH S, Mint_SIGNATURE_HASH S, Burn_SIGNATURE_HASH S, Transfer_SIGNATURE_HASH S}
         \<longrightarrow> decode_log S (t # topics) data a tx ix ts = Inl (UnknownTopic t))
     \<and> (Mint_decode S (Mint_SIGNATURE_HASH S # topics) data = Inl e
         \<longrightarrow> decode_log S (Mint_SIGNATURE_HASH S # topics) data a tx ix ts = Inl (AbiDecode e))
     \<and> (Mint_decode S (Mint_SIGNATURE_HASH S # topics) data = Inr p
         \<longrightarrow> Burn_decode S (Burn_SIGNATURE_HASH S # topics) data = Inr p
         \<longrightarrow> (\<exists>l. decode_log S (Mint_SIGNATURE_HASH S # topics) data a tx ix ts = Inr (Liquidity l)
               \<and> dl_event_type l = ''MINT'' \<and> dl_tick_lower l = pr_tickLower p
               \<and> dl_tick_upper l = pr_tickUpper p \<and> dl_liquidity l = pr_amount p
               \<and> dl_token0_amount l = pr_amount0 p \<and> dl_token1_amount l = pr_amount1 p
               \<and> dl_provider l = to_lowercase (address_display S (pr_owner p))
               \<and> decode_log S (Burn_SIGNATURE_HASH S # topics) data a tx ix ts
                   = Inr (Liquidity (l\<lparr>dl_event_type := ''BURN''\<rparr>))))
     \<and> (Transfer_decode S (Transfer_SIGNATURE_HASH S # topics) data = Inr r
         \<longrightarrow> decode_log S (Transfer_SIGNATURE_HASH S # topics) data a tx ix ts
             = Inr (Transfer \<lparr>dt_tx_hash = tx, dt_token_address = a,
                 dt_from_addr = to_lowercase (address_display S (tr_from r)),
                 dt_to_addr = to_lowercase (address_display S (tr_to r)),
                 dt_amount = tr_value r, dt_log_index = ix, dt_timestamp = ts\<rparr>))"
proof (intro conjI impI)
  show "decode_log S [] data a tx ix ts = Inl (MissingField ''topic0'')" by (simp add: decode_log_def)
qed (simp_all add: decode_log_topics assms decode_mint_def decode_burn_def decode_transfer_def
      abi_decode_def lowering, simp add: decode_log_def)

end
