(* ===== verification/Models.thy ===== *)
theory Models
  imports Encoding Complex_Main
begin

text \<open>
  The data model of the \<^verbatim>\<open>db\<close> crate (\<^verbatim>\<open>crates/db/src/models.rs\<close>): the PostgreSQL enums with
  their wire forms, and one record per table row.  The record fields carry a prefix for the table
  they belong to.  The wire forms are codecs; the locale \<open>wire_codec\<close> states what the API filters
  and the SQL casts rely on, and it is interpreted on every codec of the crate.
\<close>

section \<open>Enums\<close>

datatype error_category =
    InsufficientBalance | InsufficientAllowance
  | SlippageExceeded | SlippageAmountOut | SlippageAmountIn | SlippagePriceImpact
  | DeadlineExpired | Unauthorized | TransferFailed | Unknown

datatype time_bucket = Hour | Day | Week

datatype liquidity_event_type = Mint | Burn

datatype snapshot_interval =
  OneMinute | FiveMinutes | FifteenMinutes | OneHour | FourHours | OneDay

definition ErrorCategory_from_str :: "string \<Rightarrow> unit + error_category" where
  "ErrorCategory_from_str s =
     (if s = ''INSUFFICIENT_BALANCE'' then Inr InsufficientBalance
      else if s = ''INSUFFICIENT_ALLOWANCE'' then Inr InsufficientAllowance
      else if s = ''SLIPPAGE_EXCEEDED'' then Inr SlippageExceeded
      else if s = ''SLIPPAGE_AMOUNT_OUT'' then Inr SlippageAmountOut
      else if s = ''SLIPPAGE_AMOUNT_IN'' then Inr SlippageAmountIn
      else if s = ''SLIPPAGE_PRICE_IMPACT'' then Inr SlippagePriceImpact
      else if s = ''DEADLINE_EXPIRED'' then Inr DeadlineExpired
      else if s = ''UNAUTHORIZED'' then Inr Unauthorized
      else if s = ''TRANSFER_FAILED'' then Inr TransferFailed
      else if s = ''UNKNOWN'' then Inr Unknown
      else Inl ())"

fun as_wire :: "error_category \<Rightarrow> string" where
  "as_wire InsufficientBalance = ''INSUFFICIENT_BALANCE''"
| "as_wire InsufficientAllowance = ''INSUFFICIENT_ALLOWANCE''"
| "as_wire SlippageExceeded = ''SLIPPAGE_EXCEEDED''"
| "as_wire SlippageAmountOut = ''SLIPPAGE_AMOUNT_OUT''"
| "as_wire SlippageAmountIn = ''SLIPPAGE_AMOUNT_IN''"
| "as_wire SlippagePriceImpact = ''SLIPPAGE_PRICE_IMPACT''"
| "as_wire DeadlineExpired = ''DEADLINE_EXPIRED''"
| "as_wire Unauthorized = ''UNAUTHORIZED''"
| "as_wire TransferFailed = ''TRANSFER_FAILED''"
| "as_wire Unknown = ''UNKNOWN''"

fun as_pg :: "time_bucket \<Rightarrow> string" where
  "as_pg Hour = ''hour''"
| "as_pg Day = ''day''"
| "as_pg Week = ''week''"

definition TimeBucket_from_str :: "string \<Rightarrow> unit + time_bucket" where
  "TimeBucket_from_str s =
     (if s = ''hour'' then Inr Hour
      else if s = ''day'' then Inr Day
      else if s = ''week'' then Inr Week
      else Inl ())"

text \<open>The helpers of \<^verbatim>\<open>queries.rs\<close> that turn an enum into the text a statement casts.\<close>

fun liquidity_type_to_sql :: "liquidity_event_type \<Rightarrow> string" where
  "liquidity_type_to_sql Mint = ''MINT''"
| "liquidity_type_to_sql Burn = ''BURN''"

fun error_category_to_sql :: "error_category \<Rightarrow> string" where
  "error_category_to_sql InsufficientBalance = ''INSUFFICIENT_BALANCE''"
| "error_category_to_sql InsufficientAllowance = ''INSUFFICIENT_ALLOWANCE''"
| "error_category_to_sql SlippageExceeded = ''SLIPPAGE_EXCEEDED''"
| "error_category_to_sql SlippageAmountOut = ''SLIPPAGE_AMOUNT_OUT''"
| "error_category_to_sql SlippageAmountIn = ''SLIPPAGE_AMOUNT_IN''"
| "error_category_to_sql SlippagePriceImpact = ''SLIPPAGE_PRICE_IMPACT''"
| "error_category_to_sql DeadlineExpired = ''DEADLINE_EXPIRED''"
| "error_category_to_sql Unauthorized = ''UNAUTHORIZED''"
| "error_category_to_sql TransferFailed = ''TRANSFER_FAILED''"
| "error_category_to_sql Unknown = ''UNKNOWN''"

fun snapshot_interval_to_sql :: "snapshot_interval \<Rightarrow> string" where
  "snapshot_interval_to_sql OneMinute = ''1m''"
| "snapshot_interval_to_sql FiveMinutes = ''5m''"
| "snapshot_interval_to_sql FifteenMinutes = ''15m''"
| "snapshot_interval_to_sql OneHour = ''1h''"
| "snapshot_interval_to_sql FourHours = ''4h''"
| "snapshot_interval_to_sql OneDay = ''1d''"

section \<open>Rows\<close>

record block_row =
  b_block_number :: i64
  b_timestamp :: instant
  b_gas_used :: i64
  b_block_hash :: "string option"
  b_parent_hash :: "string option"

record token_row =
  k_token_address :: string
  k_symbol :: string
  k_name :: string
  k_decimals :: i16

record transaction_row =
  t_tx_hash :: string
  t_from_addr :: string
  t_to_addr :: "string option"
  t_block_number :: i64
  t_gas_used :: i64
  t_gas_price :: bigdecimal
  t_value :: bigdecimal
  t_status :: i16
  t_input_data :: "string option"

record pool_row =
  p_pool_address :: string
  p_pair_name :: string
  p_token0_address :: string
  p_token1_address :: string
  p_fee_tier :: i32
  p_created_at :: instant

record swap_event =
  s_pool_address :: string
  s_tx_hash :: string
  s_sender :: string
  s_recipient :: string
  s_amount0 :: bigdecimal
  s_amount1 :: bigdecimal
  s_amount_in :: bigdecimal
  s_amount_out :: bigdecimal
  s_sqrt_price_x96 :: bigdecimal
  s_liquidity :: bigdecimal
  s_tick :: i32
  s_log_index :: i32
  s_timestamp :: instant
  s_event_id :: i64

record liquidity_event =
  l_event_type :: liquidity_event_type
  l_pool_address :: string
  l_tx_hash :: string
  l_provider :: string
  l_token0_amount :: bigdecimal
  l_token1_amount :: bigdecimal
  l_tick_lower :: i32
  l_tick_upper :: i32
  l_liquidity :: bigdecimal
  l_log_index :: i32
  l_timestamp :: instant
  l_event_id :: i64

record token_transfer =
  x_tx_hash :: string
  x_token_address :: string
  x_from_addr :: string
  x_to_addr :: string
  x_amount :: bigdecimal
  x_log_index :: i32
  x_timestamp :: instant
  x_transfer_id :: i64

record failed_transaction =
  f_tx_hash :: string
  f_error_category :: error_category
  f_revert_reason :: "string option"
  f_failing_function :: "string option"
  f_gas_used :: i64
  f_timestamp :: instant

record trace_log =
  g_tx_hash :: string
  g_call_depth :: i32
  g_call_type :: string
  g_from_addr :: string
  g_to_addr :: "string option"
  g_value :: bigdecimal
  g_gas_used :: i64
  g_input :: "string option"
  g_output :: "string option"
  g_error :: "string option"
  g_trace_id :: i64

text \<open>Decimals with a fraction are rational numbers.\<close>

type_synonym decimal = rat

record price_snapshot =
  ps_pool_address :: string
  ps_price :: decimal
  ps_tick :: i32
  ps_liquidity :: bigdecimal
  ps_snapshot_ts :: instant
  ps_interval_type :: snapshot_interval
  ps_snapshot_id :: i64

record user_profile =
  up_user_address :: string
  up_label :: "string option"
  up_first_seen :: instant
  up_last_seen :: instant
  up_total_swaps :: i32
  up_total_volume_usd :: decimal

record alert_subscription =
  a_subscription_id :: i64
  a_error_category :: "error_category option"
  a_to_addr :: "string option"
  a_webhook_url :: string
  a_signing_secret :: string
  a_active :: bool
  a_created_at :: instant
  a_sub_type :: string
  a_threshold_count :: "i32 option"
  a_threshold_window_secs :: "i32 option"
  a_debounce_secs :: "i32 option"

record alert_match =
  m_subscription_id :: i64
  m_tx_hash :: string
  m_webhook_url :: string
  m_signing_secret :: string

record rate_alert_match =
  r_subscription_id :: i64
  r_webhook_url :: string
  r_signing_secret :: string
  r_match_count :: i64
  r_threshold_count :: i32
  r_threshold_window_secs :: i32

record contract_label =
  c_address :: string
  c_label :: string
  c_owner_id :: "string option"
  c_created_at :: instant

record alert_delivery =
  d_subscription_id :: i64
  d_tx_hash :: string
  d_status :: string
  d_attempts :: i32
  d_last_error :: "string option"
  d_delivered_at :: "instant option"
  d_created_at :: instant

record alert_rate_dispatch =
  rd_dispatch_id :: i64
  rd_subscription_id :: i64
  rd_dispatched_at :: instant
  rd_match_count :: i32
  rd_status :: string
  rd_last_error :: "string option"

record function_signature =
  fs_selector :: string
  fs_name :: string
  fs_signature :: string
  fs_source :: "string option"
  fs_created_at :: instant

record category_diagnosis =
  cd_error_category :: string
  cd_message :: string
  cd_recommended_action :: "string option"
  cd_source :: "string option"
  cd_created_at :: instant

record failed_tx_by_label_point =
  bl_label :: string
  bl_address :: string
  bl_total_failures :: i64
  bl_by_category :: "(string \<times> i64) list"

section \<open>Codecs\<close>

locale wire_codec =
  fixes enc :: "'a \<Rightarrow> string"
    and dec :: "string \<Rightarrow> unit + 'a"
  assumes dec_enc: "dec (enc x) = Inr x"
    and dec_inv: "dec s = Inr x \<Longrightarrow> s = enc x"
begin

lemma enc_inj: "enc x = enc y \<longleftrightarrow> x = y"
  by (metis dec_enc sum.inject(2))

lemma dec_Inr_iff: "dec s = Inr x \<longleftrightarrow> s = enc x"
  using dec_enc dec_inv by blast

lemma dec_Inl_iff: "dec s = Inl () \<longleftrightarrow> s \<notin> range enc"
proof -
  have "(\<exists>x. dec s = Inr x) \<longleftrightarrow> s \<in> range enc" using dec_Inr_iff by auto
  then show ?thesis by (cases "dec s") auto
qed

end

interpretation ec: wire_codec as_wire ErrorCategory_from_str
proof
  show "ErrorCategory_from_str (as_wire x) = Inr x" for x
    by (cases x) (simp_all add: ErrorCategory_from_str_def)
  show "ErrorCategory_from_str s = Inr x \<Longrightarrow> s = as_wire x" for s x
    by (auto simp: ErrorCategory_from_str_def split: if_splits)
qed

interpretation tb: wire_codec as_pg TimeBucket_from_str
proof
  show "TimeBucket_from_str (as_pg x) = Inr x" for x
    by (cases x) (simp_all add: TimeBucket_from_str_def)
  show "TimeBucket_from_str s = Inr x \<Longrightarrow> s = as_pg x" for s x
    by (auto simp: TimeBucket_from_str_def split: if_splits)
qed

lemma error_category_to_sql_as_wire [simp]: "error_category_to_sql c = as_wire c"
  by (cases c) simp_all

text \<open>The SCREAMING_SNAKE wire form is a faithful code for the error categories.  Parsing
  succeeds exactly on the ten wire strings and gives back the category they name, everything
  else is rejected, and the text a SQL statement casts to the enum is that same wire form.\<close>

lemma error_category_wire_codec:
  "(ErrorCategory_from_str s = Inr c \<longleftrightarrow> s = as_wire c)
   \<and> (ErrorCategory_from_str s = Inl () \<longleftrightarrow> (\<forall>d. s \<noteq> as_wire d))
   \<and> ErrorCategory_from_str (error_category_to_sql c) = Inr c"
  using ec.dec_Inr_iff ec.dec_Inl_iff [of s] ec.dec_enc by auto

end
