(* ===== verification/Classifier.thy ===== *)
theory Classifier
  imports Models
begin

text \<open>
  The revert-reason classifier (\<^verbatim>\<open>crates/decoder/src/classifier.rs\<close>): a chain of keyword
  tests over the lowercased reason, the more specific categories first.  The reference it is
  compared with is the rule table \<open>classifier_rules\<close>, searched in order.
\<close>

definition classify_error :: "string \<Rightarrow> string" where
  "classify_error revert_reason =
     (let lower = to_lowercase revert_reason in
      if contains lower ''allowance'' then ''INSUFFICIENT_ALLOWANCE''
      else if contains lower ''return amount is not enough'' \<or> contains lower ''min return''
      then ''SLIPPAGE_AMOUNT_OUT''
      else if contains lower ''stf'' \<or> contains lower ''insufficient'' \<or> contains lower ''balance''
        \<or> contains lower ''exceeds balance'' \<or> contains lower ''not enough''
      then ''INSUFFICIENT_BALANCE''
      else if contains lower ''too little received'' then ''SLIPPAGE_AMOUNT_OUT''
      else if contains lower ''too much requested'' then ''SLIPPAGE_AMOUNT_IN''
      else if contains lower ''price slipped'' \<or> contains lower ''amount out''
      then ''SLIPPAGE_PRICE_IMPACT''
      else if contains lower ''slippage'' then ''SLIPPAGE_EXCEEDED''
      else if contains lower ''deadline'' \<or> contains lower ''too old'' \<or> contains lower ''expired''
        \<or> contains lower ''transaction too old''
      then ''DEADLINE_EXPIRED''
      else if contains lower ''unauthorized'' \<or> contains lower ''ownable''
        \<or> contains lower ''not owner'' \<or> contains lower ''forbidden''
        \<or> contains lower ''access denied''
      then ''UNAUTHORIZED''
      else if contains lower ''transfer failed'' \<or> contains lower ''transfer_failed''
        \<or> contains lower ''transfer_from_failed'' \<or> contains lower ''transfer from failed''
        \<or> contains lower ''safe transfer'' \<or> contains lower ''safetransferfrom''
      then ''TRANSFER_FAILED''
      else ''UNKNOWN'')"

text \<open>The reference: an ordered table of categories with the keywords that select them.\<close>

definition classifier_rules :: "(error_category \<times> string list) list" where
  "classifier_rules =
     [(InsufficientAllowance, [''allowance'']),
      (SlippageAmountOut, [''return amount is not enough'', ''min return'']),
      (InsufficientBalance, [''stf'', ''insufficient'', ''balance'', ''not enough'']),
      (SlippageAmountOut, [''too little received'']),
      (SlippageAmountIn, [''too much requested'']),
      (SlippagePriceImpact, [''price slipped'', ''amount out'']),
      (SlippageExceeded, [''slippage'']),
      (DeadlineExpired, [''deadline'', ''too old'', ''expired'']),
      (Unauthorized, [''unauthorized'', ''ownable'', ''not owner'', ''forbidden'', ''access denied'']),
      (TransferFailed, [''transfer failed'', ''transfer_failed'', ''transfer_from_failed'',
         ''transfer from failed'', ''safe transfer'', ''safetransferfrom''])]"

fun first_rule :: "(error_category \<times> string list) list \<Rightarrow> string \<Rightarrow> error_category" where
  "first_rule [] s = Unknown"
| "first_rule ((c, ks) # rs) s = (if \<exists>k \<in> set ks. contains s k then c else first_rule rs s)"

lemma contains_trans: "contains s p \<Longrightarrow> contains p q \<Longrightarrow> contains s q"
  by (auto simp: contains_iff_sublist intro: sublist_order.order.trans)

lemma redundant_keywords:
  "contains s ''exceeds balance'' \<Longrightarrow> contains s ''balance''"
  "contains s ''transaction too old'' \<Longrightarrow> contains s ''too old''"
  by (erule contains_trans, code_simp)+

lemma classify_error_first_rule:
  "classify_error s = as_wire (first_rule classifier_rules (to_lowercase s))"
  using redundant_keywords [of "to_lowercase s"]
  by (auto simp: classify_error_def classifier_rules_def Let_def)

text \<open>The classifier is the ordered rule table.  Its answer is the wire form of the first
  rule one of whose keywords occurs in the lowercased reason (the keywords ``exceeds balance'' and
  ``transaction too old'' of the code add nothing), so it is always one of the ten wire strings
  that \<open>ErrorCategory_from_str\<close> accepts, and it does not depend on the case of the reason.\<close>

lemma classify_error_rule_table:
  "classify_error s = as_wire (first_rule classifier_rules (to_lowercase s))
   \<and> ErrorCategory_from_str (classify_error s) = Inr (first_rule classifier_rules (to_lowercase s))
   \<and> classify_error (to_lowercase s) = classify_error s"
  by (simp add: classify_error_first_rule ec.dec_enc)

text \<open>Rule priority.  A reason that mentions an allowance, in any case and surrounded by any
  text, is an allowance failure even when it also matches the balance rule; and the aggregator
  message ``return amount is not enough'' is slippage, not a balance failure, unless an allowance
  is mentioned.\<close>

lemma classify_error_priority:
  assumes "to_lowercase k = ''allowance''" and "to_lowercase r = ''return amount is not enough''"
  shows "classify_error (u @ k @ v) = ''INSUFFICIENT_ALLOWANCE''
    \<and> (contains (to_lowercase (u @ r @ v)) ''allowance''
         \<or> classify_error (u @ r @ v) = ''SLIPPAGE_AMOUNT_OUT'')"
  using contains_lower_mid [of u k v] contains_lower_mid [of u r v] assms
  by (auto simp: classify_error_def Let_def)

end
