(* ===== verification/Tables.thy ===== *)
theory Tables
  imports Models
begin

text \<open>
  The PostgreSQL tables the \<^verbatim>\<open>db\<close> crate writes (\<^verbatim>\<open>migrations/*.sql\<close>): the database state, the
  column and row constraints, and the generic keyed insert behind every
  \<^verbatim>\<open>INSERT ... ON CONFLICT DO NOTHING\<close>.  A table is the list of its rows in insertion order;
  identity columns are drawn from per-table counters.  A statement maps a database to an error or
  to its result and the new database; a failed statement changes nothing.
\<close>

section \<open>State\<close>

datatype db_error = Sqlx string | Migration string | NotFound string | Duplicate string

record db =
  blocks :: "block_row list"
  tokens :: "token_row list"
  transactions :: "transaction_row list"
  pools :: "pool_row list"
  swap_events :: "swap_event list"
  liquidity_events :: "liquidity_event list"
  token_transfers :: "token_transfer list"
  failed_transactions :: "failed_transaction list"
  trace_logs :: "trace_log list"
  checkpoints :: "(i32 \<times> i64) list"
  subscriptions :: "alert_subscription list"
  deliveries :: "alert_delivery list"
  rate_dispatches :: "alert_rate_dispatch list"
  contract_labels :: "contract_label list"
  function_signatures :: "function_signature list"
  category_diagnoses :: "category_diagnosis list"
  price_snapshots :: "price_snapshot list"
  user_profiles :: "user_profile list"
  seq_swap :: i64
  seq_liquidity :: i64
  seq_transfer :: i64
  seq_trace :: i64
  seq_subscription :: i64
  seq_rate :: i64
  seq_snapshot :: i64

text \<open>The database after the migrations, without the seeded labels and signatures.\<close>

definition empty_db :: db where
  "empty_db = \<lparr>blocks = [], tokens = [], transactions = [], pools = [], swap_events = [],
     liquidity_events = [], token_transfers = [], failed_transactions = [], trace_logs = [],
     checkpoints = [], subscriptions = [], deliveries = [], rate_dispatches = [],
     contract_labels = [], function_signatures = [], category_diagnoses = [],
     price_snapshots = [], user_profiles = [],
     seq_swap = 1, seq_liquidity = 1, seq_transfer = 1, seq_trace = 1, seq_subscription = 1, seq_rate = 1,
     seq_snapshot = 1\<rparr>"

type_synonym 'a stmt = "db \<Rightarrow> db_error + ('a \<times> db)"

definition stmt_return :: "'a \<Rightarrow> 'a stmt" where
  [stmt_defs]: "stmt_return x d = Inr (x, d)"

definition stmt_bind :: "'a stmt \<Rightarrow> ('a \<Rightarrow> 'b stmt) \<Rightarrow> 'b stmt" where
  [stmt_defs]: "stmt_bind s f d = (case s d of Inl e \<Rightarrow> Inl e | Inr (x, d') \<Rightarrow> f x d')"

text \<open>The connection can fail before a statement reaches the server, or after it was committed.\<close>

datatype fault = Works | Lost_before | Lost_after

definition with_fault :: "fault \<Rightarrow> 'a stmt \<Rightarrow> db \<Rightarrow> (db_error + 'a) \<times> db" where
  [stmt_defs]: "with_fault f s d =
     (case f of
        Lost_before \<Rightarrow> (Inl (Sqlx ''connection lost''), d)
      | Lost_after \<Rightarrow>
          (case s d of Inl e \<Rightarrow> (Inl e, d) | Inr (_, d') \<Rightarrow> (Inl (Sqlx ''connection lost''), d'))
      | Works \<Rightarrow> (case s d of Inl e \<Rightarrow> (Inl e, d) | Inr (x, d') \<Rightarrow> (Inr x, d')))"

section \<open>Column and row constraints\<close>

text \<open>\<^verbatim>\<open>TEXT\<close> holds no zero byte; \<^verbatim>\<open>VARCHAR(n)\<close> holds at most \<open>n\<close> characters (UTF-8 continuation
  bytes do not count); \<^verbatim>\<open>NUMERIC(p,0)\<close> holds integers of at most \<open>p\<close> digits.\<close>

definition text_ok :: "string \<Rightarrow> bool" where
  "text_ok s \<longleftrightarrow> CHR 0x00 \<notin> set s"

definition char_len :: "string \<Rightarrow> nat" where
  "char_len s = length (filter (\<lambda>c. \<not> (128 \<le> (of_char c :: nat) \<and> (of_char c :: nat) < 192)) s)"

definition varchar_ok :: "nat \<Rightarrow> string \<Rightarrow> bool" where
  "varchar_ok n s \<longleftrightarrow> text_ok s \<and> char_len s \<le> n"

definition numeric_ok :: "nat \<Rightarrow> bigdecimal \<Rightarrow> bool" where
  "numeric_ok p v \<longleftrightarrow> \<bar>v\<bar> < 10 ^ p"

text \<open>\<^verbatim>\<open>NUMERIC(p,s)\<close> rounds to \<open>s\<close> digits after the point, ties away from zero, and holds at most \<open>p\<close> digits.\<close>

definition pg_round :: "nat \<Rightarrow> decimal \<Rightarrow> decimal" where
  "pg_round s x = sgn x * of_int \<lfloor>\<bar>x\<bar> * 10 ^ s + 1 / 2\<rfloor> / 10 ^ s"

definition scaled_ok :: "nat \<Rightarrow> nat \<Rightarrow> decimal \<Rightarrow> bool" where
  "scaled_ok p s x \<longleftrightarrow> \<bar>pg_round s x\<bar> < 10 ^ (p - s)"

text \<open>The range of \<^verbatim>\<open>INT\<close>: a cast or an increment that leaves it is an error.\<close>

definition int4_ok :: "int \<Rightarrow> bool" where
  "int4_ok n \<longleftrightarrow> - (2 ^ 31) \<le> n \<and> n < 2 ^ 31"

definition opt_ok :: "('a \<Rightarrow> bool) \<Rightarrow> 'a option \<Rightarrow> bool" where
  "opt_ok P x \<longleftrightarrow> (case x of None \<Rightarrow> True | Some y \<Rightarrow> P y)"

definition address_format :: "string \<Rightarrow> bool" where
  "address_format s \<longleftrightarrow>
     length s = 42 \<and> take 2 s = ''0x''
     \<and> list_all (\<lambda>c. let n = (of_char c :: nat) in (48 \<le> n \<and> n \<le> 57) \<or> (97 \<le> n \<and> n \<le> 102) \<or> (65 \<le> n \<and> n \<le> 70)) (drop 2 s)"

definition block_check :: "block_row \<Rightarrow> bool" where
  [row_defs]: "block_check b \<longleftrightarrow> 0 \<le> b_gas_used b \<and> opt_ok text_ok (b_block_hash b) \<and> opt_ok text_ok (b_parent_hash b)"

definition token_check :: "token_row \<Rightarrow> bool" where
  [row_defs]: "token_check t \<longleftrightarrow> varchar_ok 42 (k_token_address t) \<and> varchar_ok 20 (k_symbol t)
     \<and> varchar_ok 100 (k_name t) \<and> 0 \<le> k_decimals t \<and> k_decimals t \<le> 18 \<and> address_format (k_token_address t)"

definition transaction_check :: "transaction_row \<Rightarrow> bool" where
  [row_defs]: "transaction_check t \<longleftrightarrow> varchar_ok 66 (t_tx_hash t) \<and> varchar_ok 42 (t_from_addr t)
     \<and> opt_ok (varchar_ok 42) (t_to_addr t) \<and> numeric_ok 30 (t_gas_price t) \<and> numeric_ok 38 (t_value t)
     \<and> (t_status t = 0 \<or> t_status t = 1) \<and> 0 \<le> t_gas_used t \<and> opt_ok text_ok (t_input_data t)"

definition pool_check :: "pool_row \<Rightarrow> bool" where
  [row_defs]: "pool_check p \<longleftrightarrow> varchar_ok 42 (p_pool_address p) \<and> varchar_ok 50 (p_pair_name p)
     \<and> varchar_ok 42 (p_token0_address p) \<and> varchar_ok 42 (p_token1_address p)
     \<and> p_fee_tier p \<in> {100, 500, 3000, 10000} \<and> address_format (p_pool_address p)"

definition swap_check :: "swap_event \<Rightarrow> bool" where
  [row_defs]: "swap_check s \<longleftrightarrow> varchar_ok 42 (s_pool_address s) \<and> varchar_ok 66 (s_tx_hash s)
     \<and> varchar_ok 42 (s_sender s) \<and> varchar_ok 42 (s_recipient s)
     \<and> numeric_ok 38 (s_amount0 s) \<and> numeric_ok 38 (s_amount1 s) \<and> numeric_ok 38 (s_amount_in s)
     \<and> numeric_ok 38 (s_amount_out s) \<and> numeric_ok 60 (s_sqrt_price_x96 s) \<and> numeric_ok 38 (s_liquidity s)"

definition liquidity_check :: "liquidity_event \<Rightarrow> bool" where
  [row_defs]: "liquidity_check l \<longleftrightarrow> varchar_ok 42 (l_pool_address l) \<and> varchar_ok 66 (l_tx_hash l)
     \<and> varchar_ok 42 (l_provider l) \<and> numeric_ok 38 (l_token0_amount l) \<and> numeric_ok 38 (l_token1_amount l)
     \<and> numeric_ok 38 (l_liquidity l) \<and> l_tick_lower l < l_tick_upper l"

definition transfer_check :: "token_transfer \<Rightarrow> bool" where
  [row_defs]: "transfer_check x \<longleftrightarrow> varchar_ok 66 (x_tx_hash x) \<and> varchar_ok 42 (x_token_address x)
     \<and> varchar_ok 42 (x_from_addr x) \<and> varchar_ok 42 (x_to_addr x) \<and> numeric_ok 38 (x_amount x) \<and> 0 \<le> x_amount x"

definition failed_check :: "failed_transaction \<Rightarrow> bool" where
  [row_defs]: "failed_check f \<longleftrightarrow> varchar_ok 66 (f_tx_hash f) \<and> opt_ok text_ok (f_revert_reason f)
     \<and> opt_ok (varchar_ok 100) (f_failing_function f) \<and> 0 \<le> f_gas_used f"

definition trace_check :: "trace_log \<Rightarrow> bool" where
  [row_defs]: "trace_check g \<longleftrightarrow> varchar_ok 66 (g_tx_hash g) \<and> 0 \<le> g_call_depth g \<and> varchar_ok 20 (g_call_type g)
     \<and> varchar_ok 42 (g_from_addr g) \<and> opt_ok (varchar_ok 42) (g_to_addr g) \<and> numeric_ok 38 (g_value g)
     \<and> opt_ok text_ok (g_input g) \<and> opt_ok text_ok (g_output g) \<and> opt_ok text_ok (g_error g)"

definition snapshot_check :: "price_snapshot \<Rightarrow> bool" where
  [row_defs]: "snapshot_check s \<longleftrightarrow> varchar_ok 42 (ps_pool_address s) \<and> scaled_ok 30 18 (ps_price s)
     \<and> numeric_ok 38 (ps_liquidity s)"

definition profile_check :: "user_profile \<Rightarrow> bool" where
  [row_defs]: "profile_check u \<longleftrightarrow> varchar_ok 42 (up_user_address u) \<and> opt_ok (varchar_ok 50) (up_label u)
     \<and> scaled_ok 20 2 (up_total_volume_usd u) \<and> 0 \<le> up_total_swaps u \<and> 0 \<le> pg_round 2 (up_total_volume_usd u)
     \<and> up_first_seen u \<le> up_last_seen u"

definition rate_fields_chk :: "alert_subscription \<Rightarrow> bool" where
  [row_defs]: "rate_fields_chk a \<longleftrightarrow>
     (a_sub_type a = ''per_event'' \<and> a_threshold_count a = None \<and> a_threshold_window_secs a = None
        \<and> a_debounce_secs a = None)
     \<or> (a_sub_type a = ''rate_threshold''
        \<and> (\<exists>c w b. a_threshold_count a = Some c \<and> 0 < c \<and> a_threshold_window_secs a = Some w \<and> 0 < w
             \<and> a_debounce_secs a = Some b \<and> 0 \<le> b))"

lemma rate_fields_chk_code [code]:
  "rate_fields_chk a \<longleftrightarrow>
     (a_sub_type a = ''per_event'' \<and> Option.is_none (a_threshold_count a)
        \<and> Option.is_none (a_threshold_window_secs a) \<and> Option.is_none (a_debounce_secs a))
     \<or> (a_sub_type a = ''rate_threshold''
        \<and> (case (a_threshold_count a, a_threshold_window_secs a, a_debounce_secs a) of
             (Some c, Some w, Some b) \<Rightarrow> 0 < c \<and> 0 < w \<and> 0 \<le> b | _ \<Rightarrow> False))"
  by (auto simp: rate_fields_chk_def Option.is_none_def split: option.splits)

section \<open>Keyed inserts\<close>

text \<open>\<^verbatim>\<open>ON CONFLICT (key) DO NOTHING\<close>: a proposed row is skipped when its key is in the table or
  was inserted earlier by the same statement.\<close>

fun insert_new :: "('r \<Rightarrow> 'k) \<Rightarrow> 'r list \<Rightarrow> 'r list \<Rightarrow> 'r list" where
  "insert_new key tbl [] = tbl"
| "insert_new key tbl (r # rs) =
     insert_new key (if key r \<in> set (map key tbl) then tbl else tbl @ [r]) rs"

text \<open>Column and row checks apply to every proposed row, foreign keys to the inserted ones.\<close>

definition insert_rows ::
    "('r \<Rightarrow> 'k) \<Rightarrow> ('r \<Rightarrow> bool) \<Rightarrow> ('r \<Rightarrow> bool) \<Rightarrow> 'r list \<Rightarrow> 'r list \<Rightarrow> db_error + 'r list" where
  "insert_rows key check fk tbl rows =
     (if \<not> list_all check rows then Inl (Sqlx ''check constraint'')
      else let tbl' = insert_new key tbl rows in
           if \<not> list_all fk (drop (length tbl) tbl') then Inl (Sqlx ''foreign key'')
           else Inr tbl')"

text \<open>Identity values are drawn for every proposed row, also for those a conflict skips.\<close>

definition number_rows :: "(i64 \<Rightarrow> 'r \<Rightarrow> 'r) \<Rightarrow> i64 \<Rightarrow> 'r list \<Rightarrow> 'r list" where
  "number_rows put start rows = map (\<lambda>(i, r). put (start + int i) r) (enumerate 0 rows)"

lemma insert_new_append: "\<exists>ys. insert_new key tbl rs = tbl @ ys \<and> set ys \<subseteq> set rs"
proof (induction rs arbitrary: tbl)
  case (Cons r rs)
  show ?case
  proof (cases "key r \<in> set (map key tbl)")
    case True
    with Cons [of tbl] show ?thesis by auto
  next
    case False
    obtain ys where "insert_new key (tbl @ [r]) rs = (tbl @ [r]) @ ys" "set ys \<subseteq> set rs"
      using Cons by blast
    with False show ?thesis by (intro exI [of _ "r # ys"]) auto
  qed
qed simp

lemma set_insert_new: "set (insert_new key tbl rs) \<subseteq> set tbl \<union> set rs"
  using insert_new_append [of key tbl rs] by auto

lemma insert_new_mono: "set tbl \<subseteq> set (insert_new key tbl rs)"
  using insert_new_append [of key tbl rs] by auto

lemma insert_new_keys: "key ` set (insert_new key tbl rs) = key ` set tbl \<union> key ` set rs"
proof (induction rs arbitrary: tbl)
  case (Cons r rs)
  show ?case by (simp add: Cons.IH) blast
qed simp

lemma insert_new_distinct: "distinct (map key tbl) \<Longrightarrow> distinct (map key (insert_new key tbl rs))"
  by (induction rs arbitrary: tbl) auto

lemma insert_new_idem: "key ` set rs \<subseteq> key ` set tbl \<Longrightarrow> insert_new key tbl rs = tbl"
  by (induction rs) auto

lemma drop_insert_new: "set (drop (length tbl) (insert_new key tbl rs)) \<subseteq> set rs"
  using insert_new_append [of key tbl rs] by auto

lemma insert_new_fresh:
  "r \<in> set (drop (length tbl) (insert_new key tbl rs)) \<Longrightarrow> key r \<notin> key ` set tbl"
proof (induction rs arbitrary: tbl)
  case (Cons x rs)
  show ?case
  proof (cases "key x \<in> set (map key tbl)")
    case False
    obtain ys where ys: "insert_new key (tbl @ [x]) rs = (tbl @ [x]) @ ys"
      using insert_new_append [of key "tbl @ [x]" rs] by (elim exE conjE)
    with False Cons.prems have "r = x \<or> r \<in> set ys" by simp
    with Cons.IH [of "tbl @ [x]"] ys False show ?thesis by auto
  qed (use Cons in simp)
qed simp

lemma length_number_rows [simp]: "length (number_rows put n rows) = length rows"
  by (simp add: number_rows_def)

lemma number_rows_Nil [simp]: "number_rows put n [] = []"
  by (simp add: number_rows_def)

lemma map_number_rows:
  assumes "\<And>i r. f (put i r) = f r"
  shows "map f (number_rows put n rows) = map f rows"
  by (rule nth_equalityI) (simp_all add: number_rows_def nth_enumerate_eq assms)

lemma number_rows_image:
  assumes "\<And>i r. f (put i r) = f r"
  shows "f ` set (number_rows put n rows) = f ` set rows"
  using map_number_rows [of f put, OF assms] by (metis list.set_map)

lemma number_rows_all:
  assumes "\<And>i r. P (put i r) = P r"
  shows "list_all P (number_rows put n rows) = list_all P rows"
  using number_rows_image [of P put, OF assms, of n rows] by (force simp: list_all_iff)

end
