(* ===== verification/Inserts.thy ===== *)
theory Inserts
  imports Tables
begin

text \<open>
  The batch inserts of \<^verbatim>\<open>crates/db/src/queries.rs\<close>.  The locale \<open>conflict_table\<close> states what a
  caller relies on when it inserts with \<^verbatim>\<open>ON CONFLICT DO NOTHING\<close>; it is interpreted on every
  such insert of the crate.  The database invariant \<open>db_ok\<close> collects the unique and foreign keys,
  and every insert keeps it.
\<close>

section \<open>Statements\<close>

definition tx_known :: "db \<Rightarrow> string \<Rightarrow> bool" where
  "tx_known d h \<longleftrightarrow> h \<in> set (map t_tx_hash (transactions d))"

definition block_known :: "db \<Rightarrow> i64 \<Rightarrow> bool" where
  "block_known d n \<longleftrightarrow> n \<in> set (map b_block_number (blocks d))"

definition token_known :: "db \<Rightarrow> string \<Rightarrow> bool" where
  "token_known d a \<longleftrightarrow> a \<in> set (map k_token_address (tokens d))"

definition insert_blocks :: "block_row list \<Rightarrow> nat stmt" where
  [stmt_defs]: "insert_blocks rows d =
     (if rows = [] then Inr (0, d)
      else case insert_rows b_block_number block_check (\<lambda>_. True) (blocks d) rows of
             Inl e \<Rightarrow> Inl e
           | Inr t \<Rightarrow> Inr (length t - length (blocks d), d\<lparr>blocks := t\<rparr>))"

definition insert_transactions :: "transaction_row list \<Rightarrow> nat stmt" where
  [stmt_defs]: "insert_transactions rows d =
     (if rows = [] then Inr (0, d)
      else case insert_rows t_tx_hash transaction_check (\<lambda>t. block_known d (t_block_number t)) (transactions d) rows of
             Inl e \<Rightarrow> Inl e
           | Inr t \<Rightarrow> Inr (length t - length (transactions d), d\<lparr>transactions := t\<rparr>))"

definition insert_tokens :: "token_row list \<Rightarrow> nat stmt" where
  [stmt_defs]: "insert_tokens rows d =
     (if rows = [] then Inr (0, d)
      else case insert_rows k_token_address token_check (\<lambda>_. True) (tokens d) rows of
             Inl e \<Rightarrow> Inl e
           | Inr t \<Rightarrow> Inr (length t - length (tokens d), d\<lparr>tokens := t\<rparr>))"

definition insert_pools :: "pool_row list \<Rightarrow> nat stmt" where
  [stmt_defs]: "insert_pools rows d =
     (if rows = [] then Inr (0, d)
      else case insert_rows p_pool_address pool_check
                  (\<lambda>p. token_known d (p_token0_address p) \<and> token_known d (p_token1_address p)) (pools d) rows of
             Inl e \<Rightarrow> Inl e
           | Inr t \<Rightarrow> Inr (length t - length (pools d), d\<lparr>pools := t\<rparr>))"

definition swap_key :: "swap_event \<Rightarrow> string \<times> i32" where
  "swap_key s = (s_tx_hash s, s_log_index s)"

definition liquidity_key :: "liquidity_event \<Rightarrow> string \<times> i32" where
  "liquidity_key l = (l_tx_hash l, l_log_index l)"

definition transfer_key :: "token_transfer \<Rightarrow> string \<times> i32" where
  "transfer_key x = (x_tx_hash x, x_log_index x)"

definition insert_swap_events :: "swap_event list \<Rightarrow> nat stmt" where
  [stmt_defs]: "insert_swap_events rows d =
     (if rows = [] then Inr (0, d)
      else case insert_rows swap_key swap_check (\<lambda>s. tx_known d (s_tx_hash s)) (swap_events d)
                  (number_rows (\<lambda>i s. s\<lparr>s_event_id := i\<rparr>) (seq_swap d) rows) of
             Inl e \<Rightarrow> Inl e
           | Inr t \<Rightarrow> Inr (length t - length (swap_events d),
                        d\<lparr>swap_events := t, seq_swap := seq_swap d + int (length rows)\<rparr>))"

definition insert_liquidity_events :: "liquidity_event list \<Rightarrow> nat stmt" where
  [stmt_defs]: "insert_liquidity_events rows d =
     (if rows = [] then Inr (0, d)
      else case insert_rows liquidity_key liquidity_check (\<lambda>l. tx_known d (l_tx_hash l)) (liquidity_events d)
                  (number_rows (\<lambda>i l. l\<lparr>l_event_id := i\<rparr>) (seq_liquidity d) rows) of
             Inl e \<Rightarrow> Inl e
           | Inr t \<Rightarrow> Inr (length t - length (liquidity_events d),
                        d\<lparr>liquidity_events := t, seq_liquidity := seq_liquidity d + int (length rows)\<rparr>))"

definition insert_token_transfers :: "token_transfer list \<Rightarrow> nat stmt" where
  [stmt_defs]: "insert_token_transfers rows d =
     (if rows = [] then Inr (0, d)
      else case insert_rows transfer_key transfer_check (\<lambda>x. tx_known d (x_tx_hash x)) (token_transfers d)
                  (number_rows (\<lambda>i x. x\<lparr>x_transfer_id := i\<rparr>) (seq_transfer d) rows) of
             Inl e \<Rightarrow> Inl e
           | Inr t \<Rightarrow> Inr (length t - length (token_transfers d),
                        d\<lparr>token_transfers := t, seq_transfer := seq_transfer d + int (length rows)\<rparr>))"

definition insert_failed_transactions :: "failed_transaction list \<Rightarrow> nat stmt" where
  [stmt_defs]: "insert_failed_transactions rows d =
     (if rows = [] then Inr (0, d)
      else case insert_rows f_tx_hash failed_check (\<lambda>f. tx_known d (f_tx_hash f)) (failed_transactions d) rows of
             Inl e \<Rightarrow> Inl e
           | Inr t \<Rightarrow> Inr (length t - length (failed_transactions d), d\<lparr>failed_transactions := t\<rparr>))"

text \<open>Trace rows have no conflict clause: every row is appended.\<close>

definition insert_trace_logs :: "trace_log list \<Rightarrow> nat stmt" where
  [stmt_defs]: "insert_trace_logs rows d =
     (if rows = [] then Inr (0, d)
      else if \<not> list_all trace_check rows then Inl (Sqlx ''check constraint'')
      else if \<not> list_all (\<lambda>g. tx_known d (g_tx_hash g)) rows then Inl (Sqlx ''foreign key'')
      else Inr (length rows,
             d\<lparr>trace_logs := trace_logs d @ number_rows (\<lambda>i g. g\<lparr>g_trace_id := i\<rparr>) (seq_trace d) rows,
               seq_trace := seq_trace d + int (length rows)\<rparr>))"

definition snapshot_key :: "price_snapshot \<Rightarrow> string \<times> instant \<times> snapshot_interval" where
  "snapshot_key s = (ps_pool_address s, ps_snapshot_ts s, ps_interval_type s)"

definition pool_known :: "db \<Rightarrow> string \<Rightarrow> bool" where
  "pool_known d a \<longleftrightarrow> a \<in> set (map p_pool_address (pools d))"

definition insert_price_snapshots :: "price_snapshot list \<Rightarrow> nat stmt" where
  [stmt_defs]: "insert_price_snapshots rows d =
     (if rows = [] then Inr (0, d)
      else case insert_rows snapshot_key snapshot_check (\<lambda>s. pool_known d (ps_pool_address s)) (price_snapshots d)
                  (number_rows (\<lambda>i s. s\<lparr>ps_snapshot_id := i, ps_price := pg_round 18 (ps_price s)\<rparr>) (seq_snapshot d) rows) of
             Inl e \<Rightarrow> Inl e
           | Inr t \<Rightarrow> Inr (length t - length (price_snapshots d),
                        d\<lparr>price_snapshots := t, seq_snapshot := seq_snapshot d + int (length rows)\<rparr>))"

text \<open>\<^verbatim>\<open>ON CONFLICT (user_address) DO UPDATE\<close>: the totals are added, the last activity is replaced, the label and
  the first activity stay.  A statement must not meet the same profile twice.\<close>

definition merge_profile :: "user_profile \<Rightarrow> user_profile \<Rightarrow> user_profile" where
  "merge_profile u x = u\<lparr>up_last_seen := up_last_seen x, up_total_swaps := up_total_swaps u + up_total_swaps x,
     up_total_volume_usd := up_total_volume_usd u + up_total_volume_usd x\<rparr>"

fun upsert_profile :: "user_profile list \<Rightarrow> user_profile \<Rightarrow> db_error + user_profile list" where
  "upsert_profile [] x = Inr [x]"
| "upsert_profile (u # us) x =
     (if up_user_address u = up_user_address x then
        let v = merge_profile u x in
        if \<not> int4_ok (up_total_swaps v) then Inl (Sqlx ''integer out of range'')
        else if \<not> profile_check v then Inl (Sqlx ''check constraint'')
        else Inr (v # us)
      else case upsert_profile us x of Inl e \<Rightarrow> Inl e | Inr us' \<Rightarrow> Inr (u # us'))"

fun upsert_profiles :: "user_profile list \<Rightarrow> user_profile list \<Rightarrow> db_error + user_profile list" where
  "upsert_profiles us [] = Inr us"
| "upsert_profiles us (x # xs) =
     (if \<not> profile_check x then Inl (Sqlx ''check constraint'')
      else if up_user_address x \<in> set (map up_user_address xs) then Inl (Sqlx ''cannot affect row a second time'')
      else case upsert_profile us (x\<lparr>up_total_volume_usd := pg_round 2 (up_total_volume_usd x)\<rparr>) of
             Inl e \<Rightarrow> Inl e
           | Inr us' \<Rightarrow> upsert_profiles us' xs)"

definition upsert_user_profiles :: "user_profile list \<Rightarrow> nat stmt" where
  [stmt_defs]: "upsert_user_profiles rows d =
     (if rows = [] then Inr (0, d)
      else case upsert_profiles (user_profiles d) rows of
             Inl e \<Rightarrow> Inl e
           | Inr t \<Rightarrow> Inr (length rows, d\<lparr>user_profiles := t\<rparr>))"

section \<open>The contract of a keyed insert\<close>

locale conflict_table =
  fixes tbl :: "db \<Rightarrow> 'r list"
    and key :: "'r \<Rightarrow> 'k"
    and check :: "'r \<Rightarrow> bool"
    and fk :: "db \<Rightarrow> 'r \<Rightarrow> bool"
    and ins :: "'r list \<Rightarrow> nat stmt"
  assumes ins_Inr: "ins rs d = Inr (n, d') \<Longrightarrow>
        \<exists>rs'. map key rs' = map key rs \<and> tbl d' = insert_new key (tbl d) rs'
            \<and> n = length (tbl d') - length (tbl d)"
    and ins_check: "ins rs d = Inr (n, d') \<Longrightarrow> list_all check rs"
    and ins_total: "list_all check rs \<Longrightarrow> (\<And>r. r \<in> set rs \<Longrightarrow> key r \<in> key ` set (tbl d) \<or> fk d r)
        \<Longrightarrow> \<exists>n d'. ins rs d = Inr (n, d')"
begin

lemma keys_after: "ins rs d = Inr (n, d') \<Longrightarrow> key ` set (tbl d') = key ` set (tbl d) \<union> key ` set rs"
proof -
  assume "ins rs d = Inr (n, d')"
  then obtain rs' where "map key rs' = map key rs" "tbl d' = insert_new key (tbl d) rs'"
    using ins_Inr by blast
  then show ?thesis using insert_new_keys [of key "tbl d" rs'] by (metis list.set_map)
qed

lemma rows_kept: "ins rs d = Inr (n, d') \<Longrightarrow> \<exists>ys. tbl d' = tbl d @ ys \<and> n = length ys"
proof -
  assume "ins rs d = Inr (n, d')"
  then obtain rs' where r: "tbl d' = insert_new key (tbl d) rs'" "n = length (tbl d') - length (tbl d)"
    using ins_Inr by blast
  obtain ys where "insert_new key (tbl d) rs' = tbl d @ ys"
    using insert_new_append [of key "tbl d" rs'] by (elim exE conjE)
  with r show ?thesis by simp
qed

lemma unique_kept: "ins rs d = Inr (n, d') \<Longrightarrow> distinct (map key (tbl d)) \<Longrightarrow> distinct (map key (tbl d'))"
  using ins_Inr insert_new_distinct by metis

lemma reinsert: "ins rs d = Inr (n, d') \<Longrightarrow> key ` set rs \<subseteq> key ` set (tbl d) \<Longrightarrow> n = 0 \<and> tbl d' = tbl d"
proof -
  assume i: "ins rs d = Inr (n, d')" and k: "key ` set rs \<subseteq> key ` set (tbl d)"
  then obtain rs' where r: "map key rs' = map key rs" "tbl d' = insert_new key (tbl d) rs'"
    "n = length (tbl d') - length (tbl d)"
    using ins_Inr by blast
  then have "key ` set rs' \<subseteq> key ` set (tbl d)" using k by (metis list.set_map)
  then have "insert_new key (tbl d) rs' = tbl d" by (rule insert_new_idem)
  with r show ?thesis by simp
qed

lemma idempotent:
  assumes "ins rs d = Inr (n, d')" "key ` set (tbl d') \<subseteq> key ` set (tbl e)"
  shows "\<exists>e'. ins rs e = Inr (0, e') \<and> tbl e' = tbl e"
proof -
  have k: "key ` set rs \<subseteq> key ` set (tbl e)" using keys_after [OF assms(1)] assms(2) by blast
  then obtain m e' where e': "ins rs e = Inr (m, e')"
    using ins_total [OF ins_check [OF assms(1)], of e] by blast
  with reinsert [OF e' k] show ?thesis by auto
qed

end

lemma insert_rows_cases:
  assumes "insert_rows key check fk tbl rows = Inr t"
  shows "t = insert_new key tbl rows" "list_all check rows" "list_all fk (drop (length tbl) t)"
  using assms by (auto simp: insert_rows_def Let_def split: if_splits)

lemma insert_rows_total:
  assumes "list_all check rows" "\<And>r. r \<in> set rows \<Longrightarrow> key r \<in> key ` set tbl \<or> fk r"
  shows "insert_rows key check fk tbl rows = Inr (insert_new key tbl rows)"
proof -
  have "fk r" if "r \<in> set (drop (length tbl) (insert_new key tbl rows))" for r
    using that assms(2) insert_new_fresh [of r tbl key rows] drop_insert_new [of tbl key rows] by blast
  with assms(1) show ?thesis by (auto simp: insert_rows_def Let_def list_all_iff)
qed

lemma insert_rows_empty: "insert_rows key check fk tbl [] = Inr tbl"
  by (simp add: insert_rows_def)


text \<open>The two shapes of an insert statement meet the contract: without an identity column, and
  with one.\<close>

lemma conflict_table_plain:
  assumes "\<And>rs d. ins rs d = (if rs = [] then Inr (0, d)
      else case insert_rows key check (fk d) (tbl d) rs of
             Inl e \<Rightarrow> Inl e
           | Inr t \<Rightarrow> Inr (length t - length (tbl d), put t d))"
    and "\<And>t d. tbl (put t d) = t"
  shows "conflict_table tbl key check fk ins"
proof
  fix rs n and d d' :: db
  assume i: "ins rs d = Inr (n, d')"
  then show "\<exists>rs'. map key rs' = map key rs \<and> tbl d' = insert_new key (tbl d) rs'
      \<and> n = length (tbl d') - length (tbl d)"
    using assms insert_rows_cases(1) [of key check "fk d" "tbl d" rs]
    by (intro exI [of _ rs]) (auto split: if_splits sum.splits)
  from i show "list_all check rs"
    using assms insert_rows_cases(2) [of key check "fk d" "tbl d" rs]
    by (auto split: if_splits sum.splits)
next
  fix rs and d :: db
  assume "list_all check rs" "\<And>r. r \<in> set rs \<Longrightarrow> key r \<in> key ` set (tbl d) \<or> fk d r"
  then show "\<exists>n d'. ins rs d = Inr (n, d')"
    using insert_rows_total [of check rs key "tbl d" "fk d"] assms(1) by auto
qed

lemma conflict_table_numbered:
  assumes "\<And>rs d. ins rs d = (if rs = [] then Inr (0, d)
      else case insert_rows key check (fk d) (tbl d) (number_rows num (sq d) rs) of
             Inl e \<Rightarrow> Inl e
           | Inr t \<Rightarrow> Inr (length t - length (tbl d), put t (length rs) d))"
    and "\<And>t n d. tbl (put t n d) = t"
    and num: "\<And>i r. key (num i r) = key r" "\<And>i r. check (num i r) = check r" "\<And>i r d. fk d (num i r) = fk d r"
  shows "conflict_table tbl key check fk ins"
proof
  fix rs n and d d' :: db
  let ?rs = "number_rows num (sq d) rs"
  have keys: "map key ?rs = map key rs" using num(1) by (rule map_number_rows)
  have checks: "list_all check ?rs = list_all check rs" using num(2) by (rule number_rows_all)
  assume i: "ins rs d = Inr (n, d')"
  show "\<exists>rs'. map key rs' = map key rs \<and> tbl d' = insert_new key (tbl d) rs'
      \<and> n = length (tbl d') - length (tbl d)"
  proof (cases "rs = []")
    case False
    with i assms(1,2) keys insert_rows_cases(1) [of key check "fk d" "tbl d" ?rs] show ?thesis
      by (intro exI [of _ ?rs]) (auto split: sum.splits)
  qed (use i assms(1) in auto)
  show "list_all check rs"
  proof (cases "rs = []")
    case False
    with i assms(1) checks insert_rows_cases(2) [of key check "fk d" "tbl d" ?rs] show ?thesis
      by (auto split: sum.splits)
  qed simp
next
  fix rs and d :: db
  let ?rs = "number_rows num (sq d) rs"
  assume c: "list_all check rs" and f: "\<And>r. r \<in> set rs \<Longrightarrow> key r \<in> key ` set (tbl d) \<or> fk d r"
  have "list_all (\<lambda>r. key r \<in> key ` set (tbl d) \<or> fk d r) ?rs = list_all (\<lambda>r. key r \<in> key ` set (tbl d) \<or> fk d r) rs"
    by (rule number_rows_all) (simp add: num)
  moreover have "list_all check ?rs" using c num(2) by (simp add: number_rows_all [of check])
  ultimately have "insert_rows key check (fk d) (tbl d) ?rs = Inr (insert_new key (tbl d) ?rs)"
    using f by (intro insert_rows_total) (auto simp: list_all_iff)
  then show "\<exists>n d'. ins rs d = Inr (n, d')" using assms(1) by auto
qed

interpretation bt: conflict_table blocks b_block_number block_check "\<lambda>_ _. True" insert_blocks
  by (rule conflict_table_plain [where put = "\<lambda>t d. d\<lparr>blocks := t\<rparr>"])
    (simp_all add: insert_blocks_def)

interpretation tt: conflict_table transactions t_tx_hash transaction_check
  "\<lambda>d t. block_known d (t_block_number t)" insert_transactions
  by (rule conflict_table_plain [where put = "\<lambda>t d. d\<lparr>transactions := t\<rparr>"])
    (simp_all add: insert_transactions_def)

interpretation kt: conflict_table tokens k_token_address token_check "\<lambda>_ _. True" insert_tokens
  by (rule conflict_table_plain [where put = "\<lambda>t d. d\<lparr>tokens := t\<rparr>"])
    (simp_all add: insert_tokens_def)

interpretation pt: conflict_table pools p_pool_address pool_check
  "\<lambda>d p. token_known d (p_token0_address p) \<and> token_known d (p_token1_address p)" insert_pools
  by (rule conflict_table_plain [where put = "\<lambda>t d. d\<lparr>pools := t\<rparr>"])
    (simp_all add: insert_pools_def)

interpretation st: conflict_table swap_events swap_key swap_check
  "\<lambda>d s. tx_known d (s_tx_hash s)" insert_swap_events
  by (rule conflict_table_numbered [where put = "\<lambda>t n d. d\<lparr>swap_events := t, seq_swap := seq_swap d + int n\<rparr>"
        and num = "\<lambda>i s. s\<lparr>s_event_id := i\<rparr>" and sq = seq_swap])
    (simp_all add: insert_swap_events_def swap_key_def swap_check_def)

interpretation lt: conflict_table liquidity_events liquidity_key liquidity_check
  "\<lambda>d l. tx_known d (l_tx_hash l)" insert_liquidity_events
  by (rule conflict_table_numbered [where put = "\<lambda>t n d. d\<lparr>liquidity_events := t, seq_liquidity := seq_liquidity d + int n\<rparr>"
        and num = "\<lambda>i l. l\<lparr>l_event_id := i\<rparr>" and sq = seq_liquidity])
    (simp_all add: insert_liquidity_events_def liquidity_key_def liquidity_check_def)

interpretation xt: conflict_table token_transfers transfer_key transfer_check
  "\<lambda>d x. tx_known d (x_tx_hash x)" insert_token_transfers
  by (rule conflict_table_numbered [where put = "\<lambda>t n d. d\<lparr>token_transfers := t, seq_transfer := seq_transfer d + int n\<rparr>"
        and num = "\<lambda>i x. x\<lparr>x_transfer_id := i\<rparr>" and sq = seq_transfer])
    (simp_all add: insert_token_transfers_def transfer_key_def transfer_check_def)

interpretation ft: conflict_table failed_transactions f_tx_hash failed_check
  "\<lambda>d f. tx_known d (f_tx_hash f)" insert_failed_transactions
  by (rule conflict_table_plain [where put = "\<lambda>t d. d\<lparr>failed_transactions := t\<rparr>"])
    (simp_all add: insert_failed_transactions_def)

lemma pg_round_idem [simp]: "pg_round k (pg_round k x) = pg_round k x"
proof -
  let ?n = "\<lfloor>\<bar>x\<bar> * 10 ^ k + 1 / 2\<rfloor>"
  have n: "0 \<le> ?n" by simp
  have f: "\<lfloor>of_int m + 1 / 2 :: rat\<rfloor> = m" for m by (rule floor_unique) simp_all
  show ?thesis
  proof (cases "x = 0 \<or> ?n = 0")
    case False
    then have "0 < ?n" using n by linarith
    then have "0 < (of_int ?n :: rat)" by (simp only: of_int_0_less_iff)
    then have "sgn (of_int ?n :: rat) = 1" by (rule sgn_pos)
    then have "\<bar>pg_round k x\<bar> = of_int ?n / 10 ^ k" "sgn (pg_round k x) = sgn x"
      using n False by (auto simp: pg_round_def abs_mult sgn_mult abs_sgn_eq sgn_divide)
    then show ?thesis by (simp add: pg_round_def f)
  qed (auto simp: pg_round_def)
qed

interpretation nt: conflict_table price_snapshots snapshot_key snapshot_check
  "\<lambda>d s. pool_known d (ps_pool_address s)" insert_price_snapshots
  by (rule conflict_table_numbered [where put = "\<lambda>t n d. d\<lparr>price_snapshots := t, seq_snapshot := seq_snapshot d + int n\<rparr>"
        and num = "\<lambda>i s. s\<lparr>ps_snapshot_id := i, ps_price := pg_round 18 (ps_price s)\<rparr>" and sq = seq_snapshot])
    (simp_all add: insert_price_snapshots_def snapshot_key_def snapshot_check_def scaled_ok_def)

text \<open>A batch of profiles adds every row's totals to its profile.\<close>

definition profile_swaps :: "user_profile list \<Rightarrow> string \<Rightarrow> int" where
  "profile_swaps us a = (\<Sum>u\<leftarrow>filter (\<lambda>u. up_user_address u = a) us. up_total_swaps u)"

lemma upsert_profile_effect:
  assumes "upsert_profile us x = Inr us'"
  shows "map up_user_address us' = (if up_user_address x \<in> set (map up_user_address us) then map up_user_address us
           else map up_user_address us @ [up_user_address x])"
    and "profile_swaps us' a = profile_swaps us a + profile_swaps [x] a"
  using assms by (induction us arbitrary: us')
    (auto simp: profile_swaps_def merge_profile_def Let_def split: if_splits sum.splits)

lemma upsert_user_profiles_adds:
  assumes "upsert_user_profiles rows d = Inr (n, d')" "distinct (map up_user_address (user_profiles d))"
  shows "distinct (map up_user_address (user_profiles d')) \<and> n = length rows
     \<and> profile_swaps (user_profiles d') a = profile_swaps (user_profiles d) a + profile_swaps rows a"
proof -
  have "distinct (map up_user_address us') \<and> profile_swaps us' a = profile_swaps us a + profile_swaps rows a"
    if "upsert_profiles us rows = Inr us'" "distinct (map up_user_address us)" for us us'
    using that
  proof (induction rows arbitrary: us)
    case (Cons x rows)
    let ?x = "x\<lparr>up_total_volume_usd := pg_round 2 (up_total_volume_usd x)\<rparr>"
    from Cons.prems obtain us1 where u: "upsert_profile us ?x = Inr us1" "upsert_profiles us1 rows = Inr us'"
      by (auto split: if_splits sum.splits)
    with upsert_profile_effect [OF u(1)] Cons.prems(2) have "distinct (map up_user_address us1)" by auto
    with Cons.IH [OF u(2)] upsert_profile_effect(2) [OF u(1), of a] show ?case by (simp add: profile_swaps_def)
  qed (simp add: profile_swaps_def)
  with assms show ?thesis by (auto simp: upsert_user_profiles_def profile_swaps_def split: if_splits sum.splits)
qed

end
