(* ===== verification/Rollback.thy ===== *)
theory Rollback
  imports Inserts "HOL-Library.List_Lexorder" "HOL-Library.Char_ord"
begin

text \<open>
  The indexing tables as a whole (\<^verbatim>\<open>crates/db/src/queries.rs\<close>): the invariant \<open>index_ok\<close> (unique
  and foreign keys), the checkpoint, the block reads, and \<^verbatim>\<open>rollback_from_block\<close>, one database
  transaction of eight statements whose order the foreign keys force.
\<close>

section \<open>The invariant of the indexing tables\<close>

definition keys_ok :: "db \<Rightarrow> bool" where
  "keys_ok d \<longleftrightarrow>
     distinct (map b_block_number (blocks d)) \<and> distinct (map t_tx_hash (transactions d))
     \<and> distinct (map swap_key (swap_events d)) \<and> distinct (map liquidity_key (liquidity_events d))
     \<and> distinct (map transfer_key (token_transfers d)) \<and> distinct (map f_tx_hash (failed_transactions d))
     \<and> distinct (map fst (checkpoints d))"

definition refs_ok :: "db \<Rightarrow> bool" where
  "refs_ok d \<longleftrightarrow>
     list_all (\<lambda>t. block_known d (t_block_number t)) (transactions d)
     \<and> list_all (\<lambda>s. tx_known d (s_tx_hash s)) (swap_events d)
     \<and> list_all (\<lambda>l. tx_known d (l_tx_hash l)) (liquidity_events d)
     \<and> list_all (\<lambda>x. tx_known d (x_tx_hash x)) (token_transfers d)
     \<and> list_all (\<lambda>f. tx_known d (f_tx_hash f)) (failed_transactions d)
     \<and> list_all (\<lambda>g. tx_known d (g_tx_hash g)) (trace_logs d)"

definition index_ok :: "db \<Rightarrow> bool" where
  "index_ok d \<longleftrightarrow> keys_ok d \<and> refs_ok d"

lemmas index_ok_defs = index_ok_def keys_ok_def refs_ok_def

lemma insert_rows_all:
  assumes "insert_rows key check fk tbl rows = Inr t" "list_all P tbl" "\<And>r. fk r \<Longrightarrow> P r"
  shows "list_all P t"
proof -
  obtain ys where "t = tbl @ ys"
    using insert_new_append [of key tbl rows] insert_rows_cases(1) [OF assms(1)] by auto
  with insert_rows_cases(3) [OF assms(1)] assms(2,3) show ?thesis by (auto simp: list_all_iff)
qed

lemma insert_rows_mono:
  assumes "insert_rows key check fk tbl rows = Inr t"
  shows "set tbl \<subseteq> set t"
  using insert_new_mono insert_rows_cases(1) [OF assms] by metis

text \<open>What a successful insert did: nothing, or it replaced one table by the grown one.\<close>

lemma insert_dest:
  assumes "(if rs = [] then Inr (0, d)
            else case insert_rows key check fk tbl rows of Inl e \<Rightarrow> Inl e | Inr t \<Rightarrow> Inr (m t, put t)) = Inr (n, d')"
  obtains "d' = d" | t where "insert_rows key check fk tbl rows = Inr t" "d' = put t"
  using assms by (auto split: if_splits sum.splits)

lemma insert_rows_distinct:
  "insert_rows key check fk tbl rows = Inr t \<Longrightarrow> distinct (map key tbl) \<Longrightarrow> distinct (map key t)"
  using insert_rows_cases(1) insert_new_distinct by metis

lemma known_simps [simp]:
  "tx_known (d\<lparr>blocks := a\<rparr>) = tx_known d"
  "tx_known (d\<lparr>swap_events := b\<rparr>) = tx_known d"
  "tx_known (d\<lparr>liquidity_events := c\<rparr>) = tx_known d"
  "tx_known (d\<lparr>token_transfers := e\<rparr>) = tx_known d"
  "tx_known (d\<lparr>failed_transactions := f\<rparr>) = tx_known d"
  "tx_known (d\<lparr>trace_logs := g\<rparr>) = tx_known d"
  "tx_known (d\<lparr>checkpoints := h\<rparr>) = tx_known d"
  "tx_known (d\<lparr>seq_swap := i\<rparr>) = tx_known d"
  "tx_known (d\<lparr>seq_liquidity := i\<rparr>) = tx_known d"
  "tx_known (d\<lparr>seq_transfer := i\<rparr>) = tx_known d"
  "tx_known (d\<lparr>seq_trace := i\<rparr>) = tx_known d"
  "block_known (d\<lparr>transactions := j\<rparr>) = block_known d"
  "block_known (d\<lparr>swap_events := b\<rparr>) = block_known d"
  "block_known (d\<lparr>liquidity_events := c\<rparr>) = block_known d"
  "block_known (d\<lparr>token_transfers := e\<rparr>) = block_known d"
  "block_known (d\<lparr>failed_transactions := f\<rparr>) = block_known d"
  "block_known (d\<lparr>trace_logs := g\<rparr>) = block_known d"
  "block_known (d\<lparr>checkpoints := h\<rparr>) = block_known d"
  "block_known (d\<lparr>seq_swap := i\<rparr>) = block_known d"
  "block_known (d\<lparr>seq_liquidity := i\<rparr>) = block_known d"
  "block_known (d\<lparr>seq_transfer := i\<rparr>) = block_known d"
  "block_known (d\<lparr>seq_trace := i\<rparr>) = block_known d"
  by (simp_all add: fun_eq_iff tx_known_def block_known_def)

named_theorems stmt_ok \<open>statements that keep the indexing invariant\<close>

lemma insert_blocks_ok [stmt_ok]:
  assumes "insert_blocks rs d = Inr (n, d')" "index_ok d"
  shows "index_ok d'"
  using assms(1) unfolding insert_blocks_def
proof (cases rule: insert_dest)
  case (2 t)
  have "block_known d k \<Longrightarrow> block_known (d\<lparr>blocks := t\<rparr>) k" for k
    using insert_rows_mono [OF 2(1)] by (auto simp: block_known_def)
  with assms(2) insert_rows_distinct [OF 2(1)] 2(2) show ?thesis
    by (auto simp: index_ok_defs list_all_iff)
qed (use assms in simp)

lemma insert_transactions_ok [stmt_ok]:
  assumes "insert_transactions rs d = Inr (n, d')" "index_ok d"
  shows "index_ok d'"
  using assms(1) unfolding insert_transactions_def
proof (cases rule: insert_dest)
  case (2 t)
  have "tx_known d k \<Longrightarrow> tx_known (d\<lparr>transactions := t\<rparr>) k" for k
    using insert_rows_mono [OF 2(1)] by (auto simp: tx_known_def)
  moreover have "list_all (\<lambda>t. block_known d (t_block_number t)) t"
    using assms(2) by (intro insert_rows_all [OF 2(1)]) (auto simp: index_ok_defs)
  ultimately show ?thesis using assms(2) insert_rows_distinct [OF 2(1)] 2(2)
    by (auto simp: index_ok_defs list_all_iff)
qed (use assms in simp)

lemma insert_swap_events_ok [stmt_ok]:
  assumes "insert_swap_events rs d = Inr (n, d')" "index_ok d"
  shows "index_ok d'"
  using assms(1) unfolding insert_swap_events_def
proof (cases rule: insert_dest)
  case (2 t)
  have "list_all (\<lambda>s. tx_known d (s_tx_hash s)) t"
    using assms(2) by (intro insert_rows_all [OF 2(1)]) (auto simp: index_ok_defs)
  then show ?thesis using assms(2) insert_rows_distinct [OF 2(1)] 2(2) by (simp add: index_ok_defs)
qed (use assms in simp)

lemma insert_liquidity_events_ok [stmt_ok]:
  assumes "insert_liquidity_events rs d = Inr (n, d')" "index_ok d"
  shows "index_ok d'"
  using assms(1) unfolding insert_liquidity_events_def
proof (cases rule: insert_dest)
  case (2 t)
  have "list_all (\<lambda>l. tx_known d (l_tx_hash l)) t"
    using assms(2) by (intro insert_rows_all [OF 2(1)]) (auto simp: index_ok_defs)
  then show ?thesis using assms(2) insert_rows_distinct [OF 2(1)] 2(2) by (simp add: index_ok_defs)
qed (use assms in simp)

lemma insert_token_transfers_ok [stmt_ok]:
  assumes "insert_token_transfers rs d = Inr (n, d')" "index_ok d"
  shows "index_ok d'"
  using assms(1) unfolding insert_token_transfers_def
proof (cases rule: insert_dest)
  case (2 t)
  have "list_all (\<lambda>x. tx_known d (x_tx_hash x)) t"
    using assms(2) by (intro insert_rows_all [OF 2(1)]) (auto simp: index_ok_defs)
  then show ?thesis using assms(2) insert_rows_distinct [OF 2(1)] 2(2) by (simp add: index_ok_defs)
qed (use assms in simp)

lemma insert_failed_transactions_ok [stmt_ok]:
  assumes "insert_failed_transactions rs d = Inr (n, d')" "index_ok d"
  shows "index_ok d'"
  using assms(1) unfolding insert_failed_transactions_def
proof (cases rule: insert_dest)
  case (2 t)
  have "list_all (\<lambda>f. tx_known d (f_tx_hash f)) t"
    using assms(2) by (intro insert_rows_all [OF 2(1)]) (auto simp: index_ok_defs)
  then show ?thesis using assms(2) insert_rows_distinct [OF 2(1)] 2(2) by (simp add: index_ok_defs)
qed (use assms in simp)

lemma insert_trace_logs_ok [stmt_ok]:
  assumes "insert_trace_logs rs d = Inr (n, d')" "index_ok d"
  shows "index_ok d'"
proof -
  have "list_all (\<lambda>g. tx_known d (g_tx_hash g)) (number_rows (\<lambda>i g. g\<lparr>g_trace_id := i\<rparr>) k rs)
      = list_all (\<lambda>g. tx_known d (g_tx_hash g)) rs" for k
    by (rule number_rows_all) simp
  with assms show ?thesis
    by (auto simp: insert_trace_logs_def index_ok_defs split: if_splits)
qed

section \<open>Checkpoint and block reads\<close>

definition get_last_checkpoint :: "i32 \<Rightarrow> (i64 option) stmt" where
  [stmt_defs]: "get_last_checkpoint chain_id d = Inr (map_of (checkpoints d) chain_id, d)"

fun upsert :: "'k \<Rightarrow> 'v \<Rightarrow> ('k \<times> 'v) list \<Rightarrow> ('k \<times> 'v) list" where
  "upsert k v [] = [(k, v)]"
| "upsert k v ((k', v') # kvs) = (if k' = k then (k, v) # kvs else (k', v') # upsert k v kvs)"

definition update_checkpoint :: "i32 \<Rightarrow> i64 \<Rightarrow> unit stmt" where
  [stmt_defs]: "update_checkpoint chain_id last_processed_block d =
     Inr ((), d\<lparr>checkpoints := upsert chain_id last_processed_block (checkpoints d)\<rparr>)"

definition get_block_by_number :: "i64 \<Rightarrow> block_row stmt" where
  [stmt_defs]: "get_block_by_number n d =
     (case find (\<lambda>b. b_block_number b = n) (blocks d) of
        None \<Rightarrow> Inl (NotFound (''block '' @ show_int n)) | Some b \<Rightarrow> Inr (b, d))"

text \<open>\<^verbatim>\<open>SELECT MAX(...)\<close> gives one row with a null on the empty table; decoding it as \<^verbatim>\<open>i64\<close>
  fails.\<close>

definition get_latest_block_number :: "(i64 option) stmt" where
  [stmt_defs]: "get_latest_block_number d =
     (if blocks d = [] then Inl (Sqlx ''unexpected null'')
      else Inr (Some (Max (set (map b_block_number (blocks d)))), d))"

text \<open>\<^verbatim>\<open>LIMIT\<close> of a negative number is an error.\<close>

definition pg_limit :: "i64 \<Rightarrow> 'r list \<Rightarrow> db_error + 'r list" where
  "pg_limit limit rows = (if limit < 0 then Inl (Sqlx ''LIMIT must not be negative'') else Inr (take (nat limit) rows))"

definition recent_block_hashes :: "i64 \<Rightarrow> ((i64 \<times> string) list) stmt" where
  [stmt_defs]: "recent_block_hashes limit d =
     (let rows = sort_key (\<lambda>b. - b_block_number b) (filter (\<lambda>b. b_block_hash b \<noteq> None) (blocks d)) in
      case pg_limit limit rows of
        Inl e \<Rightarrow> Inl e
      | Inr rs \<Rightarrow> Inr (map (\<lambda>b. (b_block_number b, the (b_block_hash b))) rs, d))"

lemma map_of_upsert: "map_of (upsert k v kvs) = (map_of kvs)(k \<mapsto> v)"
  by (induction k v kvs rule: upsert.induct) auto

lemma upsert_keys: "map fst (upsert k v kvs) = (if k \<in> set (map fst kvs) then map fst kvs else map fst kvs @ [k])"
  by (induction k v kvs rule: upsert.induct) auto

lemma distinct_upsert: "distinct (map fst kvs) \<Longrightarrow> distinct (map fst (upsert k v kvs))"
  by (simp add: upsert_keys del: list.map)

lemma update_checkpoint_ok [stmt_ok]:
  "update_checkpoint c n d = Inr ((), d') \<Longrightarrow> index_ok d \<Longrightarrow> index_ok d'"
  by (auto simp: update_checkpoint_def index_ok_defs distinct_upsert)

lemma get_after_update_checkpoint:
  "update_checkpoint c n d = Inr ((), d') \<Longrightarrow> get_last_checkpoint c' d' = Inr (if c' = c then Some n else map_of (checkpoints d) c', d')"
  by (auto simp: update_checkpoint_def get_last_checkpoint_def map_of_upsert)

section \<open>Rollback\<close>

text \<open>Each statement of the transaction; deleting a referenced row is refused.\<close>

definition doomed :: "i64 \<Rightarrow> db \<Rightarrow> string list" where
  "doomed from_block d = map t_tx_hash (filter (\<lambda>t. from_block \<le> t_block_number t) (transactions d))"

definition delete_swap_events :: "i64 \<Rightarrow> unit stmt" where
  [stmt_defs]: "delete_swap_events n d =
     Inr ((), d\<lparr>swap_events := filter (\<lambda>s. s_tx_hash s \<notin> set (doomed n d)) (swap_events d)\<rparr>)"

definition delete_liquidity_events :: "i64 \<Rightarrow> unit stmt" where
  [stmt_defs]: "delete_liquidity_events n d =
     Inr ((), d\<lparr>liquidity_events := filter (\<lambda>l. l_tx_hash l \<notin> set (doomed n d)) (liquidity_events d)\<rparr>)"

definition delete_token_transfers :: "i64 \<Rightarrow> unit stmt" where
  [stmt_defs]: "delete_token_transfers n d =
     Inr ((), d\<lparr>token_transfers := filter (\<lambda>x. x_tx_hash x \<notin> set (doomed n d)) (token_transfers d)\<rparr>)"

definition delete_trace_logs :: "i64 \<Rightarrow> unit stmt" where
  [stmt_defs]: "delete_trace_logs n d =
     Inr ((), d\<lparr>trace_logs := filter (\<lambda>g. g_tx_hash g \<notin> set (doomed n d)) (trace_logs d)\<rparr>)"

definition delete_failed_transactions :: "i64 \<Rightarrow> unit stmt" where
  [stmt_defs]: "delete_failed_transactions n d =
     Inr ((), d\<lparr>failed_transactions := filter (\<lambda>f. f_tx_hash f \<notin> set (doomed n d)) (failed_transactions d)\<rparr>)"

definition tx_referenced :: "db \<Rightarrow> string \<Rightarrow> bool" where
  "tx_referenced d h \<longleftrightarrow>
     h \<in> set (map s_tx_hash (swap_events d)) \<or> h \<in> set (map l_tx_hash (liquidity_events d))
     \<or> h \<in> set (map x_tx_hash (token_transfers d)) \<or> h \<in> set (map g_tx_hash (trace_logs d))
     \<or> h \<in> set (map f_tx_hash (failed_transactions d))"

definition delete_transactions :: "i64 \<Rightarrow> unit stmt" where
  [stmt_defs]: "delete_transactions n d =
     (if list_ex (tx_referenced d) (doomed n d) then Inl (Sqlx ''foreign key'')
      else Inr ((), d\<lparr>transactions := filter (\<lambda>t. \<not> n \<le> t_block_number t) (transactions d)\<rparr>))"

definition delete_blocks :: "i64 \<Rightarrow> nat stmt" where
  [stmt_defs]: "delete_blocks n d =
     (let dead = filter (\<lambda>b. n \<le> b_block_number b) (blocks d) in
      if list_ex (\<lambda>b. b_block_number b \<in> set (map t_block_number (transactions d))) dead
      then Inl (Sqlx ''foreign key'')
      else Inr (length dead, d\<lparr>blocks := filter (\<lambda>b. \<not> n \<le> b_block_number b) (blocks d)\<rparr>))"

definition rewind_checkpoint :: "i64 \<Rightarrow> unit stmt" where
  [stmt_defs]: "rewind_checkpoint resume d =
     Inr ((), d\<lparr>checkpoints := map (\<lambda>(c, v). if c = 1 then (c, resume) else (c, v)) (checkpoints d)\<rparr>)"

definition rollback_from_block :: "i64 \<Rightarrow> nat stmt" where
  "rollback_from_block from_block =
     (let resume = max (i64_wrap (from_block - 1)) 0 in
      stmt_bind (delete_swap_events from_block) (\<lambda>_.
      stmt_bind (delete_liquidity_events from_block) (\<lambda>_.
      stmt_bind (delete_token_transfers from_block) (\<lambda>_.
      stmt_bind (delete_trace_logs from_block) (\<lambda>_.
      stmt_bind (delete_failed_transactions from_block) (\<lambda>_.
      stmt_bind (delete_transactions from_block) (\<lambda>_.
      stmt_bind (delete_blocks from_block) (\<lambda>blocks.
      stmt_bind (rewind_checkpoint resume) (\<lambda>_.
        stmt_return blocks)))))))))"

text \<open>What the rollback leaves: the rows below the block.\<close>

definition below :: "i64 \<Rightarrow> db \<Rightarrow> db" where
  "below n d =
     (let keep = (\<lambda>h. h \<notin> set (doomed n d)) in
      d\<lparr>blocks := filter (\<lambda>b. b_block_number b < n) (blocks d),
        transactions := filter (\<lambda>t. t_block_number t < n) (transactions d),
        swap_events := filter (\<lambda>s. keep (s_tx_hash s)) (swap_events d),
        liquidity_events := filter (\<lambda>l. keep (l_tx_hash l)) (liquidity_events d),
        token_transfers := filter (\<lambda>x. keep (x_tx_hash x)) (token_transfers d),
        failed_transactions := filter (\<lambda>f. keep (f_tx_hash f)) (failed_transactions d),
        trace_logs := filter (\<lambda>g. keep (g_tx_hash g)) (trace_logs d),
        checkpoints := map (\<lambda>(c, v). if c = 1 then (c, max (i64_wrap (n - 1)) 0) else (c, v)) (checkpoints d)\<rparr>)"

lemma doomed_frame [simp]:
  "doomed n (d\<lparr>swap_events := b\<rparr>) = doomed n d"
  "doomed n (d\<lparr>liquidity_events := c\<rparr>) = doomed n d"
  "doomed n (d\<lparr>token_transfers := e\<rparr>) = doomed n d"
  "doomed n (d\<lparr>trace_logs := g\<rparr>) = doomed n d"
  "doomed n (d\<lparr>failed_transactions := f\<rparr>) = doomed n d"
  by (simp_all add: doomed_def)

text \<open>The order of the statements makes every foreign key check pass.\<close>

lemma rollback_below:
  "rollback_from_block n d = Inr (length (filter (\<lambda>b. n \<le> b_block_number b) (blocks d)), below n d)"
proof -
  have swap: "\<not> n \<le> (k :: int) \<longleftrightarrow> k < n" for k by auto
  show ?thesis
    by (auto simp: rollback_from_block_def stmt_defs below_def tx_referenced_def Let_def list_ex_iff swap)
qed

lemma map_of_rewind:
  "map_of (map (\<lambda>(c, v). if c = 1 then (c, r) else (c, v)) kvs) c
     = (if c = (1 :: i32) then map_option (\<lambda>_. r) (map_of kvs c) else map_of kvs c)"
  by (induction kvs) auto

lemma doomed_below: "doomed n (below n d) = []"
  by (simp add: doomed_def below_def Let_def filter_empty_conv)

lemma tx_known_below:
  assumes "index_ok d"
  shows "tx_known (below n d) h \<longleftrightarrow> tx_known d h \<and> h \<notin> set (doomed n d)"
proof -
  have "t = u" if "t \<in> set (transactions d)" "u \<in> set (transactions d)" "t_tx_hash t = t_tx_hash u" for t u
    using assms that by (auto simp: index_ok_defs distinct_map inj_on_def)
  then show ?thesis
    by (force simp: tx_known_def below_def Let_def doomed_def)
qed

lemma distinct_map_filter [simp]: "distinct (map f xs) \<Longrightarrow> distinct (map f (filter P xs))"
  by (simp add: distinct_map inj_on_def)

lemma index_ok_below:
  assumes "index_ok d"
  shows "index_ok (below n d)"
proof -
  have bk: "block_known (below n d) k \<longleftrightarrow> block_known d k \<and> k < n" for k
    by (auto simp: block_known_def below_def Let_def)
  have "map fst (checkpoints (below n d)) = map fst (checkpoints d)"
    by (auto simp: below_def Let_def)
  then have "keys_ok (below n d)" using assms by (simp add: index_ok_defs) (simp add: below_def Let_def)
  moreover have "refs_ok (below n d)"
    using assms unfolding refs_ok_def index_ok_def bk tx_known_below [OF assms]
    by (simp add: below_def Let_def list_all_iff)
  ultimately show ?thesis by (simp add: index_ok_def)
qed

lemma below_idem: "below n (below n d) = below n d"
proof -
  have "map ((\<lambda>(c, v). if c = (1 :: i32) then (c, r) else (c, v)) \<circ> (\<lambda>(c, v). if c = 1 then (c, r) else (c, v))) kvs
      = map (\<lambda>(c, v). if c = 1 then (c, r) else (c, v)) kvs" for r :: i64 and kvs
    by auto
  then show ?thesis
    using doomed_below [of n d] by (subst (1) below_def) (simp add: Let_def, simp add: below_def Let_def)
qed

section \<open>Correctness of the rollback\<close>

definition in_block_below :: "db \<Rightarrow> i64 \<Rightarrow> string \<Rightarrow> bool" where
  "in_block_below d n h \<longleftrightarrow> (\<exists>t \<in> set (transactions d). t_tx_hash t = h \<and> t_block_number t < n)"

lemma not_doomed_iff:
  assumes "index_ok d" "tx_known d h"
  shows "h \<notin> set (doomed n d) \<longleftrightarrow> in_block_below d n h"
proof -
  have "tx_known (below n d) h \<longleftrightarrow> in_block_below d n h"
    by (auto simp: tx_known_def below_def Let_def in_block_below_def image_iff)
  then show ?thesis using tx_known_below [OF assms(1), of n h] assms(2) by simp
qed

lemma filter_not_doomed:
  assumes "index_ok d" "list_all (\<lambda>r. tx_known d (h r)) rs"
  shows "filter (\<lambda>r. h r \<notin> set (doomed n d)) rs = filter (\<lambda>r. in_block_below d n (h r)) rs"
  using assms(2) not_doomed_iff [OF assms(1)] by (auto simp: list_all_iff cong: filter_cong)

lemma below_kept:
  assumes "index_ok d"
  shows "swap_events (below n d) = filter (\<lambda>s. in_block_below d n (s_tx_hash s)) (swap_events d)"
    and "liquidity_events (below n d) = filter (\<lambda>l. in_block_below d n (l_tx_hash l)) (liquidity_events d)"
    and "token_transfers (below n d) = filter (\<lambda>x. in_block_below d n (x_tx_hash x)) (token_transfers d)"
    and "failed_transactions (below n d) = filter (\<lambda>f. in_block_below d n (f_tx_hash f)) (failed_transactions d)"
    and "trace_logs (below n d) = filter (\<lambda>g. in_block_below d n (g_tx_hash g)) (trace_logs d)"
  using assms
    filter_not_doomed [OF assms, of s_tx_hash "swap_events d" n]
    filter_not_doomed [OF assms, of l_tx_hash "liquidity_events d" n]
    filter_not_doomed [OF assms, of x_tx_hash "token_transfers d" n]
    filter_not_doomed [OF assms, of f_tx_hash "failed_transactions d" n]
    filter_not_doomed [OF assms, of g_tx_hash "trace_logs d" n]
  by (simp_all add: below_def Let_def index_ok_defs)

text \<open>C4: \<^verbatim>\<open>rollback_from_block\<close> removes exactly the data of the blocks it rolls back.  On a database
  whose keys hold, no statement of the transaction violates a foreign key; it returns the number
  of blocks at or above the given one; afterwards exactly the blocks and transactions below it
  remain, and an event, transfer, trace or failure row remains exactly when its transaction is in
  a block below; the keys still hold; an existing checkpoint of chain 1 is the block before (never
  negative), other chains' checkpoints and the alert tables are untouched; and rolling back again
  deletes nothing more.\<close>

theorem rollback_from_block_correct:
  assumes "index_ok d"
  shows "\<exists>d'. rollback_from_block n d = Inr (length (filter (\<lambda>b. n \<le> b_block_number b) (blocks d)), d')
     \<and> blocks d' = filter (\<lambda>b. b_block_number b < n) (blocks d)
     \<and> transactions d' = filter (\<lambda>t. t_block_number t < n) (transactions d)
     \<and> swap_events d' = filter (\<lambda>s. in_block_below d n (s_tx_hash s)) (swap_events d)
     \<and> liquidity_events d' = filter (\<lambda>l. in_block_below d n (l_tx_hash l)) (liquidity_events d)
     \<and> token_transfers d' = filter (\<lambda>x. in_block_below d n (x_tx_hash x)) (token_transfers d)
     \<and> failed_transactions d' = filter (\<lambda>f. in_block_below d n (f_tx_hash f)) (failed_transactions d)
     \<and> trace_logs d' = filter (\<lambda>g. in_block_below d n (g_tx_hash g)) (trace_logs d)
     \<and> map_of (checkpoints d') 1 = map_option (\<lambda>_. max (i64_wrap (n - 1)) 0) (map_of (checkpoints d) 1)
     \<and> (\<forall>c. c \<noteq> 1 \<longrightarrow> map_of (checkpoints d') c = map_of (checkpoints d) c)
     \<and> subscriptions d' = subscriptions d \<and> deliveries d' = deliveries d
     \<and> index_ok d'
     \<and> rollback_from_block n d' = Inr (0, d')"
proof (intro exI conjI allI impI)
  show "rollback_from_block n d = Inr (length (filter (\<lambda>b. n \<le> b_block_number b) (blocks d)), below n d)"
    by (rule rollback_below)
  show "rollback_from_block n (below n d) = Inr (0, below n d)"
    unfolding rollback_below below_idem by (simp add: below_def Let_def filter_empty_conv)
  show "index_ok (below n d)" using assms(1) by (rule index_ok_below)
qed (use below_kept [OF assms(1), of n] in \<open>simp_all add: below_def Let_def map_of_rewind\<close>)

definition sample_block :: "i64 \<Rightarrow> string \<Rightarrow> string \<Rightarrow> block_row" where
  "sample_block n h p = \<lparr>b_block_number = n, b_timestamp = 12 * n, b_gas_used = 21000,
     b_block_hash = Some h, b_parent_hash = Some p\<rparr>"

definition sample_tx :: "string \<Rightarrow> i64 \<Rightarrow> transaction_row" where
  "sample_tx h n = \<lparr>t_tx_hash = h, t_from_addr = ''0xaa'', t_to_addr = Some ''0xbb'', t_block_number = n,
     t_gas_used = 21000, t_gas_price = 7, t_value = 0, t_status = 0, t_input_data = None\<rparr>"

definition sample_failed :: "string \<Rightarrow> failed_transaction" where
  "sample_failed h = \<lparr>f_tx_hash = h, f_error_category = Unknown, f_revert_reason = None,
     f_failing_function = None, f_gas_used = 21000, f_timestamp = 0\<rparr>"

definition sample_db :: db where
  "sample_db = empty_db\<lparr>
     blocks := [sample_block 10 ''h10'' ''h9'', sample_block 11 ''h11'' ''h10''],
     transactions := [sample_tx ''a'' 10, sample_tx ''b'' 11],
     failed_transactions := [sample_failed ''a'', sample_failed ''b''],
     checkpoints := [(1, 11)]\<rparr>"

lemma sample_db_ok: "index_ok sample_db"
  by (simp add: index_ok_defs sample_db_def empty_db_def sample_block_def sample_tx_def sample_failed_def
      block_known_def tx_known_def)

theorem rollback_from_block_correct_witness:
  "\<exists>d'. rollback_from_block 11 sample_db = Inr (1, d')
     \<and> blocks d' = [sample_block 10 ''h10'' ''h9''] \<and> transactions d' = [sample_tx ''a'' 10]
     \<and> failed_transactions d' = [sample_failed ''a''] \<and> map_of (checkpoints d') 1 = Some 10"
  using rollback_from_block_correct [OF sample_db_ok, of 11]
  by (auto simp: sample_db_def empty_db_def sample_block_def sample_tx_def sample_failed_def in_block_below_def)

end
