(* ===== verification/Worker.thy ===== *)
theory Worker
  imports Events Classifier Rollback
begin

text \<open>
  One block through the indexer (\<^verbatim>\<open>crates/indexer/src/worker.rs\<close>): the rows built from a block and
  its receipts, the rows built from the traces of failed transactions, and the sequence of writes
  \<^verbatim>\<open>process_block\<close> performs.  The JSON-RPC node and the third-party helpers are arguments
  (\<open>node\<close>, \<open>ext\<close>); an answer of the node is the one after \<^verbatim>\<open>rpc_with_retry\<close>.
\<close>

section \<open>What the node answers\<close>

record rpc_tx =
  tx_from :: address
  tx_to :: "address option"
  tx_value :: nat
  tx_effective_gas_price :: "nat option"
  tx_input :: "byte list"

record rpc_block =
  hdr_timestamp :: u64
  hdr_gas_used :: u64
  hdr_hash :: string
  hdr_parent_hash :: string
  hdr_transactions :: "rpc_tx list"

record rpc_log =
  lg_topics :: "b256 list"
  lg_data :: "byte list"
  lg_address :: address
  lg_log_index :: "u64 option"

record rpc_receipt =
  rc_transaction_hash :: string
  rc_gas_used :: u64
  rc_status :: bool
  rc_logs :: "rpc_log list"

text \<open>A trace: the call tracer's frame after \<^verbatim>\<open>serde_json::to_value\<close>, or another tracer.\<close>

datatype geth_trace = CallTracer "string + json" | OtherTracer

record node =
  get_block_full :: "u64 \<Rightarrow> string + rpc_block"
  get_block_receipts :: "u64 \<Rightarrow> string + rpc_receipt list"
  debug_trace_transaction :: "string \<Rightarrow> string + geth_trace"

record ext =
  ext_sol :: sol
  from_timestamp :: "i64 \<Rightarrow> instant option"
  bytes_display :: "byte list \<Rightarrow> string"
  ext_hex_decode :: "string \<Rightarrow> string + byte list"
  parses_as_hash :: "string \<Rightarrow> bool"

section \<open>Rows of a block\<close>

definition big_or_zero :: "ext \<Rightarrow> string \<Rightarrow> bigdecimal" where
  "big_or_zero E s = unwrap_or (ok (BigDecimal_from_str (ext_sol E) s)) 0"

definition to_swap_model :: "decoded_swap \<Rightarrow> swap_event" where
  "to_swap_model s = \<lparr>s_pool_address = ds_pool_address s, s_tx_hash = ds_tx_hash s,
     s_sender = ds_sender s, s_recipient = ds_recipient s, s_amount0 = ds_amount0 s,
     s_amount1 = ds_amount1 s, s_amount_in = ds_amount_in s, s_amount_out = ds_amount_out s,
     s_sqrt_price_x96 = ds_sqrt_price_x96 s, s_liquidity = ds_liquidity s, s_tick = ds_tick s,
     s_log_index = ds_log_index s, s_timestamp = ds_timestamp s, s_event_id = 0\<rparr>"

definition to_liquidity_model :: "decoded_liquidity \<Rightarrow> liquidity_event" where
  "to_liquidity_model l = \<lparr>l_event_type = (if dl_event_type l = ''BURN'' then Burn else Mint),
     l_pool_address = dl_pool_address l, l_tx_hash = dl_tx_hash l, l_provider = dl_provider l,
     l_token0_amount = dl_token0_amount l, l_token1_amount = dl_token1_amount l,
     l_tick_lower = dl_tick_lower l, l_tick_upper = dl_tick_upper l, l_liquidity = dl_liquidity l,
     l_log_index = dl_log_index l, l_timestamp = dl_timestamp l, l_event_id = 0\<rparr>"

definition to_transfer_model :: "decoded_transfer \<Rightarrow> token_transfer" where
  "to_transfer_model t = \<lparr>x_tx_hash = dt_tx_hash t, x_token_address = dt_token_address t,
     x_from_addr = dt_from_addr t, x_to_addr = dt_to_addr t, x_amount = dt_amount t,
     x_log_index = dt_log_index t, x_timestamp = dt_timestamp t, x_transfer_id = 0\<rparr>"

definition block_model :: "ext \<Rightarrow> u64 \<Rightarrow> rpc_block \<Rightarrow> block_row" where
  "block_model E block_number blk = \<lparr>b_block_number = u64_as_i64 block_number,
     b_timestamp = unwrap_or (from_timestamp E (u64_as_i64 (hdr_timestamp blk))) 0,
     b_gas_used = u64_as_i64 (hdr_gas_used blk),
     b_block_hash = Some (hdr_hash blk), b_parent_hash = Some (hdr_parent_hash blk)\<rparr>"

definition tx_model :: "ext \<Rightarrow> u64 \<Rightarrow> rpc_tx \<Rightarrow> rpc_receipt \<Rightarrow> transaction_row" where
  "tx_model E block_number tx rc = \<lparr>t_tx_hash = rc_transaction_hash rc,
     t_from_addr = to_lowercase (address_display (ext_sol E) (tx_from tx)),
     t_to_addr = map_option (\<lambda>a. to_lowercase (address_display (ext_sol E) a)) (tx_to tx),
     t_block_number = u64_as_i64 block_number,
     t_gas_used = u64_as_i64 (rc_gas_used rc),
     t_gas_price = big_or_zero E (show_nat (unwrap_or (tx_effective_gas_price tx) 0)),
     t_value = big_or_zero E (show_nat (tx_value tx)),
     t_status = (if rc_status rc then 1 else 0),
     t_input_data = (if tx_input tx = [] then None else Some (bytes_display E (tx_input tx)))\<rparr>"

text \<open>Receipts are matched with transactions by position; a receipt without one adds no row.\<close>

definition tx_models :: "ext \<Rightarrow> u64 \<Rightarrow> rpc_block \<Rightarrow> rpc_receipt list \<Rightarrow> transaction_row list" where
  "tx_models E block_number blk receipts =
     map (\<lambda>(tx, rc). tx_model E block_number tx rc) (zip (hdr_transactions blk) receipts)"

definition log_events :: "ext \<Rightarrow> instant \<Rightarrow> rpc_receipt \<Rightarrow> decoded_event list" where
  "log_events E timestamp rc =
     filter_ok (\<lambda>lg. decode_log (ext_sol E) (lg_topics lg) (lg_data lg)
         (to_lowercase (address_display (ext_sol E) (lg_address lg)))
         (rc_transaction_hash rc) (as_i32 (int (unwrap_or (lg_log_index lg) 0))) timestamp)
       (filter (\<lambda>lg. lg_topics lg \<noteq> []) (rc_logs rc))"

fun swaps_of :: "decoded_event list \<Rightarrow> swap_event list" where
  "swaps_of [] = []"
| "swaps_of (Swap s # es) = to_swap_model s # swaps_of es"
| "swaps_of (_ # es) = swaps_of es"

fun liquidity_of :: "decoded_event list \<Rightarrow> liquidity_event list" where
  "liquidity_of [] = []"
| "liquidity_of (Liquidity l # es) = to_liquidity_model l # liquidity_of es"
| "liquidity_of (_ # es) = liquidity_of es"

fun transfers_of :: "decoded_event list \<Rightarrow> token_transfer list" where
  "transfers_of [] = []"
| "transfers_of (Transfer t # es) = to_transfer_model t # transfers_of es"
| "transfers_of (_ # es) = transfers_of es"

section \<open>Rows of failed transactions\<close>

definition category_of :: "string \<Rightarrow> error_category" where
  "category_of c =
     (if c = ''INSUFFICIENT_BALANCE'' then InsufficientBalance
      else if c = ''SLIPPAGE_EXCEEDED'' then SlippageExceeded
      else if c = ''DEADLINE_EXPIRED'' then DeadlineExpired
      else if c = ''UNAUTHORIZED'' then Unauthorized
      else if c = ''TRANSFER_FAILED'' then TransferFailed
      else Unknown)"

definition to_trace_log :: "ext \<Rightarrow> string \<Rightarrow> flat_frame \<Rightarrow> trace_log" where
  "to_trace_log E tx_hash frame = \<lparr>g_tx_hash = tx_hash, g_call_depth = ff_depth frame,
     g_call_type = ff_call_type frame, g_from_addr = ff_from frame, g_to_addr = ff_to frame,
     g_value = big_or_zero E (ff_value frame), g_gas_used = ff_gas_used frame,
     g_input = ff_input frame, g_output = ff_output frame, g_error = ff_error frame, g_trace_id = 0\<rparr>"

text \<open>The revert reason of a root_call frame: its output, hex-decoded, then decoded as revert data.\<close>

definition revert_reason_of :: "ext \<Rightarrow> flat_frame \<Rightarrow> (string option) rust" where
  "revert_reason_of E root_call =
     (case Option.bind (ff_output root_call) (\<lambda>out. ok (ext_hex_decode E (strip_0x out))) of
        None \<Rightarrow> Return None
      | Some bytes \<Rightarrow>
          (case decode_revert_reason bytes of
             Panic \<Rightarrow> Panic
           | Return r \<Rightarrow> Return (ok r)))"

text \<open>The first eight bytes of the input after the prefix; a slice inside a character panics.\<close>

definition selector_of :: "flat_frame \<Rightarrow> (string option) rust" where
  "selector_of root_call =
     (case ff_input root_call of
        None \<Rightarrow> Return None
      | Some input \<Rightarrow>
          let hex = strip_0x input in
          if 8 \<le> length hex then
            (if is_char_boundary hex 8 then Return (Some (''0x'' @ take 8 hex)) else Panic)
          else Return None)"

definition failed_tx_of :: "ext \<Rightarrow> string \<Rightarrow> instant \<Rightarrow> flat_frame list \<Rightarrow> failed_transaction rust" where
  "failed_tx_of E tx_hash timestamp frames =
     (case frames of
        [] \<Rightarrow> Return \<lparr>f_tx_hash = tx_hash, f_error_category = category_of ''UNKNOWN'',
                f_revert_reason = None, f_failing_function = None, f_gas_used = 0, f_timestamp = timestamp\<rparr>
      | root_call # _ \<Rightarrow>
          (case revert_reason_of E root_call of
             Panic \<Rightarrow> Panic
           | Return reason \<Rightarrow>
               (case selector_of root_call of
                  Panic \<Rightarrow> Panic
                | Return sel \<Rightarrow>
                    Return \<lparr>f_tx_hash = tx_hash,
                      f_error_category = category_of (case reason of Some r \<Rightarrow> classify_error r | None \<Rightarrow> ''UNKNOWN''),
                      f_revert_reason = reason, f_failing_function = sel,
                      f_gas_used = ff_gas_used root_call, f_timestamp = timestamp\<rparr>)))"

fun process_failed_txs ::
    "ext \<Rightarrow> node \<Rightarrow> instant \<Rightarrow> string list \<Rightarrow> (trace_log list \<times> failed_transaction list) rust" where
  "process_failed_txs E N timestamp [] = Return ([], [])"
| "process_failed_txs E N timestamp (h # hs) =
     (let skip = process_failed_txs E N timestamp hs in
      if \<not> parses_as_hash E h then skip
      else case debug_trace_transaction N h of
        Inl _ \<Rightarrow> skip
      | Inr OtherTracer \<Rightarrow> skip
      | Inr (CallTracer (Inl _)) \<Rightarrow> skip
      | Inr (CallTracer (Inr trace_json)) \<Rightarrow>
          (case parse_trace h trace_json of
             Inl _ \<Rightarrow> skip
           | Inr flattened \<Rightarrow>
               (case failed_tx_of E h timestamp (ft_frames flattened) of
                  Panic \<Rightarrow> Panic
                | Return ft \<Rightarrow>
                    (case skip of
                       Panic \<Rightarrow> Panic
                     | Return (traces, faileds) \<Rightarrow>
                         Return (map (to_trace_log E h) (ft_frames flattened) @ traces, ft # faileds)))))"

section \<open>The writes of a block\<close>

datatype db_write =
    W_blocks "block_row list"
  | W_transactions "transaction_row list"
  | W_swaps "swap_event list"
  | W_liquidity "liquidity_event list"
  | W_transfers "token_transfer list"
  | W_traces "trace_log list"
  | W_failed "failed_transaction list"

fun run_write :: "db_write \<Rightarrow> nat stmt" where
  "run_write (W_blocks rs) = insert_blocks rs"
| "run_write (W_transactions rs) = insert_transactions rs"
| "run_write (W_swaps rs) = insert_swap_events rs"
| "run_write (W_liquidity rs) = insert_liquidity_events rs"
| "run_write (W_transfers rs) = insert_token_transfers rs"
| "run_write (W_traces rs) = insert_trace_logs rs"
| "run_write (W_failed rs) = insert_failed_transactions rs"

text \<open>A task is the list of its remaining steps; \<open>Abort\<close> is a returned error or a panic.\<close>

datatype task_step = Write db_write | Abort

definition when_rows :: "'r list \<Rightarrow> ('r list \<Rightarrow> db_write) \<Rightarrow> task_step list" where
  "when_rows rows W = (if rows = [] then [] else [Write (W rows)])"

definition process_block :: "ext \<Rightarrow> node \<Rightarrow> u64 \<Rightarrow> task_step list" where
  "process_block E N block_number =
     (case (get_block_full N block_number, get_block_receipts N block_number) of
        (Inr blk, Inr receipts) \<Rightarrow>
          let timestamp = unwrap_or (from_timestamp E (u64_as_i64 (hdr_timestamp blk))) 0;
              events = concat (map (log_events E timestamp) receipts);
              failed_tx_hashes = map rc_transaction_hash (filter (\<lambda>r. \<not> rc_status r) receipts)
          in [Write (W_blocks [block_model E block_number blk])]
             @ when_rows (tx_models E block_number blk receipts) W_transactions
             @ when_rows (swaps_of events) W_swaps
             @ when_rows (liquidity_of events) W_liquidity
             @ when_rows (transfers_of events) W_transfers
             @ (if failed_tx_hashes = [] then []
                else case process_failed_txs E N timestamp failed_tx_hashes of
                       Panic \<Rightarrow> [Abort]
                     | Return (traces, faileds) \<Rightarrow> when_rows traces W_traces @ when_rows faileds W_failed)
      | _ \<Rightarrow> [Abort])"

text \<open>A task run alone, without faults.\<close>

fun run_steps :: "task_step list \<Rightarrow> db \<Rightarrow> bool \<times> db" where
  "run_steps [] d = (True, d)"
| "run_steps (Abort # ss) d = (False, d)"
| "run_steps (Write w # ss) d =
     (case run_write w d of Inl _ \<Rightarrow> (False, d) | Inr (_, d') \<Rightarrow> run_steps ss d')"

section \<open>What a write achieves\<close>

definition unnumbered :: "trace_log \<Rightarrow> trace_log" where
  "unnumbered g = g\<lparr>g_trace_id := 0\<rparr>"

fun holds_write :: "db_write \<Rightarrow> db \<Rightarrow> bool" where
  "holds_write (W_blocks rs) d \<longleftrightarrow> b_block_number ` set rs \<subseteq> b_block_number ` set (blocks d)"
| "holds_write (W_transactions rs) d \<longleftrightarrow> t_tx_hash ` set rs \<subseteq> t_tx_hash ` set (transactions d)"
| "holds_write (W_swaps rs) d \<longleftrightarrow> swap_key ` set rs \<subseteq> swap_key ` set (swap_events d)"
| "holds_write (W_liquidity rs) d \<longleftrightarrow> liquidity_key ` set rs \<subseteq> liquidity_key ` set (liquidity_events d)"
| "holds_write (W_transfers rs) d \<longleftrightarrow> transfer_key ` set rs \<subseteq> transfer_key ` set (token_transfers d)"
| "holds_write (W_traces rs) d \<longleftrightarrow> unnumbered ` set rs \<subseteq> unnumbered ` set (trace_logs d)"
| "holds_write (W_failed rs) d \<longleftrightarrow> f_tx_hash ` set rs \<subseteq> f_tx_hash ` set (failed_transactions d)"

fun holds_step :: "task_step \<Rightarrow> db \<Rightarrow> bool" where
  "holds_step (Write w) d = holds_write w d"
| "holds_step Abort d = False"

definition grows :: "db \<Rightarrow> db \<Rightarrow> bool" where
  "grows d d' \<longleftrightarrow>
     b_block_number ` set (blocks d) \<subseteq> b_block_number ` set (blocks d')
     \<and> t_tx_hash ` set (transactions d) \<subseteq> t_tx_hash ` set (transactions d')
     \<and> swap_key ` set (swap_events d) \<subseteq> swap_key ` set (swap_events d')
     \<and> liquidity_key ` set (liquidity_events d) \<subseteq> liquidity_key ` set (liquidity_events d')
     \<and> transfer_key ` set (token_transfers d) \<subseteq> transfer_key ` set (token_transfers d')
     \<and> unnumbered ` set (trace_logs d) \<subseteq> unnumbered ` set (trace_logs d')
     \<and> f_tx_hash ` set (failed_transactions d) \<subseteq> f_tx_hash ` set (failed_transactions d')"

lemma grows_refl [simp, intro]: "grows d d"
  by (simp add: grows_def)

lemma grows_trans [trans]: "grows d d' \<Longrightarrow> grows d' d'' \<Longrightarrow> grows d d''"
  unfolding grows_def by (elim conjE, intro conjI) (erule (1) subset_trans)+

lemma holds_write_grows: "holds_write w d \<Longrightarrow> grows d d' \<Longrightarrow> holds_write w d'"
  by (cases w) (simp_all only: holds_write.simps grows_def, (elim conjE, erule (1) subset_trans)+)

lemma holds_step_grows: "holds_step s d \<Longrightarrow> grows d d' \<Longrightarrow> holds_step s d'"
  by (cases s) (auto intro: holds_write_grows)

lemma holds_steps_grow:
  "list_all (\<lambda>s. holds_step s d) ss \<Longrightarrow> grows d d' \<Longrightarrow> list_all (\<lambda>s. holds_step s d') ss"
  by (auto simp: list_all_iff intro: holds_step_grows)

text \<open>What each insert leaves alone.\<close>

lemma insert_frames:
  "insert_blocks bs d = Inr (n, d') \<Longrightarrow> d' = d\<lparr>blocks := blocks d'\<rparr>"
  "insert_transactions ts d = Inr (n, d') \<Longrightarrow> d' = d\<lparr>transactions := transactions d'\<rparr>"
  "insert_swap_events ss d = Inr (n, d') \<Longrightarrow> d' = d\<lparr>swap_events := swap_events d', seq_swap := seq_swap d'\<rparr>"
  "insert_liquidity_events ls d = Inr (n, d')
     \<Longrightarrow> d' = d\<lparr>liquidity_events := liquidity_events d', seq_liquidity := seq_liquidity d'\<rparr>"
  "insert_token_transfers xs d = Inr (n, d')
     \<Longrightarrow> d' = d\<lparr>token_transfers := token_transfers d', seq_transfer := seq_transfer d'\<rparr>"
  "insert_failed_transactions fs d = Inr (n, d') \<Longrightarrow> d' = d\<lparr>failed_transactions := failed_transactions d'\<rparr>"
  "insert_trace_logs gs d = Inr (n, d') \<Longrightarrow> d' = d\<lparr>trace_logs := trace_logs d', seq_trace := seq_trace d'\<rparr>"
  by (auto simp: stmt_defs split: if_splits sum.splits)

definition same_other_tables :: "db \<Rightarrow> db \<Rightarrow> bool" where
  "same_other_tables d d' \<longleftrightarrow>
     checkpoints d' = checkpoints d \<and> tokens d' = tokens d \<and> pools d' = pools d
     \<and> subscriptions d' = subscriptions d \<and> deliveries d' = deliveries d
     \<and> rate_dispatches d' = rate_dispatches d \<and> contract_labels d' = contract_labels d"

lemma insert_trace_logs_rows:
  assumes "insert_trace_logs gs d = Inr (n, d')"
  shows "map unnumbered (trace_logs d') = map unnumbered (trace_logs d) @ map unnumbered gs"
proof -
  have "map unnumbered (number_rows (\<lambda>i g. g\<lparr>g_trace_id := i\<rparr>) k gs) = map unnumbered gs" for k
    by (rule map_number_rows) (simp add: unnumbered_def)
  with assms show ?thesis by (auto simp: insert_trace_logs_def split: if_splits)
qed

lemma trace_logs_image:
  assumes "insert_trace_logs gs d = Inr (n, d')"
  shows "unnumbered ` set (trace_logs d') = unnumbered ` set (trace_logs d) \<union> unnumbered ` set gs"
  using insert_trace_logs_rows [OF assms] by (metis list.set_map set_append)

lemma run_write_effect:
  assumes "run_write w d = Inr (n, d')"
  shows "holds_write w d'" and "grows d d'" and "index_ok d \<Longrightarrow> index_ok d'" and "same_other_tables d d'"
proof -
  show "index_ok d \<Longrightarrow> index_ok d'" using assms by (cases w) (auto intro: stmt_ok)
  have frame: "grows d d' \<and> same_other_tables d d' \<and> holds_write w d'"
  proof (cases w)
    case (W_blocks rs)
    with assms have i: "insert_blocks rs d = Inr (n, d')" by simp
    obtain X where X: "d' = d\<lparr>blocks := X\<rparr>" using insert_frames(1) [OF i] by blast
    show ?thesis using bt.keys_after [OF i] by (simp add: X W_blocks grows_def same_other_tables_def)
  next
    case (W_transactions rs)
    with assms have i: "insert_transactions rs d = Inr (n, d')" by simp
    obtain X where X: "d' = d\<lparr>transactions := X\<rparr>" using insert_frames(2) [OF i] by blast
    show ?thesis using tt.keys_after [OF i] by (simp add: X W_transactions grows_def same_other_tables_def)
  next
    case (W_swaps rs)
    with assms have i: "insert_swap_events rs d = Inr (n, d')" by simp
    obtain X k where X: "d' = d\<lparr>swap_events := X, seq_swap := k\<rparr>" using insert_frames(3) [OF i] by blast
    show ?thesis using st.keys_after [OF i] by (simp add: X W_swaps grows_def same_other_tables_def)
  next
    case (W_liquidity rs)
    with assms have i: "insert_liquidity_events rs d = Inr (n, d')" by simp
    obtain X k where X: "d' = d\<lparr>liquidity_events := X, seq_liquidity := k\<rparr>" using insert_frames(4) [OF i] by blast
    show ?thesis using lt.keys_after [OF i] by (simp add: X W_liquidity grows_def same_other_tables_def)
  next
    case (W_transfers rs)
    with assms have i: "insert_token_transfers rs d = Inr (n, d')" by simp
    obtain X k where X: "d' = d\<lparr>token_transfers := X, seq_transfer := k\<rparr>" using insert_frames(5) [OF i] by blast
    show ?thesis using xt.keys_after [OF i] by (simp add: X W_transfers grows_def same_other_tables_def)
  next
    case (W_traces rs)
    with assms have i: "insert_trace_logs rs d = Inr (n, d')" by simp
    obtain X k where X: "d' = d\<lparr>trace_logs := X, seq_trace := k\<rparr>" using insert_frames(7) [OF i] by blast
    show ?thesis using trace_logs_image [OF i] by (simp add: X W_traces grows_def same_other_tables_def)
  next
    case (W_failed rs)
    with assms have i: "insert_failed_transactions rs d = Inr (n, d')" by simp
    obtain X where X: "d' = d\<lparr>failed_transactions := X\<rparr>" using insert_frames(6) [OF i] by blast
    show ?thesis using ft.keys_after [OF i] by (simp add: X W_failed grows_def same_other_tables_def)
  qed
  then show "holds_write w d'" "grows d d'" "same_other_tables d d'" by simp_all
qed

section \<open>Running a task to its end\<close>

fun write_checked :: "db_write \<Rightarrow> bool" where
  "write_checked (W_blocks rs) = list_all block_check rs"
| "write_checked (W_transactions rs) = list_all transaction_check rs"
| "write_checked (W_swaps rs) = list_all swap_check rs"
| "write_checked (W_liquidity rs) = list_all liquidity_check rs"
| "write_checked (W_transfers rs) = list_all transfer_check rs"
| "write_checked (W_traces rs) = list_all trace_check rs"
| "write_checked (W_failed rs) = list_all failed_check rs"

fun write_refs :: "db_write \<Rightarrow> db \<Rightarrow> bool" where
  "write_refs (W_blocks rs) d = True"
| "write_refs (W_transactions rs) d = list_all (\<lambda>t. block_known d (t_block_number t)) rs"
| "write_refs (W_swaps rs) d = list_all (\<lambda>s. tx_known d (s_tx_hash s)) rs"
| "write_refs (W_liquidity rs) d = list_all (\<lambda>l. tx_known d (l_tx_hash l)) rs"
| "write_refs (W_transfers rs) d = list_all (\<lambda>x. tx_known d (x_tx_hash x)) rs"
| "write_refs (W_traces rs) d = list_all (\<lambda>g. tx_known d (g_tx_hash g)) rs"
| "write_refs (W_failed rs) d = list_all (\<lambda>f. tx_known d (f_tx_hash f)) rs"

lemma known_grows:
  "grows d d' \<Longrightarrow> block_known d n \<Longrightarrow> block_known d' n"
  "grows d d' \<Longrightarrow> tx_known d h \<Longrightarrow> tx_known d' h"
  by (auto simp: grows_def block_known_def tx_known_def)

lemma write_refs_grows: "write_refs w d \<Longrightarrow> grows d d' \<Longrightarrow> write_refs w d'"
  using known_grows by (cases w) (auto simp: list_all_iff)

lemma run_write_total:
  assumes "write_checked w" "write_refs w d"
  shows "\<exists>n d'. run_write w d = Inr (n, d')"
  using assms
    bt.ins_total tt.ins_total st.ins_total lt.ins_total xt.ins_total ft.ins_total
  by (cases w) (auto simp: list_all_iff insert_trace_logs_def)

definition step_ready :: "db \<Rightarrow> task_step \<Rightarrow> bool" where
  "step_ready d s \<longleftrightarrow> (case s of Abort \<Rightarrow> False | Write w \<Rightarrow> write_checked w \<and> write_refs w d)"

text \<open>A write whose rows are all there changes no keyed table.\<close>

definition same_keyed_tables :: "db \<Rightarrow> db \<Rightarrow> bool" where
  "same_keyed_tables d d' \<longleftrightarrow>
     blocks d' = blocks d \<and> transactions d' = transactions d \<and> swap_events d' = swap_events d
     \<and> liquidity_events d' = liquidity_events d \<and> token_transfers d' = token_transfers d
     \<and> failed_transactions d' = failed_transactions d"

fun trace_rows :: "task_step \<Rightarrow> trace_log list" where
  "trace_rows (Write (W_traces rs)) = rs"
| "trace_rows _ = []"

lemma rerun_write:
  assumes "run_write w d = Inr (n, d')" "holds_write w d"
  shows "same_keyed_tables d d' \<and> map unnumbered (trace_logs d') = map unnumbered (trace_logs d @ trace_rows (Write w))"
proof (cases w)
  case (W_blocks rs)
  with assms have i: "insert_blocks rs d = Inr (n, d')" by simp
  obtain X where X: "d' = d\<lparr>blocks := X\<rparr>" using insert_frames(1) [OF i] by blast
  show ?thesis using bt.reinsert [OF i] assms(2) by (simp add: X W_blocks same_keyed_tables_def)
next
  case (W_transactions rs)
  with assms have i: "insert_transactions rs d = Inr (n, d')" by simp
  obtain X where X: "d' = d\<lparr>transactions := X\<rparr>" using insert_frames(2) [OF i] by blast
  show ?thesis using tt.reinsert [OF i] assms(2) by (simp add: X W_transactions same_keyed_tables_def)
next
  case (W_swaps rs)
  with assms have i: "insert_swap_events rs d = Inr (n, d')" by simp
  obtain X k where X: "d' = d\<lparr>swap_events := X, seq_swap := k\<rparr>" using insert_frames(3) [OF i] by blast
  show ?thesis using st.reinsert [OF i] assms(2) by (simp add: X W_swaps same_keyed_tables_def)
next
  case (W_liquidity rs)
  with assms have i: "insert_liquidity_events rs d = Inr (n, d')" by simp
  obtain X k where X: "d' = d\<lparr>liquidity_events := X, seq_liquidity := k\<rparr>" using insert_frames(4) [OF i] by blast
  show ?thesis using lt.reinsert [OF i] assms(2) by (simp add: X W_liquidity same_keyed_tables_def)
next
  case (W_transfers rs)
  with assms have i: "insert_token_transfers rs d = Inr (n, d')" by simp
  obtain X k where X: "d' = d\<lparr>token_transfers := X, seq_transfer := k\<rparr>" using insert_frames(5) [OF i] by blast
  show ?thesis using xt.reinsert [OF i] assms(2) by (simp add: X W_transfers same_keyed_tables_def)
next
  case (W_traces rs)
  with assms have i: "insert_trace_logs rs d = Inr (n, d')" by simp
  obtain X k where X: "d' = d\<lparr>trace_logs := X, seq_trace := k\<rparr>" using insert_frames(7) [OF i] by blast
  show ?thesis using insert_trace_logs_rows [OF i] assms(2) by (simp add: X W_traces same_keyed_tables_def)
next
  case (W_failed rs)
  with assms have i: "insert_failed_transactions rs d = Inr (n, d')" by simp
  obtain X where X: "d' = d\<lparr>failed_transactions := X\<rparr>" using insert_frames(6) [OF i] by blast
  show ?thesis using ft.reinsert [OF i] assms(2) by (simp add: X W_failed same_keyed_tables_def)
qed

lemma rerun_steps:
  assumes "run_steps ss d = (True, d')" "list_all (\<lambda>s. holds_step s d) ss"
  shows "same_keyed_tables d d'
     \<and> map unnumbered (trace_logs d') = map unnumbered (trace_logs d @ concat (map trace_rows ss))"
  using assms
proof (induction ss d rule: run_steps.induct)
  case (3 w ss d)
  then obtain n e where e: "run_write w d = Inr (n, e)" "run_steps ss e = (True, d')"
    by (auto split: sum.splits)
  have "list_all (\<lambda>s. holds_step s e) ss"
    using 3(3) holds_step_grows [OF _ run_write_effect(2) [OF e(1)]] by (auto simp: list_all_iff)
  from "3.IH" [OF e(1) refl e(2) this] rerun_write [OF e(1)] 3(3) show ?case
    by (auto simp: same_keyed_tables_def)
qed (auto simp: same_keyed_tables_def)

section \<open>A block is stored\<close>

lemma decoded_tx_hash:
  "decode_log S ts da a tx ix t = Inr (Swap s) \<Longrightarrow> ds_tx_hash s = tx"
  "decode_log S ts da a tx ix t = Inr (Liquidity l) \<Longrightarrow> dl_tx_hash l = tx"
  "decode_log S ts da a tx ix t = Inr (Transfer x) \<Longrightarrow> dt_tx_hash x = tx"
  by (auto simp: decode_log_def event_decoder_defs bind_result_def Let_def
      split: list.splits if_splits sum.splits prod.splits)

lemma filter_ok_mem: "y \<in> set (filter_ok f xs) \<longleftrightarrow> (\<exists>x \<in> set xs. f x = Inr y)"
  by (induction xs) (auto split: sum.splits)

lemma log_events_tx:
  "Swap s \<in> set (log_events E t rc) \<Longrightarrow> ds_tx_hash s = rc_transaction_hash rc"
  "Liquidity l \<in> set (log_events E t rc) \<Longrightarrow> dl_tx_hash l = rc_transaction_hash rc"
  "Transfer x \<in> set (log_events E t rc) \<Longrightarrow> dt_tx_hash x = rc_transaction_hash rc"
  by (auto simp: log_events_def filter_ok_mem dest: decoded_tx_hash)

lemma rows_of_events:
  "r \<in> set (swaps_of es) \<longleftrightarrow> (\<exists>s. Swap s \<in> set es \<and> r = to_swap_model s)"
  "q \<in> set (liquidity_of es) \<longleftrightarrow> (\<exists>l. Liquidity l \<in> set es \<and> q = to_liquidity_model l)"
  "p \<in> set (transfers_of es) \<longleftrightarrow> (\<exists>x. Transfer x \<in> set es \<and> p = to_transfer_model x)"
  by (induction es rule: swaps_of.induct; auto)+

lemma failed_tx_of_hash: "failed_tx_of E h t frames = Return f \<Longrightarrow> f_tx_hash f = h"
  by (auto simp: failed_tx_of_def split: list.splits rust.splits)

lemma process_failed_Cons:
  assumes "process_failed_txs E N t (h # hs) = Return (traces, faileds)"
  shows "process_failed_txs E N t hs = Return (traces, faileds)
     \<or> (\<exists>fr f tr fa. failed_tx_of E h t fr = Return f \<and> process_failed_txs E N t hs = Return (tr, fa)
          \<and> traces = map (to_trace_log E h) fr @ tr \<and> faileds = f # fa)"
proof (cases "process_failed_txs E N t hs")
  case (Return p)
  obtain tr fa where p: "p = (tr, fa)" by fastforce
  from assms Return p show ?thesis
    by (simp add: Let_def split: if_splits sum.splits geth_trace.splits rust.splits) (elim conjE, metis)
qed (use assms in \<open>simp add: Let_def split: if_splits sum.splits geth_trace.splits rust.splits\<close>)

lemma process_failed_hashes:
  assumes "process_failed_txs E N t hs = Return (traces, faileds)"
  shows "g_tx_hash ` set traces \<subseteq> set hs \<and> f_tx_hash ` set faileds \<subseteq> set hs"
  using assms
proof (induction hs arbitrary: traces faileds)
  case (Cons h hs)
  from process_failed_Cons [OF Cons.prems] show ?case
  proof (elim disjE exE conjE)
    fix fr f tr fa
    assume h: "failed_tx_of E h t fr = Return f" "process_failed_txs E N t hs = Return (tr, fa)"
      "traces = map (to_trace_log E h) fr @ tr" "faileds = f # fa"
    from Cons.IH [OF h(2)] failed_tx_of_hash [OF h(1)] h(3,4) show ?thesis by (auto simp: to_trace_log_def)
  qed (use Cons.IH in auto)
qed simp

fun step_checked :: "task_step \<Rightarrow> bool" where
  "step_checked Abort = False"
| "step_checked (Write w) = write_checked w"

lemma ready_when_rows:
  "list_all (step_ready d) (when_rows rows W) \<longleftrightarrow>
     list_all step_checked (when_rows rows W) \<and> (rows \<noteq> [] \<longrightarrow> write_refs (W rows) d)"
  by (auto simp: when_rows_def step_ready_def)

text \<open>The writes after the transactions, and the hashes they refer to.\<close>

definition event_writes :: "ext \<Rightarrow> node \<Rightarrow> instant \<Rightarrow> rpc_receipt list \<Rightarrow> task_step list" where
  "event_writes E N timestamp receipts =
     (let events = concat (map (log_events E timestamp) receipts);
          failed_tx_hashes = map rc_transaction_hash (filter (\<lambda>r. \<not> rc_status r) receipts)
      in when_rows (swaps_of events) W_swaps
         @ when_rows (liquidity_of events) W_liquidity
         @ when_rows (transfers_of events) W_transfers
         @ (if failed_tx_hashes = [] then []
            else case process_failed_txs E N timestamp failed_tx_hashes of
                   Panic \<Rightarrow> [Abort]
                 | Return (traces, faileds) \<Rightarrow> when_rows traces W_traces @ when_rows faileds W_failed))"

lemma process_block_split:
  assumes "get_block_full N n = Inr blk" "get_block_receipts N n = Inr receipts"
  shows "process_block E N n =
     [Write (W_blocks [block_model E n blk])]
     @ when_rows (tx_models E n blk receipts) W_transactions
     @ event_writes E N (b_timestamp (block_model E n blk)) receipts"
  using assms by (simp add: process_block_def event_writes_def block_model_def Let_def)

lemma event_writes_ready:
  assumes "\<And>rc. rc \<in> set receipts \<Longrightarrow> tx_known d (rc_transaction_hash rc)"
    and "list_all step_checked (event_writes E N t receipts)"
  shows "list_all (step_ready d) (event_writes E N t receipts)"
proof -
  let ?ev = "concat (map (log_events E t) receipts)"
  have "write_refs (W_swaps (swaps_of ?ev)) d" "write_refs (W_liquidity (liquidity_of ?ev)) d"
    "write_refs (W_transfers (transfers_of ?ev)) d"
    using assms(1)
    by (auto simp: list_all_iff rows_of_events to_swap_model_def to_liquidity_model_def to_transfer_model_def
        dest!: log_events_tx)
  moreover have "write_refs (W_traces traces) d \<and> write_refs (W_failed faileds) d"
    if "process_failed_txs E N t (map rc_transaction_hash (filter (\<lambda>r. \<not> rc_status r) receipts)) = Return (traces, faileds)"
    for traces faileds
    using process_failed_hashes [OF that] assms(1) by (auto simp: list_all_iff)
  ultimately show ?thesis
    using assms(2) unfolding event_writes_def Let_def
    by (auto simp: ready_when_rows split: rust.splits)
qed

lemma tx_models_hashes:
  "length receipts \<le> length (hdr_transactions blk) \<Longrightarrow>
     map t_tx_hash (tx_models E n blk receipts) = map rc_transaction_hash receipts"
  by (rule nth_equalityI) (simp_all add: tx_models_def tx_model_def)

lemma tx_models_refs:
  "block_known d (u64_as_i64 n) \<Longrightarrow> write_refs (W_transactions (tx_models E n blk receipts)) d"
  by (auto simp: list_all_iff tx_models_def tx_model_def)

text \<open>A block the node serves whose rows fit the tables.\<close>

definition good_block :: "ext \<Rightarrow> node \<Rightarrow> u64 \<Rightarrow> bool" where
  "good_block E N n \<longleftrightarrow>
     (case (get_block_full N n, get_block_receipts N n) of
        (Inr blk, Inr receipts) \<Rightarrow>
          length receipts \<le> length (hdr_transactions blk) \<and> list_all step_checked (process_block E N n)
      | _ \<Rightarrow> False)"

text \<open>Every write of a plan is ready as soon as the writes before it hold, whatever else is in the
  database.\<close>

definition self_supporting :: "task_step list \<Rightarrow> bool" where
  "self_supporting plan \<longleftrightarrow>
     (\<forall>done s rest d. plan = done @ s # rest \<longrightarrow> list_all (\<lambda>s. holds_step s d) done \<longrightarrow> step_ready d s)"

lemma split_before:
  "xs @ ys = done @ s # rest \<Longrightarrow>
     (\<exists>us. xs = done @ s # us) \<or> (\<exists>us. done = xs @ us \<and> ys = us @ s # rest)"
  by (auto simp: append_eq_append_conv2 append_eq_Cons_conv)

lemma process_block_self_supporting:
  assumes "good_block E N n"
  shows "self_supporting (process_block E N n)"
  unfolding self_supporting_def
proof (intro allI impI)
  fix don s rest d
  assume plan: "process_block E N n = don @ s # rest" and held: "list_all (\<lambda>s. holds_step s d) don"
  obtain blk receipts where served: "get_block_full N n = Inr blk" "get_block_receipts N n = Inr receipts"
    "length receipts \<le> length (hdr_transactions blk)" "list_all step_checked (process_block E N n)"
    using assms by (auto simp: good_block_def split: sum.splits)
  let ?B = "[Write (W_blocks [block_model E n blk])]"
  let ?T = "when_rows (tx_models E n blk receipts) W_transactions"
  let ?R = "event_writes E N (b_timestamp (block_model E n blk)) receipts"
  have eq: "?B @ ?T @ ?R = don @ s # rest" using plan process_block_split [OF served(1,2), of E] by simp
  have checked: "list_all step_checked ?B" "list_all step_checked ?T" "list_all step_checked ?R"
    using served(4) process_block_split [OF served(1,2), of E] by simp_all
  from split_before [OF eq] show "step_ready d s"
  proof (elim disjE exE conjE)
    fix us assume "?B = don @ s # us"
    then have "s = Write (W_blocks [block_model E n blk])" by (simp add: Cons_eq_append_conv)
    with checked(1) show ?thesis by (simp add: step_ready_def)
  next
    fix us assume us: "don = ?B @ us" "?T @ ?R = us @ s # rest"
    have bk: "block_known d (u64_as_i64 n)" using held us(1) by (auto simp: block_known_def block_model_def)
    from split_before [OF us(2)] show ?thesis
    proof (elim disjE exE conjE)
      fix vs assume v: "?T = us @ s # vs"
      then have "s \<in> set ?T" by simp
      moreover have "list_all (step_ready d) ?T"
        using checked(2) tx_models_refs [OF bk] by (simp add: ready_when_rows)
      ultimately show ?thesis by (auto simp: list_all_iff)
    next
      fix vs assume v: "us = ?T @ vs" "?R = vs @ s # rest"
      then have "list_all (\<lambda>s. holds_step s d) ?T" using held us(1) by simp
      then have "t_tx_hash ` set (tx_models E n blk receipts) \<subseteq> t_tx_hash ` set (transactions d)"
        by (auto simp: when_rows_def split: if_splits)
      then have "tx_known d (rc_transaction_hash rc)" if "rc \<in> set receipts" for rc
        using that tx_models_hashes [OF served(3), of E n] unfolding tx_known_def
        by (metis (no_types, lifting) image_eqI list.set_map subsetD)
      from event_writes_ready [OF this checked(3)] have "list_all (step_ready d) ?R" .
      moreover have "s \<in> set ?R" using v(2) by simp
      ultimately show ?thesis by (auto simp: list_all_iff)
    qed
  qed
qed

lemma run_self_supporting:
  assumes "self_supporting (don @ ss)" "list_all (\<lambda>s. holds_step s d) don" "index_ok d"
  shows "\<exists>d'. run_steps ss d = (True, d') \<and> grows d d' \<and> index_ok d' \<and> same_other_tables d d'
     \<and> list_all (\<lambda>s. holds_step s d') (don @ ss)"
  using assms
proof (induction ss arbitrary: don d)
  case (Cons s ss)
  have "step_ready d s" using Cons.prems(1,2) unfolding self_supporting_def by blast
  then obtain w where w0: "s = Write w" "write_checked w" "write_refs w d" by (cases s) (auto simp: step_ready_def)
  then obtain n e where w: "s = Write w" "run_write w d = Inr (n, e)" using run_write_total by blast
  note eff = run_write_effect [OF w(2)]
  have "list_all (\<lambda>s. holds_step s e) (don @ [s])"
    using holds_steps_grow [OF Cons.prems(2) eff(2)] eff(1) w(1) by simp
  with Cons.IH [of "don @ [s]" e] Cons.prems(1) eff(3) [OF Cons.prems(3)]
  obtain d' where "run_steps ss e = (True, d')" "grows e d'" "index_ok d'" "same_other_tables e d'"
    "list_all (\<lambda>s. holds_step s d') (don @ s # ss)" by auto
  then show ?case using w eff(2,4) grows_trans by (auto simp: same_other_tables_def)
qed (auto simp: same_other_tables_def)

text \<open>C13: a processed block is stored, and storing it again adds nothing but trace rows.  For a
  block the node serves with its receipts (no more receipts than transactions), whose rows fit the
  column and row constraints and whose traces decode without panicking, the writes of
  \<^verbatim>\<open>process_block\<close> all succeed on any consistent database, in an order that meets every foreign key;
  afterwards every row of the block is present by its key.  Running the same block again succeeds,
  leaves every keyed table as it was, and appends each trace row a second time.\<close>

theorem process_block_stores:
  assumes "good_block E N n" "index_ok d"
  shows "\<exists>d' d''. run_steps (process_block E N n) d = (True, d') \<and> index_ok d' \<and> grows d d'
     \<and> same_other_tables d d'
     \<and> list_all (\<lambda>s. holds_step s d') (process_block E N n)
     \<and> run_steps (process_block E N n) d' = (True, d'') \<and> same_keyed_tables d' d''
     \<and> map unnumbered (trace_logs d'')
         = map unnumbered (trace_logs d' @ concat (map trace_rows (process_block E N n)))"
proof -
  note run = run_self_supporting [of "[]" "process_block E N n", simplified,
      OF process_block_self_supporting [OF assms(1)]]
  obtain d' where d': "run_steps (process_block E N n) d = (True, d')" "grows d d'" "index_ok d'"
    "same_other_tables d d'" "list_all (\<lambda>s. holds_step s d') (process_block E N n)"
    using run [OF assms(2)] by blast
  obtain d'' where "run_steps (process_block E N n) d' = (True, d'')"
    using run [OF d'(3)] by blast
  with d' rerun_steps [OF this d'(5)] show ?thesis by blast
qed

definition sample_receipt :: rpc_receipt where
  "sample_receipt = \<lparr>rc_transaction_hash = ''0xt'', rc_gas_used = 21000, rc_status = False, rc_logs = []\<rparr>"

definition sample_rpc_block :: rpc_block where
  "sample_rpc_block = \<lparr>hdr_timestamp = 1700000000, hdr_gas_used = 21000, hdr_hash = ''0xh'',
     hdr_parent_hash = ''0xp'',
     hdr_transactions = [\<lparr>tx_from = 1, tx_to = Some 2, tx_value = 5, tx_effective_gas_price = Some 7, tx_input = []\<rparr>]\<rparr>"

definition sample_trace :: json where
  "sample_trace = JObject [(''type'', JString ''CALL''), (''from'', JString ''0xAA''), (''gasUsed'', JString ''0x5208'')]"

definition sample_node :: node where
  "sample_node = \<lparr>get_block_full = (\<lambda>_. Inr sample_rpc_block), get_block_receipts = (\<lambda>_. Inr [sample_receipt]),
     debug_trace_transaction = (\<lambda>_. Inr (CallTracer (Inr sample_trace)))\<rparr>"

definition sample_ext :: ext where
  "sample_ext = \<lparr>ext_sol = sample_sol, from_timestamp = Some, bytes_display = (\<lambda>b. ''0x'' @ bytes_to_hex b),
     ext_hex_decode = (\<lambda>_. Inl ''odd''), parses_as_hash = (\<lambda>_. True)\<rparr>"

lemma sample_flattened:
  "parse_trace h sample_trace = Inr \<lparr>ft_tx_hash = h, ft_frames =
     [\<lparr>ff_depth = 0, ff_call_type = ''CALL'', ff_from = ''0xaa'', ff_to = None, ff_value = ''0'',
       ff_gas_used = 21000, ff_input = None, ff_output = None, ff_error = None\<rparr>]\<rparr>"
proof -
  have "to_lowercase ''0xAA'' = ''0xaa''" by code_simp
  moreover have "from_str_radix 64 16 (strip_0x ''0x5208'') = Some 21000"
    by (simp add: from_str_radix_def strip_0x_def strip_prefix_def digit_value_def)
  ultimately show ?thesis
    by (simp add: parse_trace_def parse_call_frame.simps flatten_call_frame.simps sample_trace_def
        get_str_def get_array_def flat_of_def value_decimal_def)
qed

lemma sample_plan:
  "process_block sample_ext sample_node 18 =
     [Write (W_blocks [block_model sample_ext 18 sample_rpc_block]),
      Write (W_transactions [tx_model sample_ext 18 (hd (hdr_transactions sample_rpc_block)) sample_receipt]),
      Write (W_traces [\<lparr>g_tx_hash = ''0xt'', g_call_depth = 0, g_call_type = ''CALL'', g_from_addr = ''0xaa'',
         g_to_addr = None, g_value = 0, g_gas_used = 21000, g_input = None, g_output = None,
         g_error = None, g_trace_id = 0\<rparr>]),
      Write (W_failed [\<lparr>f_tx_hash = ''0xt'', f_error_category = Unknown, f_revert_reason = None,
         f_failing_function = None, f_gas_used = 21000, f_timestamp = 1700000000\<rparr>])]"
proof -
  have "big_or_zero sample_ext ''0'' = 0"
    by (simp add: big_or_zero_def sample_ext_def sample_sol_def sample_decimal_def digit_value_def)
  then show ?thesis
    by (simp add: process_block_def sample_node_def sample_receipt_def sample_rpc_block_def tx_models_def
        when_rows_def log_events_def sample_flattened failed_tx_of_def revert_reason_of_def selector_of_def
        category_of_def to_trace_log_def sample_ext_def Let_def)
qed

lemma sample_display: "to_lowercase (address_display sample_sol 1) = ''0x1''" "to_lowercase (address_display sample_sol 2) = ''0x2''"
  by (simp_all add: sample_sol_def show_nat.simps hex_digit_def to_lowercase_def lower_char_def char_of_def bit_0)

lemma sample_decimals: "big_or_zero sample_ext (show_nat n) = int n"
  using sample_sol_reads
  by (simp add: big_or_zero_def sample_ext_def bigdecimal_reads_decimals_def show_int_def flip: nat_int)
    (metis of_nat_less_0_iff ok.simps(2) nat_int show_int_def unwrap_or.simps(2))

lemma sample_checked: "list_all step_checked (process_block sample_ext sample_node 18)"
proof -
  have e: "ext_sol sample_ext = sample_sol" by (simp add: sample_ext_def)
  show ?thesis
    unfolding sample_plan
    by (simp add: row_defs block_model_def tx_model_def sample_rpc_block_def sample_receipt_def e sample_display
        sample_decimals varchar_ok_def text_ok_def char_len_def numeric_ok_def opt_ok_def)
qed

theorem process_block_stores_witness:
  "\<exists>d' d''. run_steps (process_block sample_ext sample_node 18) empty_db = (True, d')
     \<and> ''0xt'' \<in> f_tx_hash ` set (failed_transactions d')
     \<and> run_steps (process_block sample_ext sample_node 18) d' = (True, d'')
     \<and> failed_transactions d'' = failed_transactions d'
     \<and> length (trace_logs d'') = Suc (length (trace_logs d'))"
proof -
  have s: "good_block sample_ext sample_node 18" "index_ok empty_db"
    using sample_checked
    by (simp_all add: good_block_def sample_node_def sample_rpc_block_def index_ok_defs empty_db_def)
  from process_block_stores [OF s] obtain d' d'' where
    r: "run_steps (process_block sample_ext sample_node 18) empty_db = (True, d')"
      "list_all (\<lambda>s. holds_step s d') (process_block sample_ext sample_node 18)"
      "run_steps (process_block sample_ext sample_node 18) d' = (True, d'')" "same_keyed_tables d' d''"
      "map unnumbered (trace_logs d'') = map unnumbered (trace_logs d' @ concat (map trace_rows (process_block sample_ext sample_node 18)))"
    by blast
  have "length (trace_logs d'') = Suc (length (trace_logs d'))"
    using arg_cong [OF r(5), of length] by (simp add: sample_plan)
  moreover have "''0xt'' \<in> f_tx_hash ` set (failed_transactions d')"
    using r(2) by (simp add: sample_plan)
  ultimately show ?thesis using r(1,3,4) by (auto simp: same_keyed_tables_def)
qed

text \<open>C34: the category stored for a failed transaction.  For a transaction whose root frame has a
  decodable output, the stored category is the one the classifier chose for the decoded reason when
  that is one of five (balance, generic slippage, deadline, authorisation, transfer); the four finer
  categories the classifier also produces (allowance, amount out, amount in, price impact) are all
  stored as unknown.\<close>

theorem stored_category:
  assumes "revert_reason_of E root_call = Return (Some reason)" "failed_tx_of E h t (root_call # rest) = Return f"
    and "classify_error reason = as_wire c"
  shows "f_revert_reason f = Some reason
     \<and> f_error_category f =
         (if c \<in> {InsufficientAllowance, SlippageAmountOut, SlippageAmountIn, SlippagePriceImpact}
          then Unknown else c)"
  using assms by (cases c) (auto simp: failed_tx_of_def category_of_def split: rust.splits)

definition allowance_frame :: flat_frame where
  "allowance_frame = \<lparr>ff_depth = 0, ff_call_type = ''CALL'', ff_from = ''0xaa'', ff_to = None, ff_value = ''0'',
     ff_gas_used = 0, ff_input = None, ff_output = Some ''0x01'', ff_error = None\<rparr>"

definition allowance_ext :: ext where
  "allowance_ext = sample_ext\<lparr>ext_hex_decode :=
     (\<lambda>_. Inr (encode_error_string [0x61, 0x6c, 0x6c, 0x6f, 0x77, 0x61, 0x6e, 0x63, 0x65] []))\<rparr>"

theorem stored_category_witness:
  "\<exists>f. failed_tx_of allowance_ext ''h'' 0 [allowance_frame] = Return f
     \<and> f_revert_reason f = Some ''allowance'' \<and> f_error_category f = Unknown"
proof -
  let ?msg = "[0x61, 0x6c, 0x6c, 0x6f, 0x77, 0x61, 0x6e, 0x63, 0x65] :: byte list"
  have m: "str_of_bytes ?msg = ''allowance''" by code_simp
  have v: "from_utf8_lossy ?msg = ?msg" by (intro from_utf8_lossy_valid utf8_valid_ascii) auto
  have d: "decode_revert_reason (encode_error_string ?msg []) = Return (Inr ''allowance'')"
    using decode_encoded_error [of ?msg "[]"] v m by simp
  have r: "revert_reason_of allowance_ext allowance_frame = Return (Some ''allowance'')"
    using d by (simp add: revert_reason_of_def allowance_ext_def allowance_frame_def)
  then obtain f where f: "failed_tx_of allowance_ext ''h'' 0 [allowance_frame] = Return f"
    by (simp add: failed_tx_of_def selector_of_def allowance_frame_def)
  have "classify_error ''allowance'' = as_wire InsufficientAllowance" by code_simp
  from stored_category [OF r f this] f show ?thesis by auto
qed

end
