(* ===== verification/Reorg.thy ===== *)
theory Reorg
  imports Rollback
begin

text \<open>
  The decisions of the follow loop (\<^verbatim>\<open>crates/indexer/src/worker.rs\<close>): the next range, its cap,
  the trigger mode, and the search for the fork point after a chain reorganisation.  The JSON-RPC
  node is a parameter: the outcome (after retries) of asking for the block at a height, with the
  formatted hash when there is one.  The fork search also returns the heights it asked for.
\<close>

section \<open>Ranges\<close>

definition cap_range_to :: "u64 \<Rightarrow> u64 \<Rightarrow> u64 \<Rightarrow> u64 \<times> u64" where
  "cap_range_to from to cap_blocks =
     (if cap_blocks = 0 \<or> to < from then (from, to)
      else
        let span = sat_add (sat_sub to from) 1 in
        if span \<le> cap_blocks then (from, to)
        else (from, sat_sub (sat_add from cap_blocks) 1))"

definition next_target :: "u64 \<Rightarrow> u64 \<Rightarrow> i64 option \<Rightarrow> (u64 \<times> u64) option" where
  "next_target head confirmations last_checkpoint =
     (let safe = sat_sub head confirmations;
          resume = (case last_checkpoint of Some c \<Rightarrow> sat_add (nat (max c 0)) 1 | None \<Rightarrow> safe)
      in if resume > safe then None else Some (resume, safe))"

definition REORG_SCAN_CAP :: i64 where
  "REORG_SCAN_CAP = 4096"

definition FOLLOW_CYCLE_BLOCK_CAP :: u64 where
  "FOLLOW_CYCLE_BLOCK_CAP = 500"

section \<open>Trigger mode\<close>

datatype trigger_mode = Polling | Subscribe string

fun label :: "trigger_mode \<Rightarrow> string" where
  "label Polling = ''polling''"
| "label (Subscribe _) = ''subscribe''"

definition resolve_trigger_mode :: "bool \<Rightarrow> string option \<Rightarrow> trigger_mode" where
  "resolve_trigger_mode subscribe ws_url =
     (case map_option trim ws_url of
        Some u \<Rightarrow> if subscribe \<and> u \<noteq> [] then Subscribe u else Polling
      | None \<Rightarrow> Polling)"

section \<open>The fork search\<close>

datatype fork_scan = NoReorg | Fork u64 | Inconclusive | NeedDeeper

text \<open>The loop of \<^verbatim>\<open>classify_fork\<close>: an early return on the left, or the last mismatch.\<close>

fun scan_window :: "(u64 \<Rightarrow> string option) \<Rightarrow> (u64 \<times> string) list \<Rightarrow> u64 option \<Rightarrow> fork_scan + u64 option" where
  "scan_window chain_hash_at [] last_mismatch = Inr last_mismatch"
| "scan_window chain_hash_at ((height, local_hash) # rest) last_mismatch =
     (case chain_hash_at height of
        None \<Rightarrow> Inl Inconclusive
      | Some chain_hash \<Rightarrow>
          if chain_hash = local_hash then
            Inl (case last_mismatch of Some f \<Rightarrow> Fork f | None \<Rightarrow> NoReorg)
          else scan_window chain_hash_at rest (Some height))"

definition classify_fork :: "(u64 \<times> string) list \<Rightarrow> (u64 \<Rightarrow> string option) \<Rightarrow> usize \<Rightarrow> fork_scan" where
  "classify_fork local chain_hash_at depth =
     (let n = min depth (length local) in
      if n = 0 then NoReorg
      else
        case scan_window chain_hash_at (take n local) None of
          Inl r \<Rightarrow> r
        | Inr last_mismatch \<Rightarrow>
            if n < length local then NeedDeeper
            else (case last_mismatch of Some f \<Rightarrow> Fork f | None \<Rightarrow> NoReorg))"

definition next_scan_depth :: "usize \<Rightarrow> usize \<Rightarrow> usize" where
  "next_scan_depth current max_depth =
     (if current \<ge> max_depth then max_depth
      else clamp (sat_mul current 4) (current + 1) max_depth)"

type_synonym rpc_hash = "u64 \<Rightarrow> string + string option"
type_synonym hash_cache = "u64 \<rightharpoonup> string"

text \<open>The lazy fetch of a window: heights already in the cache are skipped; an absent block or a
  failed request ends the search.\<close>

fun fetch_window :: "rpc_hash \<Rightarrow> (u64 \<times> string) list \<Rightarrow> hash_cache \<Rightarrow> u64 list \<Rightarrow> hash_cache option \<times> u64 list" where
  "fetch_window rpc [] chain calls = (Some chain, calls)"
| "fetch_window rpc ((h, _) # rest) chain calls =
     (if chain h \<noteq> None then fetch_window rpc rest chain calls
      else
        case rpc h of
          Inr (Some hash) \<Rightarrow> fetch_window rpc rest (chain(h \<mapsto> hash)) (calls @ [h])
        | _ \<Rightarrow> (None, calls @ [h]))"

lemma scan_window_not_deeper: "scan_window c xs m \<noteq> Inl NeedDeeper"
  by (induction xs arbitrary: m) (auto split: option.splits if_splits)

lemma classify_fork_deeper: "classify_fork local c depth = NeedDeeper \<Longrightarrow> depth < length local"
  using scan_window_not_deeper
  by (auto simp: classify_fork_def Let_def split: if_splits sum.splits option.splits)

lemma next_scan_depth_progress:
  assumes "current < max_depth" "max_depth < 2 ^ 64"
  shows "current < next_scan_depth current max_depth \<and> next_scan_depth current max_depth \<le> max_depth"
  using assms by (auto simp: next_scan_depth_def clamp_def)

lemma next_window_shrinks:
  assumes "classify_fork local c depth = NeedDeeper" "next_scan_depth depth (length local) \<noteq> depth"
  shows "length local - next_scan_depth depth (length local) < length local - depth"
  using classify_fork_deeper [OF assms(1)] assms(2)
  by (auto simp: next_scan_depth_def clamp_def split: if_splits)

function detect_loop ::
    "rpc_hash \<Rightarrow> (u64 \<times> string) list \<Rightarrow> hash_cache \<Rightarrow> usize \<Rightarrow> u64 list \<Rightarrow> u64 option \<times> u64 list" where
  "detect_loop rpc local chain depth calls =
     (case fetch_window rpc (take (min depth (length local)) local) chain calls of
        (None, calls') \<Rightarrow> (None, calls')
      | (Some chain', calls') \<Rightarrow>
          (case classify_fork local chain' depth of
             NoReorg \<Rightarrow> (None, calls')
           | Inconclusive \<Rightarrow> (None, calls')
           | Fork f \<Rightarrow> (Some f, calls')
           | NeedDeeper \<Rightarrow>
               let next = next_scan_depth depth (length local) in
               if next = depth then (Some (fst (local ! (length local - 1))), calls')
               else detect_loop rpc local chain' next calls'))"
  by pat_completeness auto
termination
  by (relation "measure (\<lambda>(_, local, _, depth, _). length local - depth)") (auto dest: next_window_shrinks)

declare detect_loop.simps [simp del]

definition detect_fork :: "rpc_hash \<Rightarrow> i64 \<Rightarrow> db \<Rightarrow> db_error + (u64 option \<times> u64 list)" where
  "detect_fork rpc cap d =
     (case recent_block_hashes cap d of
        Inl e \<Rightarrow> Inl e
      | Inr (rows, _) \<Rightarrow>
          let local = map (\<lambda>(n, h). (i64_as_u64 n, h)) rows in
          if local = [] then Inr (None, [])
          else Inr (detect_loop rpc local Map.empty 1 []))"

section \<open>The fork point\<close>

text \<open>A height certainly differs when the node answered with another hash, and agrees when it
  answered with the stored one.  The fork point is the lowest of the differing heights at the tip,
  provided the next height below agrees or there is none.\<close>

definition differs :: "rpc_hash \<Rightarrow> u64 \<times> string \<Rightarrow> bool" where
  "differs rpc x \<longleftrightarrow> (case rpc (fst x) of Inr (Some h) \<Rightarrow> h \<noteq> snd x | _ \<Rightarrow> False)"

definition agrees :: "rpc_hash \<Rightarrow> u64 \<times> string \<Rightarrow> bool" where
  "agrees rpc x \<longleftrightarrow> rpc (fst x) = Inr (Some (snd x))"

definition answered :: "rpc_hash \<Rightarrow> u64 \<Rightarrow> bool" where
  "answered rpc h \<longleftrightarrow> (\<exists>x. rpc h = Inr (Some x))"

definition fork_point :: "rpc_hash \<Rightarrow> (u64 \<times> string) list \<Rightarrow> u64 option" where
  "fork_point rpc local =
     (let bad = takeWhile (differs rpc) local; rest = dropWhile (differs rpc) local in
      if bad = [] \<or> (rest \<noteq> [] \<and> \<not> agrees rpc (hd rest)) then None else Some (fst (last bad)))"

definition sound_cache :: "rpc_hash \<Rightarrow> hash_cache \<Rightarrow> bool" where
  "sound_cache rpc chain \<longleftrightarrow> (\<forall>h x. chain h = Some x \<longrightarrow> rpc h = Inr (Some x))"

definition fetched :: "rpc_hash \<Rightarrow> hash_cache \<Rightarrow> u64 list \<Rightarrow> bool" where
  "fetched rpc chain calls \<longleftrightarrow> sound_cache rpc chain \<and> distinct calls \<and> set calls = dom chain"

lemma fetched_step:
  "fetched rpc chain calls \<Longrightarrow> chain h = None \<Longrightarrow> rpc h = Inr (Some x)
     \<Longrightarrow> fetched rpc (chain(h \<mapsto> x)) (calls @ [h])"
  by (auto simp: fetched_def sound_cache_def)

lemma fetch_window_Some:
  assumes "fetch_window rpc w chain calls = (Some chain', calls')" "fetched rpc chain calls"
  shows "fetched rpc chain' calls' \<and> dom chain' = dom chain \<union> fst ` set w"
  using assms
proof (induction w arbitrary: chain calls)
  case (Cons a w)
  obtain h l where a: "a = (h, l)" by fastforce
  show ?case
  proof (cases "chain h")
    case None
    with Cons.prems a obtain x where x: "rpc h = Inr (Some x)"
      "fetch_window rpc w (chain(h \<mapsto> x)) (calls @ [h]) = (Some chain', calls')"
      by (auto split: sum.splits option.splits)
    from Cons.IH [OF x(2) fetched_step [OF Cons.prems(2) None x(1)]] show ?thesis
      by (simp add: a del: fun_upd_apply)
  next
    case (Some y)
    with Cons a show ?thesis by auto
  qed
qed simp

lemma fetch_window_None:
  assumes "fetch_window rpc w chain calls = (None, calls')" "fetched rpc chain calls"
  shows "(\<exists>h \<in> fst ` set w. \<not> answered rpc h)
     \<and> distinct calls' \<and> set calls' \<subseteq> dom chain \<union> fst ` set w"
  using assms
proof (induction w arbitrary: chain calls)
  case (Cons a w)
  obtain h l where a: "a = (h, l)" by fastforce
  show ?case
  proof (cases "chain h")
    case None
    show ?thesis
    proof (cases "answered rpc h")
      case True
      with Cons.prems a None obtain x where x: "rpc h = Inr (Some x)"
        "fetch_window rpc w (chain(h \<mapsto> x)) (calls @ [h]) = (None, calls')"
        by (auto simp: answered_def)
      from Cons.IH [OF x(2) fetched_step [OF Cons.prems(2) None x(1)]] show ?thesis by (auto simp: a)
    next
      case False
      then have "calls' = calls @ [h]"
        using Cons.prems(1) None a by (auto simp: answered_def split: sum.splits option.splits)
      with False Cons.prems(2) None a show ?thesis by (auto simp: fetched_def)
    qed
  next
    case (Some y)
    with Cons a show ?thesis by auto
  qed
qed simp

lemma scan_window_spec:
  assumes "sound_cache rpc chain" "fst ` set w \<subseteq> dom chain"
  shows "scan_window chain w m =
     (let bad = takeWhile (differs rpc) w; lm = (if bad = [] then m else Some (fst (last bad))) in
      if bad = w then Inr lm else Inl (case lm of Some f \<Rightarrow> Fork f | None \<Rightarrow> NoReorg))"
  using assms(2)
proof (induction w arbitrary: m)
  case (Cons a w)
  obtain h l where a: "a = (h, l)" by fastforce
  with Cons.prems obtain x where x: "chain h = Some x" by auto
  then have r: "rpc h = Inr (Some x)" using assms(1) by (simp add: sound_cache_def)
  have d: "differs rpc (h, l) \<longleftrightarrow> x \<noteq> l" using r by (simp add: differs_def)
  show ?case
  proof (cases "x = l")
    case True
    with d x show ?thesis by (simp add: a Let_def)
  next
    case False
    with Cons.IH [of "Some h"] Cons.prems d x show ?thesis
      by (simp add: a Let_def del: takeWhile_eq_all_conv)
  qed
qed simp

lemma classify_fork_window:
  assumes "sound_cache rpc chain" "fst ` set (take depth local) \<subseteq> dom chain" "0 < depth" "local \<noteq> []"
  defines "bad \<equiv> takeWhile (differs rpc) (take depth local)"
  shows "classify_fork local chain depth =
     (if length bad < min depth (length local)
      then (if bad = [] then NoReorg else Fork (fst (last bad)))
      else if depth < length local then NeedDeeper else Fork (fst (last local)))"
proof -
  define w where "w = take depth local"
  have w: "take (min depth (length local)) local = w" "length w = min depth (length local)" "w \<noteq> []"
    using assms(3,4) by (simp_all add: w_def min_def)
  have b: "bad = takeWhile (differs rpc) w" by (simp add: bad_def w_def)
  have scan: "scan_window chain w None =
      (let lm = (if bad = [] then None else Some (fst (last bad))) in
       if bad = w then Inr lm else Inl (case lm of Some f \<Rightarrow> Fork f | None \<Rightarrow> NoReorg))"
    using scan_window_spec [OF assms(1,2)] unfolding b by (simp add: w_def)
  have n0: "min depth (length local) \<noteq> 0" using w(2,3) by (metis length_0_conv)
  show ?thesis
  proof (cases "bad = w")
    case True
    have "w = local" if "\<not> depth < length local" using that by (simp add: w_def)
    with True w n0 scan show ?thesis by (auto simp: classify_fork_def Let_def)
  next
    case False
    have "length bad < length w"
      using False unfolding b by (metis length_takeWhile_le nat_less_le takeWhile_eq_take take_all_iff)
    with False w n0 scan show ?thesis by (auto simp: classify_fork_def Let_def)
  qed
qed

lemma takeWhile_take_short:
  "length (takeWhile P (take n xs)) < min n (length xs) \<Longrightarrow> takeWhile P (take n xs) = takeWhile P xs"
  by (induction xs arbitrary: n) (auto simp: take_Cons split: nat.splits if_splits)

lemma takeWhile_take_full:
  "\<not> length (takeWhile P (take n xs)) < min n (length xs) \<Longrightarrow> min n (length xs) \<le> length (takeWhile P xs)"
  by (induction xs arbitrary: n) (auto simp: take_Cons split: nat.splits if_splits)

lemma fork_point_window:
  assumes "sound_cache rpc chain" "fst ` set (take depth local) \<subseteq> dom chain"
  defines "bad \<equiv> takeWhile (differs rpc) (take depth local)"
  assumes short: "length bad < min depth (length local)"
  shows "fork_point rpc local = (if bad = [] then None else Some (fst (last bad)))"
proof -
  let ?k = "length bad"
  have bad: "takeWhile (differs rpc) local = bad" using takeWhile_take_short short unfolding bad_def by metis
  then have rest: "dropWhile (differs rpc) local = drop ?k local" by (metis dropWhile_eq_drop)
  have k: "?k < length local" "?k < depth" using short by simp_all
  then have "local ! ?k \<in> set (take depth local)" by (metis length_take min_less_iff_conj nth_mem nth_take)
  then obtain x where x: "chain (fst (local ! ?k)) = Some x" using assms(2) by force
  then have r: "rpc (fst (local ! ?k)) = Inr (Some x)" using assms(1) by (simp add: sound_cache_def)
  have "\<not> differs rpc (local ! ?k)" using bad k(1) by (metis nth_length_takeWhile)
  then have "agrees rpc (local ! ?k)" using r by (simp add: differs_def agrees_def)
  then show ?thesis
    using k by (auto simp: fork_point_def Let_def bad rest hd_drop_conv_nth)
qed

lemma window_calls_le:
  assumes "distinct cs" "set cs \<subseteq> fst ` set (take depth local)"
  shows "length cs \<le> depth"
proof -
  have "length cs = card (set cs)" using assms(1) by (simp add: distinct_card)
  also have "\<dots> \<le> card (fst ` set (take depth local))" by (intro card_mono assms(2)) simp
  also have "\<dots> \<le> length (take depth local)" by (meson card_image_le card_length finite_set le_trans)
  finally show ?thesis by simp
qed

definition search_ok :: "rpc_hash \<Rightarrow> (u64 \<times> string) list \<Rightarrow> u64 option \<Rightarrow> u64 list \<Rightarrow> bool" where
  "search_ok rpc local r cs \<longleftrightarrow>
     (r = None \<or> r = fork_point rpc local)
     \<and> ((\<forall>x \<in> set local. answered rpc (fst x)) \<longrightarrow> r = fork_point rpc local)
     \<and> distinct cs \<and> set cs \<subseteq> fst ` set local
     \<and> length cs \<le> max 1 (4 * length (takeWhile (differs rpc) local))"

lemma detect_loop_ok:
  assumes "fetched rpc chain calls" "dom chain \<subseteq> fst ` set (take depth local)" "0 < depth" "local \<noteq> []"
    "depth \<le> max 1 (4 * length (takeWhile (differs rpc) local))" "length local < 2 ^ 64"
  shows "search_ok rpc local (fst (detect_loop rpc local chain depth calls)) (snd (detect_loop rpc local chain depth calls))"
  using assms
proof (induction rpc local chain depth calls rule: detect_loop.induct)
  case (1 rpc local chain depth calls)
  let ?w = "take depth local"
  have w: "take (min depth (length local)) local = ?w" by (simp add: min_def)
  have sub: "fst ` set ?w \<subseteq> fst ` set local" by (meson image_mono set_take_subset)
  obtain res calls' where fw: "fetch_window rpc ?w chain calls = (res, calls')" by fastforce
  have bound: "length cs \<le> max 1 (4 * length (takeWhile (differs rpc) local))"
    if "distinct cs" "set cs \<subseteq> fst ` set ?w" for cs
    using window_calls_le [OF that] "1.prems"(5) by simp
  show ?case
  proof (cases res)
    case None
    note fail = fetch_window_None [OF fw [unfolded None] "1.prems"(1)]
    then have "\<exists>h \<in> fst ` set ?w. \<not> answered rpc h" "distinct calls'" "set calls' \<subseteq> fst ` set ?w"
      using "1.prems"(2) by blast+
    moreover from this(1) have "\<not> (\<forall>x \<in> set local. answered rpc (fst x))" by (auto dest: in_set_takeD)
    ultimately show ?thesis using fw None bound sub
      by (auto simp: detect_loop.simps [of rpc local] w search_ok_def)
  next
    case (Some chain')
    from fetch_window_Some [of rpc ?w chain calls chain' calls'] fw Some "1.prems"(1,2)
    have f: "fetched rpc chain' calls'" "dom chain' = fst ` set ?w" by auto
    then have s: "sound_cache rpc chain'" "fst ` set ?w \<subseteq> dom chain'" "distinct calls'" "set calls' \<subseteq> fst ` set ?w"
      by (auto simp: fetched_def)
    let ?bad = "takeWhile (differs rpc) ?w"
    note cf = classify_fork_window [OF s(1,2) "1.prems"(3,4)]
    show ?thesis
    proof (cases "length ?bad < min depth (length local)")
      case True
      with cf fork_point_window [OF s(1,2) True] fw Some s(3,4) bound sub show ?thesis
        by (auto simp: detect_loop.simps [of rpc local] w search_ok_def)
    next
      case False
      note full = takeWhile_take_full [OF False]
      show ?thesis
      proof (cases "depth < length local")
        case True
        let ?n = "next_scan_depth depth (length local)"
        have n: "depth < ?n" "?n \<le> length local"
          using next_scan_depth_progress [OF True "1.prems"(6)] by simp_all
        have "?n \<le> 4 * depth" using "1.prems"(3) True by (auto simp: next_scan_depth_def clamp_def sat_mul_def)
        then have b: "?n \<le> max 1 (4 * length (takeWhile (differs rpc) local))" using full True by simp
        have "fst ` set ?w \<subseteq> fst ` set (take ?n local)"
          using n(1) by (intro image_mono set_take_subset_set_take) simp
        with f(2) have d: "dom chain' \<subseteq> fst ` set (take ?n local)" by simp
        have deeper: "classify_fork local chain' depth = NeedDeeper" using cf False True by simp
        have "search_ok rpc local (fst (detect_loop rpc local chain' ?n calls')) (snd (detect_loop rpc local chain' ?n calls'))"
          by (rule "1.IH" [OF _ _ deeper]) (use fw Some n f(1) d b "1.prems" in \<open>simp_all add: w\<close>)
        with fw Some deeper n(1) show ?thesis by (simp add: detect_loop.simps [of rpc local chain] w Let_def)
      next
        case shallow: False
        then have tw: "takeWhile (differs rpc) local = local"
          using full by (metis length_takeWhile_le le_antisym min.absorb2 not_less takeWhile_eq_take take_all_iff)
        then have dw: "dropWhile (differs rpc) local = []" by simp
        have "fork_point rpc local = Some (fst (last local))"
          unfolding fork_point_def Let_def tw dw using "1.prems"(4) by simp
        with cf False shallow fw Some s(3,4) bound sub show ?thesis
          by (auto simp: detect_loop.simps [of rpc local] w search_ok_def)
      qed
    qed
  qed
qed

section \<open>The search over the stored blocks\<close>

definition local_hashes :: "i64 \<Rightarrow> db \<Rightarrow> (u64 \<times> string) list" where
  "local_hashes cap d =
     map (\<lambda>b. (i64_as_u64 (b_block_number b), the (b_block_hash b)))
       (take (nat cap) (sort_key (\<lambda>b. - b_block_number b) (filter (\<lambda>b. b_block_hash b \<noteq> None) (blocks d))))"

definition numbers_ok :: "db \<Rightarrow> bool" where
  "numbers_ok d \<longleftrightarrow> list_all (\<lambda>b. 0 \<le> b_block_number b \<and> b_block_number b < 2 ^ 63) (blocks d)"

lemma detect_fork_unfold:
  assumes "0 \<le> cap"
  shows "detect_fork rpc cap d =
     Inr (if local_hashes cap d = [] then (None, []) else detect_loop rpc (local_hashes cap d) Map.empty 1 [])"
  using assms by (simp add: detect_fork_def recent_block_hashes_def pg_limit_def local_hashes_def Let_def comp_def)

lemma detect_fork_ok:
  assumes "0 \<le> cap" "cap < 2 ^ 63"
  shows "\<exists>r calls. detect_fork rpc cap d = Inr (r, calls) \<and> search_ok rpc (local_hashes cap d) r calls"
proof (cases "local_hashes cap d = []")
  case True
  then show ?thesis by (simp add: detect_fork_unfold [OF assms(1)] search_ok_def fork_point_def)
next
  case False
  have "length (local_hashes cap d) \<le> nat cap" by (simp add: local_hashes_def)
  also have "\<dots> < 2 ^ 64" using assms by (simp add: nat_less_iff)
  finally have "search_ok rpc (local_hashes cap d) (fst (detect_loop rpc (local_hashes cap d) Map.empty 1 []))
      (snd (detect_loop rpc (local_hashes cap d) Map.empty 1 []))"
    using False by (intro detect_loop_ok) (auto simp: fetched_def sound_cache_def)
  with False show ?thesis by (simp add: detect_fork_unfold [OF assms(1)] prod_eq_iff)
qed

lemma sorted_desc_heights:
  assumes "keys_ok d" "numbers_ok d"
  shows "sorted_wrt (\<lambda>x y. fst y < fst x) (local_hashes cap d)"
proof -
  let ?f = "filter (\<lambda>b. b_block_hash b \<noteq> None) (blocks d)"
  let ?s = "sort_key (\<lambda>b. - b_block_number b) ?f"
  have "distinct (map (\<lambda>b. - b_block_number b) ?f)"
    using assms(1) by (auto simp: keys_ok_def distinct_map inj_on_def)
  then have "distinct (map (\<lambda>b. - b_block_number b) ?s)" by (simp add: distinct_map inj_on_def distinct_sort)
  moreover have "sorted (map (\<lambda>b. - b_block_number b) ?s)" by simp
  ultimately have "sorted_wrt (<) (map (\<lambda>b. - b_block_number b) ?s)" using strict_sorted_iff by blast
  then have "sorted_wrt (\<lambda>a b. b_block_number b < b_block_number a) ?s" by (simp add: sorted_wrt_map)
  moreover have "0 \<le> b_block_number b \<and> b_block_number b < 2 ^ 63" if "b \<in> set ?s" for b
    using that assms(2) by (auto simp: numbers_ok_def list_all_iff)
  moreover have "i64_as_u64 a < i64_as_u64 b" if "0 \<le> a" "a < b" "b < 2 ^ 63" for a b
    using that by (simp add: i64_as_u64_def)
  ultimately have "sorted_wrt (\<lambda>a b. i64_as_u64 (b_block_number b) < i64_as_u64 (b_block_number a)) ?s"
    by (metis (no_types, lifting) sorted_wrt_mono_rel)
  then have "sorted_wrt (\<lambda>a b. i64_as_u64 (b_block_number b) < i64_as_u64 (b_block_number a)) (take (nat cap) ?s)"
    by (rule sorted_wrt_take)
  then show ?thesis by (simp add: local_hashes_def sorted_wrt_map)
qed

lemma sorted_desc_split:
  assumes "sorted_wrt (\<lambda>x y. fst y < (fst x :: nat)) (bad @ rest)" "bad \<noteq> []"
  shows "x \<in> set rest \<Longrightarrow> fst x < fst (last bad)"
    and "x \<in> set bad \<Longrightarrow> fst (last bad) \<le> fst x"
    and "x \<in> set rest \<Longrightarrow> fst x \<le> fst (hd rest)"
proof -
  show "x \<in> set rest \<Longrightarrow> fst x < fst (last bad)" using assms by (auto simp: sorted_wrt_append)
  obtain b ys where b: "bad = ys @ [b]" using assms(2) by (metis append_butlast_last_id)
  then show "x \<in> set bad \<Longrightarrow> fst (last bad) \<le> fst x" using assms(1) by (auto simp: sorted_wrt_append)
  show "x \<in> set rest \<Longrightarrow> fst x \<le> fst (hd rest)"
    using assms(1) by (cases rest) (auto simp: sorted_wrt_append)
qed

lemma fork_point_evidence:
  assumes "sorted_wrt (\<lambda>x y. fst y < fst x) local" "fork_point rpc local = Some f"
  shows "(\<exists>l. (f, l) \<in> set local) \<and> (\<forall>x \<in> set local. f \<le> fst x \<longrightarrow> differs rpc x)
     \<and> (\<forall>x \<in> set local. fst x < f \<longrightarrow> (\<exists>y \<in> set local. fst x \<le> fst y \<and> fst y < f \<and> agrees rpc y))"
proof -
  obtain bad rest where br: "bad = takeWhile (differs rpc) local" "rest = dropWhile (differs rpc) local" by simp
  then have split: "local = bad @ rest" by simp
  have bad: "bad \<noteq> []" "f = fst (last bad)" "rest \<noteq> [] \<Longrightarrow> agrees rpc (hd rest)"
    using assms(2) unfolding fork_point_def Let_def br [symmetric] by (auto split: if_splits)
  note S = sorted_desc_split [OF assms(1) [unfolded split] bad(1)]
  have d: "differs rpc x" if "x \<in> set bad" for x using that br(1) by (auto dest: set_takeWhileD)
  have "last bad \<in> set local" using bad(1) split by simp
  moreover have "differs rpc x" if "x \<in> set local" "f \<le> fst x" for x
    using that S(1) [of x] d bad(2) split by (metis Un_iff leD set_append)
  moreover have "\<exists>y \<in> set local. fst x \<le> fst y \<and> fst y < f \<and> agrees rpc y" if "x \<in> set local" "fst x < f" for x
  proof -
    have x: "x \<in> set rest" using that S(2) [of x] bad(2) split by (metis Un_iff leD set_append)
    then have "hd rest \<in> set rest" "agrees rpc (hd rest)" using bad(3) by (cases rest; auto)+
    with S(1,3) x bad(2) split show ?thesis by (intro bexI [of _ "hd rest"]) auto
  qed
  ultimately show ?thesis using bad(2) by (metis prod.collapse)
qed

text \<open>C8: the fork search finds the fork point, and never rolls back without evidence.  Over the
  stored hashes (at most \<open>cap\<close> of them, newest first) the search returns; when it returns a height,
  the node answered with a different hash for every stored height from there to the tip, and just
  below it the highest stored height agrees or nothing is stored; when the node answers every
  request the result is exactly the fork point; a request is never repeated, only stored heights
  are asked, and their number is at most four times the depth of the disagreement (one when the
  tip agrees).\<close>

theorem detect_fork_correct:
  assumes "0 \<le> cap" "cap < 2 ^ 63" "keys_ok d" "numbers_ok d"
  defines "local \<equiv> local_hashes cap d"
  shows "\<exists>r calls. detect_fork rpc cap d = Inr (r, calls)
     \<and> (\<forall>f. r = Some f \<longrightarrow>
          (\<exists>l. (f, l) \<in> set local) \<and> (\<forall>x \<in> set local. f \<le> fst x \<longrightarrow> differs rpc x)
          \<and> (\<forall>x \<in> set local. fst x < f \<longrightarrow> (\<exists>y \<in> set local. fst x \<le> fst y \<and> fst y < f \<and> agrees rpc y)))
     \<and> ((\<forall>x \<in> set local. answered rpc (fst x)) \<longrightarrow> r = fork_point rpc local)
     \<and> distinct calls \<and> set calls \<subseteq> fst ` set local
     \<and> length calls \<le> max 1 (4 * length (takeWhile (differs rpc) local))"
proof -
  obtain r calls where r: "detect_fork rpc cap d = Inr (r, calls)" "search_ok rpc local r calls"
    using detect_fork_ok [OF assms(1,2)] unfolding local_def by blast
  have "(\<exists>l. (f, l) \<in> set local) \<and> (\<forall>x \<in> set local. f \<le> fst x \<longrightarrow> differs rpc x)
      \<and> (\<forall>x \<in> set local. fst x < f \<longrightarrow> (\<exists>y \<in> set local. fst x \<le> fst y \<and> fst y < f \<and> agrees rpc y))"
    if "r = Some f" for f
  proof (rule fork_point_evidence)
    show "sorted_wrt (\<lambda>x y. fst y < fst x) local"
      unfolding local_def by (rule sorted_desc_heights [OF assms(3,4)])
    show "fork_point rpc local = Some f" using r(2) that by (auto simp: search_ok_def)
  qed
  with r show ?thesis by (auto simp: search_ok_def)
qed

definition sample_rpc :: rpc_hash where
  "sample_rpc h = (if h = 11 then Inr (Some ''other'') else if h = 10 then Inr (Some ''h10'') else Inl ''timeout'')"

theorem detect_fork_correct_witness:
  "\<exists>calls. detect_fork sample_rpc REORG_SCAN_CAP sample_db = Inr (Some 11, calls) \<and> length calls \<le> 4"
proof -
  have l: "local_hashes REORG_SCAN_CAP sample_db = [(11, ''h11''), (10, ''h10'')]"
    by (simp add: local_hashes_def REORG_SCAN_CAP_def sample_db_def empty_db_def sample_block_def i64_as_u64_def)
  have h: "0 \<le> REORG_SCAN_CAP" "REORG_SCAN_CAP < 2 ^ 63" "keys_ok sample_db" "numbers_ok sample_db"
    using sample_db_ok
    by (simp_all add: REORG_SCAN_CAP_def index_ok_def numbers_ok_def sample_db_def sample_block_def empty_db_def)
  have f: "fork_point sample_rpc [(11, ''h11''), (10, ''h10'')] = Some 11"
    by (simp add: fork_point_def differs_def agrees_def sample_rpc_def)
  have a: "answered sample_rpc 11" "answered sample_rpc 10" by (simp_all add: answered_def sample_rpc_def)
  have t: "length (takeWhile (differs sample_rpc) [(11, ''h11''), (10, ''h10'')]) = 1"
    by (simp add: differs_def sample_rpc_def)
  from detect_fork_correct [OF h, of sample_rpc] show ?thesis
    unfolding l using f a t by auto
qed

section \<open>Range decisions\<close>

text \<open>The next range is the confirmed part of the chain that is not indexed yet.  Whenever a
  range is returned it starts right after the checkpoint (at the confirmed head when there is
  none), ends at the confirmed head, and is not empty; nothing is returned exactly when the
  checkpoint has reached the confirmed head.  Capping keeps the start, never extends the end, and
  leaves between 1 and \<open>cap\<close> blocks.\<close>

lemma next_target_capped:
  fixes head confirmations cap_blocks :: u64 and last_checkpoint :: "i64 option"
  assumes "head < 2 ^ 64" "0 < cap_blocks" "cap_blocks < 2 ^ 63"
    and "\<forall>c. last_checkpoint = Some c \<longrightarrow> c < 2 ^ 63 - 1"
  defines "safe \<equiv> head - confirmations"
  shows "case next_target head confirmations last_checkpoint of
      None \<Rightarrow> (\<exists>c. last_checkpoint = Some c \<and> int safe \<le> max c 0)
    | Some (from, to) \<Rightarrow>
        to = safe \<and> from \<le> to
        \<and> (case last_checkpoint of None \<Rightarrow> from = safe | Some c \<Rightarrow> int from = max c 0 + 1)
        \<and> (case cap_range_to from to cap_blocks of (from', to') \<Rightarrow>
             from' = from \<and> from' \<le> to' \<and> to' \<le> to \<and> to' - from' + 1 \<le> cap_blocks
             \<and> (to - from + 1 \<le> cap_blocks \<longrightarrow> to' = to)
             \<and> (cap_blocks < to - from + 1 \<longrightarrow> to' - from' + 1 = cap_blocks))"
proof -
  have sub: "sat_sub a b = a - b" for a b :: nat by (simp add: sat_sub_def)
  have cap: "case cap_range_to a b cap_blocks of (a', b') \<Rightarrow>
             a' = a \<and> a' \<le> b' \<and> b' \<le> b \<and> b' - a' + 1 \<le> cap_blocks
             \<and> (b - a + 1 \<le> cap_blocks \<longrightarrow> b' = b)
             \<and> (cap_blocks < b - a + 1 \<longrightarrow> b' - a' + 1 = cap_blocks)"
    if "a \<le> b" "b < 2 ^ 64" for a b
    using that assms(2,3) by (auto simp: cap_range_to_def Let_def sub sat_add_def u64_max_def)
  have "safe < 2 ^ 64" using assms(1) by (simp add: safe_def)
  with cap assms(4) show ?thesis
    by (auto simp: next_target_def Let_def sub safe_def [symmetric] sat_add_def u64_max_def split: option.splits)
qed

text \<open>After a rollback, indexing resumes at the fork.  When chain 1 has a checkpoint, rolling
  back from block \<open>f\<close> and asking for the next range gives the confirmed blocks from \<open>f\<close> on, so the
  replaced blocks are exactly the ones indexed again; the one exception is a rollback from the
  genesis block, after which the range starts at block 1 and block 0 stays deleted.\<close>

lemma rollback_then_resume:
  assumes "map_of (checkpoints d) 1 = Some c" "f < 2 ^ 63 - 1" "head < 2 ^ 64"
    and "rollback_from_block (int f) d = Inr (k, d')"
  shows "\<exists>r. get_last_checkpoint 1 d' = Inr (r, d')
     \<and> next_target head confirmations r =
         (let start = max f 1 in
          if start \<le> head - confirmations then Some (start, head - confirmations) else None)"
proof -
  have d': "d' = below (int f) d" using assms(4) unfolding rollback_below by simp
  have w: "i64_wrap (int f - 1) = int f - 1" using assms(2) by (intro i64_wrap_id) simp_all
  have r: "get_last_checkpoint 1 d' = Inr (Some (max (int f - 1) 0), d')"
    using assms(1) w by (simp add: get_last_checkpoint_def d' below_def Let_def map_of_rewind)
  have "sat_add (nat (max (int f - 1) 0)) 1 = max f 1"
    using assms(2) by (cases f) (simp_all add: sat_add_def u64_max_def max_def nat_diff_distrib)
  then have "next_target head confirmations (Some (max (int f - 1) 0)) =
      (let start = max f 1 in
       if start \<le> head - confirmations then Some (start, head - confirmations) else None)"
    by (auto simp: next_target_def Let_def sat_sub_def)
  with r show ?thesis by blast
qed

end
