(* ===== verification/Indexer.thy ===== *)
theory Indexer
  imports Worker Reorg
begin

text \<open>
  The worker pool and the follow loop (\<^verbatim>\<open>crates/indexer/src/worker.rs\<close>).  The tasks of a chunk run
  concurrently: a script of events says which task takes its next step and whether the connection
  fails before or after the statement takes effect, so a theorem over all scripts covers every
  interleaving and every fault.  Indexing a range is a sequence of chunks, each followed by a
  checkpoint; the follow loop is a step relation over cycles.
\<close>

section \<open>Faults and tasks\<close>

definition attempt :: "'a stmt \<Rightarrow> fault \<Rightarrow> db \<Rightarrow> bool \<times> db" where
  "attempt s f d =
     (case f of
        Lost_before \<Rightarrow> (False, d)
      | Lost_after \<Rightarrow> (case s d of Inl _ \<Rightarrow> (False, d) | Inr (_, d') \<Rightarrow> (False, d'))
      | Works \<Rightarrow> (case s d of Inl _ \<Rightarrow> (False, d) | Inr (_, d') \<Rightarrow> (True, d')))"

datatype task = Running "task_step list" | Finished | Failed

type_synonym event = "nat \<times> fault"

fun task_event :: "event \<Rightarrow> task list \<times> db \<Rightarrow> task list \<times> db" where
  "task_event (i, f) (ts, d) =
     (if length ts \<le> i then (ts, d)
      else case ts ! i of
        Running [] \<Rightarrow> (ts[i := Finished], d)
      | Running (Abort # _) \<Rightarrow> (ts[i := Failed], d)
      | Running (Write w # ss) \<Rightarrow>
          (case attempt (run_write w) f d of
             (True, d') \<Rightarrow> (ts[i := Running ss], d')
           | (False, d') \<Rightarrow> (ts[i := Failed], d'))
      | _ \<Rightarrow> (ts, d))"

datatype run_result = ROk | RErr | RPanic | RPending

text \<open>One task per block; the first error a joined task reports is the error of the chunk, the
  other tasks are dropped where they are.\<close>

definition process_chunk :: "ext \<Rightarrow> node \<Rightarrow> u64 \<Rightarrow> u64 \<Rightarrow> event list \<Rightarrow> db \<Rightarrow> run_result \<times> db" where
  "process_chunk E N from_block to_block script d =
     (case fold task_event script (map (\<lambda>n. Running (process_block E N n)) [from_block ..< Suc to_block], d) of
        (ts, d') \<Rightarrow>
          if Failed \<in> set ts then (RErr, d')
          else if set ts \<subseteq> {Finished} then (ROk, d')
          else (RPending, d'))"

section \<open>Indexing a range\<close>

record chunk_env =
  ce_cancel :: bool
  ce_script :: "event list"
  ce_checkpoint :: fault

fun index_loop :: "ext \<Rightarrow> node \<Rightarrow> usize \<Rightarrow> u64 \<Rightarrow> u64 \<Rightarrow> chunk_env list \<Rightarrow> db \<Rightarrow> run_result \<times> db" where
  "index_loop E N batch_size chunk_start to_block [] d =
     (if to_block < chunk_start then (ROk, d) else (RPending, d))"
| "index_loop E N batch_size chunk_start to_block (env # envs) d =
     (if to_block < chunk_start then (ROk, d)
      else if ce_cancel env then (ROk, d)
      else
        let chunk_end = min (wrap_sub (wrap_add chunk_start batch_size) 1) to_block in
        case process_chunk E N chunk_start chunk_end (ce_script env) d of
          (ROk, d1) \<Rightarrow>
            (case attempt (update_checkpoint 1 (u64_as_i64 chunk_end)) (ce_checkpoint env) d1 of
               (True, d2) \<Rightarrow> index_loop E N batch_size (chunk_start + batch_size) to_block envs d2
             | (False, d2) \<Rightarrow> (RErr, d2))
        | (r, d1) \<Rightarrow> (r, d1))"

definition index_range :: "ext \<Rightarrow> node \<Rightarrow> usize \<Rightarrow> u64 \<Rightarrow> u64 \<Rightarrow> chunk_env list \<Rightarrow> db \<Rightarrow> run_result \<times> db" where
  "index_range E N batch_size from_block to_block envs d =
     (if batch_size = 0 then (RPanic, d)
      else index_loop E N batch_size from_block to_block envs d)"

section \<open>The tasks of a chunk\<close>

definition stored :: "ext \<Rightarrow> node \<Rightarrow> u64 \<Rightarrow> db \<Rightarrow> bool" where
  "stored E N n d \<longleftrightarrow> list_all (\<lambda>s. holds_step s d) (process_block E N n)"

fun task_ok :: "db \<Rightarrow> task_step list \<Rightarrow> task \<Rightarrow> bool" where
  "task_ok d plan (Running ss) \<longleftrightarrow> (\<exists>done. plan = done @ ss \<and> list_all (\<lambda>s. holds_step s d) done)"
| "task_ok d plan Finished \<longleftrightarrow> list_all (\<lambda>s. holds_step s d) plan"
| "task_ok d plan Failed \<longleftrightarrow> True"

lemma task_ok_grows: "task_ok d plan t \<Longrightarrow> grows d d' \<Longrightarrow> task_ok d' plan t"
  by (cases t) (auto intro: holds_steps_grow)

definition keeps :: "db \<Rightarrow> db \<Rightarrow> bool" where
  "keeps d d' \<longleftrightarrow> grows d d' \<and> same_other_tables d d' \<and> (index_ok d \<longrightarrow> index_ok d')"

lemma keeps_refl [simp, intro]: "keeps d d"
  by (simp add: keeps_def same_other_tables_def)

lemma keeps_trans: "keeps d d' \<Longrightarrow> keeps d' d'' \<Longrightarrow> keeps d d''"
  by (auto simp: keeps_def same_other_tables_def intro: grows_trans)

lemma attempt_write:
  assumes "attempt (run_write w) f d = (b, d')"
  shows "keeps d d' \<and> (b \<longrightarrow> holds_write w d')"
proof -
  have "keeps d e \<and> holds_write w e" if "run_write w d = Inr (n, e)" for n e
    using run_write_effect [OF that] by (simp add: keeps_def)
  with assms show ?thesis by (auto simp: attempt_def split: fault.splits sum.splits)
qed

lemma task_event_ok:
  assumes "task_event ev (ts, d) = (ts', d')" "list_all2 (task_ok d) plans ts"
  shows "list_all2 (task_ok d') plans ts' \<and> keeps d d'"
proof -
  obtain i f where ev: "ev = (i, f)" by fastforce
  have upd: "list_all2 (task_ok e) plans (ts[i := t])"
    if "i < length ts" "keeps d e" "task_ok e (plans ! i) t" for e t
  proof -
    have "list_all2 (task_ok e) plans ts"
      using assms(2) that(2) task_ok_grows by (auto simp: keeps_def elim: list_all2_mono)
    then have "list_all2 (task_ok e) (plans[i := plans ! i]) (ts[i := t])"
      using that(3) by (intro list_all2_update_cong) auto
    then show ?thesis by simp
  qed
  show ?thesis
  proof (cases "i < length ts")
    case True
    then have ti: "task_ok d (plans ! i) (ts ! i)" using assms(2) by (auto simp: list_all2_conv_all_nth)
    show ?thesis
    proof (cases "ts ! i")
      case (Running ss)
      show ?thesis
      proof (cases ss)
        case Nil
        with True Running ti assms(1) ev show ?thesis by (auto intro!: upd)
      next
        case (Cons s ss')
        show ?thesis
        proof (cases s)
          case (Write w)
          obtain b e where a: "attempt (run_write w) f d = (b, e)" by fastforce
          note aw = attempt_write [OF a]
          obtain don where "plans ! i = don @ Write w # ss'" "list_all (\<lambda>s. holds_step s d) don"
            using ti Running Cons Write by auto
          then have "b \<Longrightarrow> task_ok e (plans ! i) (Running ss')"
            using aw holds_steps_grow by (auto simp: keeps_def intro!: exI [of _ "don @ [Write w]"])
          with True Running Cons Write a assms(1) ev aw show ?thesis by (cases b) (auto intro!: upd)
        next
          case Abort
          with True Running Cons assms(1) ev show ?thesis by (auto intro!: upd)
        qed
      qed
    qed (use assms ev True in auto)
  qed (use assms ev in auto)
qed

lemma fold_task_event_ok:
  assumes "fold task_event script (ts, d) = (ts', d')" "list_all2 (task_ok d) plans ts"
  shows "list_all2 (task_ok d') plans ts' \<and> keeps d d'"
  using assms
proof (induction script arbitrary: ts d)
  case (Cons ev script)
  obtain us e where u: "task_event ev (ts, d) = (us, e)" by fastforce
  with Cons.prems(1) have "fold task_event script (us, e) = (ts', d')" by simp
  with Cons.IH task_event_ok [OF u Cons.prems(2)] keeps_trans show ?case by blast
qed auto

lemma process_chunk_ok:
  assumes "process_chunk E N a b script d = (r, d')"
  shows "keeps d d' \<and> (r = ROk \<longrightarrow> (\<forall>n. a \<le> n \<and> n \<le> b \<longrightarrow> stored E N n d'))"
proof -
  let ?ns = "[a ..< Suc b]"
  let ?plans = "map (process_block E N) ?ns"
  obtain ts e where f: "fold task_event script (map (\<lambda>n. Running (process_block E N n)) ?ns, d) = (ts, e)" by fastforce
  have "list_all2 (task_ok d) ?plans (map (\<lambda>n. Running (process_block E N n)) ?ns)"
    by (simp add: list_all2_conv_all_nth del: upt_Suc)
  from fold_task_event_ok [OF f this] have inv: "list_all2 (task_ok e) ?plans ts" "keeps d e" by simp_all
  have e: "d' = e" and ok: "r = ROk \<longrightarrow> set ts \<subseteq> {Finished}"
    using assms f by (auto simp: process_chunk_def simp del: upt_Suc split: if_splits)
  have "stored E N n e" if "r = ROk" "a \<le> n" "n \<le> b" for n
  proof -
    have "n - a < length ?ns" "?ns ! (n - a) = n" using that by (simp_all del: upt_Suc)
    moreover from this inv(1) have "n - a < length ts" by (simp add: list_all2_conv_all_nth del: upt_Suc)
    moreover from this have "ts ! (n - a) = Finished" using ok that(1) nth_mem by blast
    ultimately have "task_ok e (process_block E N n) Finished"
      using inv(1) by (auto simp: list_all2_conv_all_nth simp del: upt_Suc)
    then show ?thesis by (simp add: stored_def)
  qed
  with inv(2) e show ?thesis by blast
qed

section \<open>Checkpoints never run ahead\<close>

definition checkpoint :: "db \<Rightarrow> i64 option" where
  "checkpoint d = map_of (checkpoints d) 1"

lemma stored_grows: "stored E N n d \<Longrightarrow> grows d d' \<Longrightarrow> stored E N n d'"
  unfolding stored_def by (rule holds_steps_grow)

lemma update_checkpoint_effect:
  assumes "attempt (update_checkpoint 1 v) f d = (b, d')"
  shows "grows d d' \<and> (index_ok d \<longrightarrow> index_ok d') \<and> (d' = d \<or> checkpoint d' = Some v)
     \<and> (b \<longrightarrow> checkpoint d' = Some v)"
proof -
  let ?e = "d\<lparr>checkpoints := upsert 1 v (checkpoints d)\<rparr>"
  have "update_checkpoint 1 v d = Inr ((), ?e)" by (simp add: update_checkpoint_def)
  moreover have "grows d ?e" by (simp add: grows_def)
  moreover have "checkpoint ?e = Some v" by (simp add: checkpoint_def map_of_upsert)
  moreover have "index_ok d \<longrightarrow> index_ok ?e" using calculation(1) update_checkpoint_ok by blast
  ultimately show ?thesis using assms by (auto simp: attempt_def split: fault.splits)
qed

text \<open>What a run over a range guarantees, wherever it stops.\<close>

definition range_safe :: "ext \<Rightarrow> node \<Rightarrow> u64 \<Rightarrow> u64 \<Rightarrow> db \<Rightarrow> db \<Rightarrow> bool" where
  "range_safe E N a b d d' \<longleftrightarrow>
     grows d d' \<and> (index_ok d \<longrightarrow> index_ok d')
     \<and> (checkpoint d' = checkpoint d
        \<or> (\<exists>e. a \<le> e \<and> e \<le> b \<and> checkpoint d' = Some (int e) \<and> (\<forall>n. a \<le> n \<and> n \<le> e \<longrightarrow> stored E N n d')))"

lemma range_safe_refl [intro]: "range_safe E N a b d d"
  by (simp add: range_safe_def)

lemma index_loop_safe:
  assumes "index_loop E N batch start b envs d = (r, d')" "0 < batch" "b + batch < 2 ^ 63"
  shows "range_safe E N start b d d'
     \<and> (r = ROk \<and> start \<le> b \<and> list_all (\<lambda>e. \<not> ce_cancel e) envs \<longrightarrow>
          checkpoint d' = Some (int b) \<and> (\<forall>n. start \<le> n \<and> n \<le> b \<longrightarrow> stored E N n d'))"
  using assms(1)
proof (induction envs arbitrary: start d)
  case Nil
  then show ?case by (auto split: if_splits)
next
  case (Cons env envs)
  show ?case
  proof (cases "b < start \<or> ce_cancel env")
    case True
    with Cons.prems show ?thesis by (auto split: if_splits)
  next
    case False
    define chunk_end where "chunk_end = min (start + batch - 1) b"
    have ce: "min (wrap_sub (wrap_add start batch) 1) b = chunk_end" "start \<le> chunk_end" "chunk_end \<le> b"
      using False assms(2,3) by (auto simp: chunk_end_def)
    have i64: "u64_as_i64 chunk_end = int chunk_end" using ce(3) assms(3) by simp
    obtain r1 d1 where c: "process_chunk E N start chunk_end (ce_script env) d = (r1, d1)" by fastforce
    note chunk = process_chunk_ok [OF c]
    have k: "grows d d1" "index_ok d \<Longrightarrow> index_ok d1" "checkpoint d1 = checkpoint d"
      using chunk by (auto simp: keeps_def same_other_tables_def checkpoint_def)
    show ?thesis
    proof (cases "r1 = ROk")
      case False
      with Cons.prems c ce(1) \<open>\<not> (b < start \<or> ce_cancel env)\<close> have "d' = d1 \<and> r = r1"
        by (cases r1) (auto simp: Let_def)
      with False k show ?thesis by (auto simp: range_safe_def)
    next
      case True
      with chunk have st: "stored E N n d1" if "start \<le> n" "n \<le> chunk_end" for n using that by blast
      obtain ok d2 where a: "attempt (update_checkpoint 1 (int chunk_end)) (ce_checkpoint env) d1 = (ok, d2)" by fastforce
      note upd = update_checkpoint_effect [OF a]
      have st2: "stored E N n d2" if "start \<le> n" "n \<le> chunk_end" for n
        using st [OF that] upd stored_grows by blast
      have k2: "grows d d2" "index_ok d \<Longrightarrow> index_ok d2" using k upd grows_trans by blast+
      show ?thesis
      proof (cases ok)
        case False
        with Cons.prems c True a ce(1) i64 \<open>\<not> (b < start \<or> ce_cancel env)\<close> have "d' = d2 \<and> r = RErr"
          by (auto simp: Let_def)
        with k k2 upd st2 ce show ?thesis by (auto simp: range_safe_def)
      next
        case ok: True
        with Cons.prems c True a ce(1) i64 \<open>\<not> (b < start \<or> ce_cancel env)\<close>
        have rest: "index_loop E N batch (start + batch) b envs d2 = (r, d')" by (simp add: Let_def)
        note IH = Cons.IH [OF rest]
        have g: "grows d2 d'" using IH by (simp add: range_safe_def)
        have st3: "stored E N n d'" if "start \<le> n" "n \<le> chunk_end" for n
          using st2 [OF that] g by (rule stored_grows)
        have ck2: "checkpoint d2 = Some (int chunk_end)" using upd ok by simp
        have cover: "n \<le> chunk_end \<or> start + batch \<le> n" if "n \<le> b" for n
          using that by (auto simp: chunk_end_def)
        have "range_safe E N start b d d'"
        proof -
          from IH consider "checkpoint d' = checkpoint d2"
            | e where "start + batch \<le> e" "e \<le> b" "checkpoint d' = Some (int e)"
                "\<forall>n. start + batch \<le> n \<and> n \<le> e \<longrightarrow> stored E N n d'"
            by (auto simp: range_safe_def)
          then have "\<exists>e. start \<le> e \<and> e \<le> b \<and> checkpoint d' = Some (int e)
              \<and> (\<forall>n. start \<le> n \<and> n \<le> e \<longrightarrow> stored E N n d')"
          proof cases
            case 1
            then show ?thesis using ck2 ce st3 by (intro exI [of _ chunk_end]) auto
          next
            case 2
            then show ?thesis using cover st3 by (intro exI [of _ e]) (metis add_leE le_trans)
          qed
          then show ?thesis using IH k2 grows_trans [OF k2(1) g] by (auto simp: range_safe_def)
        qed
        moreover have "checkpoint d' = Some (int b) \<and> (\<forall>n. start \<le> n \<and> n \<le> b \<longrightarrow> stored E N n d')"
          if "r = ROk" "list_all (\<lambda>e. \<not> ce_cancel e) (env # envs)"
        proof (cases "start + batch \<le> b")
          case True
          with IH that cover st3 show ?thesis by auto
        next
          case last: False
          then have "d' = d2" using rest by (cases envs) auto
          moreover have "chunk_end = b" using last ce by (simp add: chunk_end_def)
          ultimately show ?thesis using ck2 st3 by simp
        qed
        ultimately show ?thesis by blast
      qed
    qed
  qed
qed

section \<open>A chunk without faults completes\<close>

fun remaining :: "task \<Rightarrow> nat" where
  "remaining (Running ss) = Suc (length ss)"
| "remaining Finished = 0"
| "remaining Failed = 0"

definition on_course :: "db \<Rightarrow> task_step list \<Rightarrow> task \<Rightarrow> bool" where
  "on_course d plan t \<longleftrightarrow> t \<noteq> Failed \<and> task_ok d plan t \<and> self_supporting plan"

lemma task_event_works:
  assumes "list_all2 (on_course d) plans ts" "task_event (i, Works) (ts, d) = (ts', d')"
  shows "list_all2 (on_course d') plans ts'
     \<and> (\<forall>j < length ts. remaining (ts' ! j) = remaining (ts ! j) - (if j = i then 1 else 0))"
proof -
  have "list_all2 (task_ok d) plans ts" using assms(1) by (auto simp: on_course_def elim: list_all2_mono)
  from task_event_ok [OF assms(2) this] have inv: "list_all2 (task_ok d') plans ts'" by simp
  have "ts' = ts \<and> (i < length ts \<longrightarrow> remaining (ts ! i) = 0)
      \<or> (i < length ts \<and> (\<exists>t. ts' = ts[i := t] \<and> t \<noteq> Failed \<and> remaining t = remaining (ts ! i) - 1))"
  proof (cases "i < length ts")
    case True
    then have oc: "on_course d (plans ! i) (ts ! i)" using assms(1) by (auto simp: list_all2_conv_all_nth)
    show ?thesis
    proof (cases "ts ! i")
      case (Running ss)
      show ?thesis
      proof (cases ss)
        case (Cons s ss')
        obtain don where "plans ! i = don @ s # ss'" "list_all (\<lambda>s. holds_step s d) don"
          using oc Running Cons by (auto simp: on_course_def)
        then have "step_ready d s" using oc unfolding on_course_def self_supporting_def by blast
        then obtain w where w: "s = Write w" "write_checked w" "write_refs w d" by (cases s) (auto simp: step_ready_def)
        then obtain n e where "run_write w d = Inr (n, e)" using run_write_total by blast
        with w True Running Cons assms(2) show ?thesis by (auto simp: attempt_def)
      qed (use True Running assms(2) in auto)
    qed (use True oc assms(2) in \<open>auto simp: on_course_def\<close>)
  qed (use assms(2) in auto)
  with inv assms(1) show ?thesis
    by (auto simp: list_all2_conv_all_nth on_course_def nth_list_update split: if_splits)
qed

lemma script_completes:
  assumes "list_all2 (on_course d) plans ts" "\<forall>(i, f) \<in> set script. f = Works"
    and "\<forall>i < length ts. remaining (ts ! i) \<le> length (filter (\<lambda>ev. fst ev = i) script)"
    and "fold task_event script (ts, d) = (ts', d')"
  shows "set ts' \<subseteq> {Finished}"
  using assms
proof (induction script arbitrary: ts d)
  case Nil
  then have "remaining t = 0 \<and> t \<noteq> Failed" if "t \<in> set ts" for t
    using that by (auto simp: in_set_conv_nth list_all2_conv_all_nth on_course_def)
  then show ?case using Nil.prems(4) by (auto elim: remaining.elims)
next
  case (Cons ev script)
  obtain i where ev: "ev = (i, Works)" using Cons.prems(2) by (cases ev) auto
  obtain us e where u: "task_event ev (ts, d) = (us, e)" by fastforce
  note step = task_event_works [OF Cons.prems(1) u [unfolded ev]]
  have len: "length us = length ts"
    using step Cons.prems(1) by (auto dest!: list_all2_lengthD)
  have "remaining (us ! j) \<le> length (filter (\<lambda>ev. fst ev = j) script)" if "j < length us" for j
    using that len step Cons.prems(3) ev by fastforce
  with Cons.IH [of e us] step Cons.prems(2,4) u show ?case by auto
qed

lemma process_chunk_completes:
  assumes "\<And>n. a \<le> n \<Longrightarrow> n \<le> b \<Longrightarrow> good_block E N n" "\<forall>(i, f) \<in> set script. f = Works"
    and "\<And>n. a \<le> n \<Longrightarrow> n \<le> b \<Longrightarrow>
      length (process_block E N n) < length (filter (\<lambda>ev. fst ev = n - a) script)"
  shows "fst (process_chunk E N a b script d) = ROk"
proof -
  let ?ns = "[a ..< Suc b]"
  let ?ts = "map (\<lambda>n. Running (process_block E N n)) ?ns"
  obtain ts d' where f: "fold task_event script (?ts, d) = (ts, d')" by fastforce
  have "list_all2 (on_course d) (map (process_block E N) ?ns) ?ts"
    using process_block_self_supporting assms(1)
    by (auto simp: list_all2_conv_all_nth on_course_def simp del: upt_Suc)
  moreover have "\<forall>i < length ?ts. remaining (?ts ! i) \<le> length (filter (\<lambda>ev. fst ev = i) script)"
  proof (intro allI impI)
    fix i assume "i < length ?ts"
    then have "i < Suc b - a" "a + i \<le> b" by (simp_all del: upt_Suc)
    with assms(3) [of "a + i"] show "remaining (?ts ! i) \<le> length (filter (\<lambda>ev. fst ev = i) script)"
      by (simp del: upt_Suc)
  qed
  ultimately have "set ts \<subseteq> {Finished}" using script_completes [OF _ assms(2) _ f] by blast
  then show ?thesis using f by (auto simp: process_chunk_def simp del: upt_Suc)
qed

lemma length_process_block: "length (process_block E N n) \<le> 7"
  by (auto simp: process_block_def when_rows_def Let_def split: sum.splits rust.splits)

text \<open>A round without faults: no cancellation, no lost query, and at least eight turns for each of
  the tasks of a full chunk.\<close>

definition fair_round :: "usize \<Rightarrow> chunk_env \<Rightarrow> bool" where
  "fair_round batch env \<longleftrightarrow>
     \<not> ce_cancel env \<and> ce_checkpoint env = Works \<and> list_all (\<lambda>ev. snd ev = Works) (ce_script env)
     \<and> list_all (\<lambda>i. 8 \<le> length (filter (\<lambda>ev. fst ev = i) (ce_script env))) [0 ..< batch]"

lemma index_loop_completes:
  assumes "\<And>n. start \<le> n \<Longrightarrow> n \<le> b \<Longrightarrow> good_block E N n" "list_all (fair_round batch) envs"
    and "b < start + length envs * batch" "0 < batch" "b + batch < 2 ^ 63"
  shows "fst (index_loop E N batch start b envs d) = ROk"
  using assms(1-3)
proof (induction envs arbitrary: start d)
  case (Cons env envs)
  show ?case
  proof (cases "b < start")
    case False
    define chunk_end where "chunk_end = min (start + batch - 1) b"
    have ce: "min (wrap_sub (wrap_add start batch) 1) b = chunk_end" "chunk_end \<le> b"
      using False assms(4,5) by (auto simp: chunk_end_def)
    have fair: "fair_round batch env" using Cons.prems(2) by simp
    have turns: "length (process_block E N n) < length (filter (\<lambda>ev. fst ev = n - start) (ce_script env))"
      if "start \<le> n" "n \<le> chunk_end" for n
    proof -
      have "n - start < batch" using that assms(4) by (auto simp: chunk_end_def)
      with fair have "8 \<le> length (filter (\<lambda>ev. fst ev = n - start) (ce_script env))"
        by (auto simp: fair_round_def list_all_iff)
      with length_process_block [of E N n] show ?thesis by simp
    qed
    have "fst (process_chunk E N start chunk_end (ce_script env) d) = ROk"
      using fair by (intro process_chunk_completes Cons.prems(1) turns)
        (use ce(2) in \<open>auto simp: fair_round_def list_all_iff\<close>)
    then obtain d1 where d1: "process_chunk E N start chunk_end (ce_script env) d = (ROk, d1)" by (metis prod.collapse)
    obtain d2 where d2: "attempt (update_checkpoint 1 (u64_as_i64 chunk_end)) (ce_checkpoint env) d1 = (True, d2)"
      using fair by (auto simp: fair_round_def attempt_def update_checkpoint_def)
    have "fst (index_loop E N batch (start + batch) b envs d2) = ROk"
      using Cons.prems by (intro Cons.IH) (auto simp: algebra_simps)
    with False ce(1) d1 d2 fair show ?thesis by (simp add: fair_round_def)
  qed simp
qed simp

text \<open>C1: the checkpoint never runs ahead of the data.  Whatever the interleaving of the block
  tasks, whichever queries fail (before or after they take effect), and wherever the run is
  cancelled, indexing a range only adds rows, keeps the database consistent, and leaves a checkpoint
  that is either the old one or a block of the range such that every block of the range up to it is
  completely stored.  When the run returns success without being cancelled, the checkpoint is the
  end of the range and the whole range is stored.\<close>

theorem index_range_checkpoint_safe:
  assumes "index_range E N batch a b envs d = (r, d')" "b + batch < 2 ^ 63" "index_ok d"
  shows "index_ok d' \<and> grows d d'
     \<and> (checkpoint d' = checkpoint d
        \<or> (\<exists>e. a \<le> e \<and> e \<le> b \<and> checkpoint d' = Some (int e) \<and> (\<forall>n. a \<le> n \<and> n \<le> e \<longrightarrow> stored E N n d')))
     \<and> (r = ROk \<and> a \<le> b \<and> list_all (\<lambda>e. \<not> ce_cancel e) envs \<longrightarrow>
          checkpoint d' = Some (int b) \<and> (\<forall>n. a \<le> n \<and> n \<le> b \<longrightarrow> stored E N n d'))"
proof (cases "batch = 0")
  case True
  with assms show ?thesis by (auto simp: index_range_def)
next
  case False
  with assms(1) have "index_loop E N batch a b envs d = (r, d')" by (simp add: index_range_def)
  from index_loop_safe [OF this] False assms(2,3) show ?thesis by (auto simp: range_safe_def)
qed

text \<open>Without faults a range is indexed to its end.  When every block of the range is served by
  the node and fits the tables, any interleaving that loses no query and gives each task of a chunk
  at least eight turns, over enough chunks, returns success with every block stored and the
  checkpoint at the end of the range.  A batch size of zero panics instead.\<close>

lemma index_range_completes:
  assumes "\<forall>n. a \<le> n \<and> n \<le> b \<longrightarrow> good_block E N n" "list_all (fair_round batch) envs"
    and "b < a + length envs * batch" "b + batch < 2 ^ 63" "a \<le> b"
  shows "(\<exists>d'. index_range E N batch a b envs d = (ROk, d') \<and> checkpoint d' = Some (int b)
        \<and> (\<forall>n. a \<le> n \<and> n \<le> b \<longrightarrow> stored E N n d'))
     \<and> index_range E N 0 a b envs d = (RPanic, d)"
proof -
  have batch: "0 < batch" using assms(3,5) by (cases batch) auto
  obtain r d' where r: "index_loop E N batch a b envs d = (r, d')" by fastforce
  have "r = ROk" using index_loop_completes [of a b E N batch envs d] assms batch r by simp
  moreover have "list_all (\<lambda>e. \<not> ce_cancel e) envs" using assms(2) by (auto simp: fair_round_def list_all_iff)
  ultimately show ?thesis
    using index_loop_safe [OF r batch assms(4)] assms(5) r batch by (auto simp: index_range_def)
qed

definition fair_env :: chunk_env where
  "fair_env = \<lparr>ce_cancel = False, ce_script = concat (replicate 8 [(0, Works), (1, Works)]), ce_checkpoint = Works\<rparr>"

lemma sample_good: "good_block sample_ext sample_node 18"
  using sample_checked by (simp add: good_block_def sample_node_def sample_rpc_block_def)

theorem index_range_checkpoint_safe_witness:
  "\<exists>r d'. index_range sample_ext sample_node 2 18 18 [fair_env] sample_db = (r, d')
     \<and> index_ok d' \<and> (checkpoint d' = Some 11 \<or> checkpoint d' = Some 18)"
proof -
  obtain r d' where r: "index_range sample_ext sample_node 2 18 18 [fair_env] sample_db = (r, d')" by fastforce
  have "checkpoint sample_db = Some 11" by (simp add: checkpoint_def sample_db_def)
  moreover have "(18 :: nat) + 2 < 2 ^ 63" by simp
  ultimately have "index_ok d'" and
    "checkpoint d' = Some 11 \<or> (\<exists>e. 18 \<le> e \<and> e \<le> 18 \<and> checkpoint d' = Some (int e))"
    using index_range_checkpoint_safe [OF r _ sample_db_ok] by auto
  then show ?thesis using r by (metis le_antisym of_nat_numeral)
qed

end
