(* ===== verification/Follow.thy ===== *)
theory Follow
  imports Indexer
begin

text \<open>
  The follow loop (\<^verbatim>\<open>WorkerPool::follow\<close> in \<^verbatim>\<open>crates/indexer/src/worker.rs\<close>).  One cycle checks for a
  reorganisation and rolls back, or indexes the next capped range, then waits for a tick or a
  signal.  What the outside world does in a cycle (the node's answers, lost queries, the schedule of
  the tasks, cancellation, the wake-up) is an environment; a run is a sequence of cycles under
  arbitrary environments.
\<close>

section \<open>State and environment\<close>

record follow_metrics =
  fm_cycle :: u64
  fm_blocks_indexed :: u64
  fm_reorgs :: u64
  fm_last_reorg_depth :: u64

record follow_state =
  fo_db :: db
  fo_metrics :: follow_metrics
  fo_subscribed :: bool

datatype wake = Tick | Channel_closed | Slept | Ctrl_c

record cycle_env =
  cy_node :: node
  cy_hashes :: rpc_hash
  cy_hashes_lost :: bool
  cy_rollback :: fault
  cy_head :: "string + u64"
  cy_checkpoint_lost :: bool
  cy_chunks :: "chunk_env list"
  cy_cancel :: bool
  cy_wake :: wake

datatype outcome = Continue follow_state | Stopped follow_state | Errored follow_state | Panicked follow_state
  | Unfinished follow_state

section \<open>One cycle\<close>

text \<open>After indexing: a raised cancellation flag stops the loop, also when a chunk boundary saw it;
  otherwise the loop waits, and a closed subscription channel falls back to polling.\<close>

definition finish_cycle :: "cycle_env \<Rightarrow> follow_state \<Rightarrow> outcome" where
  "finish_cycle env st =
     (if cy_cancel env \<or> list_ex ce_cancel (cy_chunks env) then Stopped st
      else case cy_wake env of
             Ctrl_c \<Rightarrow> Stopped st
           | Channel_closed \<Rightarrow> Continue (st\<lparr>fo_subscribed := False\<rparr>)
           | _ \<Rightarrow> Continue st)"

definition roll_back :: "cycle_env \<Rightarrow> u64 \<Rightarrow> follow_state \<Rightarrow> outcome" where
  "roll_back env fork st =
     (case rollback_from_block (u64_as_i64 fork) (fo_db st) of
        Inl _ \<Rightarrow> Errored st
      | Inr (rolled, d') \<Rightarrow>
          (case cy_rollback env of
             Lost_before \<Rightarrow> Errored st
           | Lost_after \<Rightarrow> Errored (st\<lparr>fo_db := d'\<rparr>)
           | Works \<Rightarrow> Continue (st\<lparr>fo_db := d',
               fo_metrics := (fo_metrics st)\<lparr>fm_reorgs := wrap_add (fm_reorgs (fo_metrics st)) 1,
                 fm_last_reorg_depth := rolled\<rparr>\<rparr>)))"

definition index_next :: "ext \<Rightarrow> usize \<Rightarrow> u64 \<Rightarrow> cycle_env \<Rightarrow> follow_state \<Rightarrow> outcome" where
  "index_next E batch_size confirmations env st =
     (case cy_head env of
        Inl _ \<Rightarrow> Errored st
      | Inr head \<Rightarrow>
          if cy_checkpoint_lost env then Errored st
          else case next_target head confirmations (checkpoint (fo_db st)) of
                 None \<Rightarrow> finish_cycle env st
               | Some (from_block, to_block) \<Rightarrow>
                   (case cap_range_to from_block to_block FOLLOW_CYCLE_BLOCK_CAP of (from_c, to_c) \<Rightarrow>
                    case index_range E (cy_node env) batch_size from_c to_c (cy_chunks env) (fo_db st) of
                      (ROk, d') \<Rightarrow>
                        finish_cycle env (st\<lparr>fo_db := d',
                          fo_metrics := (fo_metrics st)\<lparr>fm_blocks_indexed :=
                            wrap_add (fm_blocks_indexed (fo_metrics st)) (to_c - from_c + 1)\<rparr>\<rparr>)
                    | (RPending, d') \<Rightarrow> Unfinished (st\<lparr>fo_db := d'\<rparr>)
                    | (RPanic, d') \<Rightarrow> Panicked (st\<lparr>fo_db := d'\<rparr>)
                    | (RErr, d') \<Rightarrow> Errored (st\<lparr>fo_db := d'\<rparr>)))"

definition follow_cycle :: "ext \<Rightarrow> usize \<Rightarrow> u64 \<Rightarrow> cycle_env \<Rightarrow> follow_state \<Rightarrow> outcome" where
  "follow_cycle E batch_size confirmations env st0 =
     (let st = st0\<lparr>fo_metrics := (fo_metrics st0)\<lparr>fm_cycle := wrap_add (fm_cycle (fo_metrics st0)) 1\<rparr>\<rparr> in
      if cy_hashes_lost env then Errored st
      else case detect_fork (cy_hashes env) REORG_SCAN_CAP (fo_db st) of
             Inl _ \<Rightarrow> Errored st
           | Inr (Some fork, _) \<Rightarrow> roll_back env fork st
           | Inr (None, _) \<Rightarrow> index_next E batch_size confirmations env st)"

section \<open>Runs\<close>

text \<open>Block heights fit the \<^verbatim>\<open>BIGINT\<close> columns, with room for one batch.\<close>

inductive follow_step :: "ext \<Rightarrow> usize \<Rightarrow> u64 \<Rightarrow> follow_state \<Rightarrow> follow_state \<Rightarrow> bool"
  for E batch_size confirmations where
  cycle: "\<lbrakk>follow_cycle E batch_size confirmations env st = Continue st';
     \<And>head. cy_head env = Inr head \<Longrightarrow> head + batch_size < 2 ^ 63\<rbrakk>
    \<Longrightarrow> follow_step E batch_size confirmations st st'"

inductive_cases follow_stepE: "follow_step E batch_size confirmations st st'"

section \<open>Only the blocks of the range are added\<close>

definition block_numbers :: "db \<Rightarrow> i64 set" where
  "block_numbers d = b_block_number ` set (blocks d)"

fun step_blocks :: "i64 set \<Rightarrow> task_step \<Rightarrow> bool" where
  "step_blocks S (Write (W_blocks rs)) \<longleftrightarrow> b_block_number ` set rs \<subseteq> S"
| "step_blocks S _ \<longleftrightarrow> True"

fun task_blocks :: "i64 set \<Rightarrow> task \<Rightarrow> bool" where
  "task_blocks S (Running ss) = list_all (step_blocks S) ss"
| "task_blocks S _ = True"

lemma run_write_blocks:
  assumes "run_write w d = Inr (n, d')" "step_blocks S (Write w)"
  shows "block_numbers d' \<subseteq> block_numbers d \<union> S"
proof (cases w)
  case (W_blocks rs)
  with assms bt.keys_after [of rs d n d'] show ?thesis by (auto simp: block_numbers_def)
qed (use assms insert_frames in \<open>auto simp: block_numbers_def stmt_defs split: if_splits sum.splits\<close>)

lemma task_event_blocks:
  assumes "task_event ev (ts, d) = (ts', d')" "list_all (task_blocks S) ts"
  shows "list_all (task_blocks S) ts' \<and> block_numbers d' \<subseteq> block_numbers d \<union> S"
proof -
  obtain i f where ev: "ev = (i, f)" by fastforce
  have upd: "task_blocks S t \<Longrightarrow> list_all (task_blocks S) (ts[i := t])" for t
    using assms(2) by (auto simp: list_all_iff dest!: set_update_subset_insert [THEN subsetD])
  have att: "block_numbers e \<subseteq> block_numbers d \<union> S"
    if "attempt (run_write w) f d = (b, e)" "step_blocks S (Write w)" for w b e
    using that run_write_blocks by (auto simp: attempt_def split: fault.splits sum.splits) blast+
  show ?thesis
  proof (cases "i < length ts")
    case True
    then have ti: "task_blocks S (ts ! i)" using assms(2) by (simp add: list_all_length)
    with True assms ev upd att show ?thesis
      by (cases "ts ! i") (auto split: list.splits task_step.splits prod.splits bool.splits)
  qed (use assms ev in auto)
qed

lemma fold_task_event_blocks:
  assumes "fold task_event script (ts, d) = (ts', d')" "list_all (task_blocks S) ts"
  shows "block_numbers d' \<subseteq> block_numbers d \<union> S"
  using assms
proof (induction script arbitrary: ts d)
  case (Cons ev script)
  obtain us e where u: "task_event ev (ts, d) = (us, e)" by fastforce
  with Cons.prems(1) have "fold task_event script (us, e) = (ts', d')" by simp
  with Cons.IH task_event_blocks [OF u Cons.prems(2)] show ?case by blast
qed auto

lemma process_block_blocks: "list_all (step_blocks {u64_as_i64 n}) (process_block E N n)"
  by (auto simp: process_block_def when_rows_def block_model_def Let_def split: sum.splits rust.splits)

lemma process_chunk_blocks:
  assumes "process_chunk E N a b script d = (r, d')"
  shows "block_numbers d' \<subseteq> block_numbers d \<union> u64_as_i64 ` {a..b}"
proof -
  let ?ts = "map (\<lambda>n. Running (process_block E N n)) [a ..< Suc b]"
  obtain ts e where f: "fold task_event script (?ts, d) = (ts, e)" by fastforce
  have "step_blocks S s" if "step_blocks {u64_as_i64 n} s" "u64_as_i64 n \<in> S" for S n s
    using that by (cases "(S, s)" rule: step_blocks.cases) auto
  then have "list_all (task_blocks (u64_as_i64 ` {a..b})) ?ts"
    using process_block_blocks by (fastforce simp: list_all_iff)
  from fold_task_event_blocks [OF f this] show ?thesis
    using assms f by (auto simp: process_chunk_def simp del: upt_Suc split: if_splits)
qed

lemma update_checkpoint_blocks:
  "attempt (update_checkpoint 1 v) f d = (b, d') \<Longrightarrow> block_numbers d' = block_numbers d"
  by (auto simp: attempt_def update_checkpoint_def block_numbers_def split: fault.splits)

lemma index_loop_blocks:
  assumes "index_loop E N batch start b envs d = (r, d')"
  shows "block_numbers d' \<subseteq> block_numbers d \<union> u64_as_i64 ` {start..b}"
  using assms
proof (induction envs arbitrary: start d)
  case (Cons env envs)
  define ce where "ce = min (wrap_sub (wrap_add start batch) 1) b"
  obtain r1 d1 where c: "process_chunk E N start ce (ce_script env) d = (r1, d1)" by fastforce
  have d1: "block_numbers d1 \<subseteq> block_numbers d \<union> u64_as_i64 ` {start..b}"
    using process_chunk_blocks [OF c] by (fastforce simp: ce_def)
  obtain ok d2 where a: "attempt (update_checkpoint 1 (u64_as_i64 ce)) (ce_checkpoint env) d1 = (ok, d2)" by fastforce
  have "block_numbers d' \<subseteq> block_numbers d2 \<union> u64_as_i64 ` {start..b}"
    if "index_loop E N batch (start + batch) b envs d2 = (r, d')"
    using Cons.IH [OF that] by fastforce
  with Cons.prems c a d1 update_checkpoint_blocks [OF a] show ?case
    by (auto simp: Let_def ce_def [symmetric] simp del: One_nat_def split: if_splits run_result.splits bool.splits)
qed (auto split: if_splits)

section \<open>The stored blocks stay contiguous\<close>

definition contiguous :: "db \<Rightarrow> bool" where
  "contiguous d \<longleftrightarrow>
     (case checkpoint d of
        None \<Rightarrow> block_numbers d = {}
      | Some c \<Rightarrow> 0 \<le> c \<and> c < 2 ^ 63 - 1 \<and> (\<exists>lo \<ge> 0. block_numbers d = {lo..c}))"

definition follow_inv :: "follow_state \<Rightarrow> bool" where
  "follow_inv st \<longleftrightarrow> index_ok (fo_db st) \<and> contiguous (fo_db st)"

lemma contiguous_numbers:
  assumes "contiguous d"
  shows "numbers_ok d"
proof -
  have "0 \<le> n \<and> n < 2 ^ 63" if "n \<in> block_numbers d" for n
    using assms that by (auto simp: contiguous_def split: option.splits)
  then show ?thesis by (auto simp: numbers_ok_def list_all_iff block_numbers_def)
qed

lemma detected_fork_stored:
  assumes "detect_fork rpc REORG_SCAN_CAP d = Inr (Some f, calls)" "index_ok d" "contiguous d"
  shows "int f \<in> block_numbers d"
proof -
  have "search_ok rpc (local_hashes REORG_SCAN_CAP d) (Some f) calls"
    using detect_fork_ok [of REORG_SCAN_CAP rpc d] assms(1) by (simp add: REORG_SCAN_CAP_def)
  then have "fork_point rpc (local_hashes REORG_SCAN_CAP d) = Some f" by (auto simp: search_ok_def)
  then have "f \<in> fst ` set (local_hashes REORG_SCAN_CAP d)"
    by (auto simp: fork_point_def Let_def split: if_splits dest!: last_in_set set_takeWhileD intro: image_eqI)
  then obtain b where b: "b \<in> set (blocks d)" "f = i64_as_u64 (b_block_number b)"
    by (auto simp: local_hashes_def dest!: in_set_takeD)
  have "0 \<le> b_block_number b \<and> b_block_number b < 2 ^ 63"
    using contiguous_numbers [OF assms(3)] b(1) by (auto simp: numbers_ok_def list_all_iff)
  then show ?thesis using b by (auto simp: i64_as_u64_def block_numbers_def)
qed

lemma rollback_contiguous:
  assumes "contiguous d" "int f \<in> block_numbers d"
  shows "contiguous (below (int f) d)"
proof -
  obtain c lo where c: "checkpoint d = Some c" "0 \<le> c" "c < 2 ^ 63 - 1" "0 \<le> lo" "block_numbers d = {lo..c}"
    using assms by (auto simp: contiguous_def split: option.splits)
  have f: "lo \<le> int f" "int f \<le> c" using assms(2) c by auto
  have "block_numbers (below (int f) d) = {n \<in> block_numbers d. n < int f}"
    by (auto simp: block_numbers_def below_def Let_def)
  also have "\<dots> = {lo..int f - 1}" using c f by auto
  finally have nums: "block_numbers (below (int f) d) = {lo..int f - 1}" .
  have w: "i64_wrap (int f - 1) = int f - 1" using f c by (intro i64_wrap_id) auto
  have ck: "checkpoint (below (int f) d) = Some (max (int f - 1) 0)"
    using c(1) w by (simp add: checkpoint_def below_def Let_def map_of_rewind)
  show ?thesis
  proof (cases f)
    case 0
    then have "block_numbers (below (int f) d) = {1..0}" using nums c(4) f by auto
    with ck 0 show ?thesis by (auto simp: contiguous_def intro: exI [of _ 1])
  next
    case (Suc k)
    with ck nums c f show ?thesis by (auto simp: contiguous_def)
  qed
qed

lemma stored_block_known:
  assumes "stored E N n d" "n < 2 ^ 63"
  shows "int n \<in> block_numbers d"
proof -
  have "process_block E N n = [Abort] \<or>
      (\<exists>blk rest. process_block E N n = Write (W_blocks [block_model E n blk]) # rest)"
    by (auto simp: process_block_def Let_def split: sum.splits)
  with assms show ?thesis by (auto simp: stored_def block_numbers_def block_model_def)
qed

lemma index_range_contiguous:
  assumes "index_range E N batch a b envs d = (ROk, d')" "list_all (\<lambda>e. \<not> ce_cancel e) envs"
    and "a \<le> b" "b + batch < 2 ^ 63" "0 < batch"
    and "contiguous d" "checkpoint d = None \<or> checkpoint d = Some (int a - 1)"
  shows "contiguous d'"
proof -
  have loop: "index_loop E N batch a b envs d = (ROk, d')" using assms(1,5) by (simp add: index_range_def)
  note safe = index_loop_safe [OF loop assms(5,4)]
  have cast: "u64_as_i64 ` {a..b} = int ` {a..b}" using assms(4) by (intro image_cong) auto
  have up: "block_numbers d' \<subseteq> block_numbers d \<union> int ` {a..b}" using index_loop_blocks [OF loop] cast by simp
  have "grows d d'" using safe by (simp add: range_safe_def)
  then have low: "block_numbers d \<subseteq> block_numbers d'" by (simp add: grows_def block_numbers_def)
  have new: "int ` {a..b} \<subseteq> block_numbers d'"
    using safe assms(2,3,4) stored_block_known by (auto simp: list_all_iff)
  have nums: "block_numbers d' = block_numbers d \<union> {int a..int b}"
    using up low new image_int_atLeastAtMost [of a b] by auto
  have ck: "checkpoint d' = Some (int b)" using safe assms(2,3) by simp
  have "\<exists>lo \<ge> 0. block_numbers d' = {lo..int b}"
  proof (cases "block_numbers d = {}")
    case True
    then show ?thesis using nums by (intro exI [of _ "int a"]) simp
  next
    case False
    then obtain lo where lo: "0 \<le> lo" "block_numbers d = {lo..int a - 1}" "lo \<le> int a - 1"
      using assms(6,7) by (auto simp: contiguous_def)
    then have "block_numbers d' = {lo..int b}" using nums assms(3) by auto
    with lo show ?thesis by blast
  qed
  with ck assms(4) show ?thesis using assms(5) by (simp add: contiguous_def)
qed

lemma finish_cycle_Continue:
  assumes "finish_cycle env st = Continue st'"
  shows "fo_db st' = fo_db st \<and> list_all (\<lambda>e. \<not> ce_cancel e) (cy_chunks env)"
  using assms by (auto simp: finish_cycle_def list_ex_iff list_all_iff split: if_splits wake.splits)

lemma index_next_inv:
  assumes "index_next E batch conf env st = Continue st'" "follow_inv st"
    and "\<And>head. cy_head env = Inr head \<Longrightarrow> head + batch < 2 ^ 63"
  shows "follow_inv st'"
proof -
  obtain head where h: "cy_head env = Inr head" "head + batch < 2 ^ 63"
    using assms(1,3) by (auto simp: index_next_def split: sum.splits)
  let ?d = "fo_db st"
  have ck: "\<forall>c. checkpoint ?d = Some c \<longrightarrow> 0 \<le> c \<and> c < 2 ^ 63 - 1"
    using assms(2) by (auto simp: follow_inv_def contiguous_def)
  show ?thesis
  proof (cases "next_target head conf (checkpoint ?d)")
    case None
    with assms(1,2) h finish_cycle_Continue [of env st st'] show ?thesis
      by (auto simp: index_next_def follow_inv_def split: if_splits)
  next
    case (Some ft)
    obtain a b where ft: "ft = (a, b)" by fastforce
    obtain a' b' where cap: "cap_range_to a b FOLLOW_CYCLE_BLOCK_CAP = (a', b')" by fastforce
    have ab: "a \<le> b" "b \<le> head" "checkpoint ?d = None \<or> checkpoint ?d = Some (int a - 1)"
      using Some ft ck h(2)
      by (auto simp: next_target_def Let_def sat_sub_def sat_add_def u64_max_def split: option.splits if_splits)
    have cap': "a' = a" "a' \<le> b'" "b' \<le> b"
      using cap ab h(2) by (auto simp: cap_range_to_def Let_def FOLLOW_CYCLE_BLOCK_CAP_def sat_sub_def sat_add_def
          u64_max_def split: if_splits)
    obtain r d' where r: "index_range E (cy_node env) batch a' b' (cy_chunks env) ?d = (r, d')" by fastforce
    have ok: "r = ROk" and fin: "fo_db st' = d'" "list_all (\<lambda>e. \<not> ce_cancel e) (cy_chunks env)"
      using assms(1) h(1) Some ft cap r finish_cycle_Continue
      by (auto simp: index_next_def split: if_splits run_result.splits)
    have batch: "0 < batch" using r ok by (auto simp: index_range_def split: if_splits)
    have bound: "b' + batch < 2 ^ 63" using cap' ab h(2) by simp
    have "contiguous d'"
      by (rule index_range_contiguous [OF r [unfolded ok] fin(2) cap'(2) bound batch])
        (use assms(2) ab cap' in \<open>auto simp: follow_inv_def\<close>)
    moreover have "index_ok d'"
      using index_loop_safe [of E "cy_node env" batch a' b' "cy_chunks env" ?d r d'] r batch bound assms(2)
      by (auto simp: index_range_def range_safe_def follow_inv_def)
    ultimately show ?thesis using fin by (simp add: follow_inv_def)
  qed
qed

lemma roll_back_inv:
  assumes "roll_back env f st = Continue st'" "follow_inv st" "int f \<in> block_numbers (fo_db st)"
  shows "follow_inv st'"
proof -
  have "int f < 2 ^ 63" using assms(2,3) by (auto simp: follow_inv_def contiguous_def split: option.splits)
  then have "u64_as_i64 f = int f" by simp
  with assms(1) have "fo_db st' = below (int f) (fo_db st)"
    by (auto simp: roll_back_def rollback_below split: fault.splits)
  with assms(2,3) rollback_contiguous index_ok_below show ?thesis by (simp add: follow_inv_def)
qed

interpretation fl: invariant_system "follow_step E batch conf" follow_inv
proof
  fix st st'
  assume inv: "follow_inv st" and "follow_step E batch conf st st'"
  then obtain env where c: "follow_cycle E batch conf env st = Continue st'"
    and bound: "\<And>head. cy_head env = Inr head \<Longrightarrow> head + batch < 2 ^ 63"
    by (auto elim: follow_stepE)
  define st1 where "st1 = st\<lparr>fo_metrics := (fo_metrics st)\<lparr>fm_cycle := wrap_add (fm_cycle (fo_metrics st)) 1\<rparr>\<rparr>"
  have db1: "fo_db st1 = fo_db st" by (simp add: st1_def)
  then have inv1: "follow_inv st1" using inv by (simp add: follow_inv_def)
  from c consider "index_next E batch conf env st1 = Continue st'"
    | f calls where "detect_fork (cy_hashes env) REORG_SCAN_CAP (fo_db st1) = Inr (Some f, calls)"
        "roll_back env f st1 = Continue st'"
    unfolding follow_cycle_def Let_def st1_def [symmetric]
    by (auto split: if_splits sum.splits prod.splits option.splits)
  then show "follow_inv st'"
  proof cases
    case 1
    then show ?thesis using inv1 bound by (rule index_next_inv)
  next
    case 2
    then show ?thesis using detected_fork_stored [OF 2(1)] inv1 roll_back_inv by (auto simp: follow_inv_def)
  qed
qed

text \<open>C3: while the follow loop runs, the index has no holes.  Starting from a consistent database whose
  blocks form one interval that ends at the checkpoint, any number of cycles, under any node answers,
  fork depths, schedules of the block tasks and wake-ups, leads to a consistent database whose blocks
  again form one interval that ends at the checkpoint.\<close>

theorem follow_contiguous:
  assumes "(follow_step E batch_size confirmations)\<^sup>*\<^sup>* st st'"
    and "index_ok (fo_db st)" "contiguous (fo_db st)"
  shows "index_ok (fo_db st')
     \<and> (case checkpoint (fo_db st') of
          None \<Rightarrow> block_numbers (fo_db st') = {}
        | Some c \<Rightarrow> \<exists>lo \<ge> 0. block_numbers (fo_db st') = {lo..c})"
proof -
  have "follow_inv st'" using fl.reachable [OF assms(1)] assms(2,3) by (simp add: follow_inv_def)
  then show ?thesis by (auto simp: follow_inv_def contiguous_def split: option.splits)
qed

definition sample_cycle :: "rpc_hash \<Rightarrow> cycle_env" where
  "sample_cycle rpc = \<lparr>cy_node = sample_node, cy_hashes = rpc, cy_hashes_lost = False, cy_rollback = Works,
     cy_head = Inr 112, cy_checkpoint_lost = False, cy_chunks = [], cy_cancel = False, cy_wake = Slept\<rparr>"

definition sample_state :: "db \<Rightarrow> follow_state" where
  "sample_state d = \<lparr>fo_db = d,
     fo_metrics = \<lparr>fm_cycle = 0, fm_blocks_indexed = 0, fm_reorgs = 0, fm_last_reorg_depth = 0\<rparr>, fo_subscribed = False\<rparr>"

lemma detect_fork_answered:
  assumes "\<forall>x \<in> set (local_hashes REORG_SCAN_CAP d). answered rpc (fst x)"
  shows "\<exists>calls. detect_fork rpc REORG_SCAN_CAP d = Inr (fork_point rpc (local_hashes REORG_SCAN_CAP d), calls)"
  using detect_fork_ok [of REORG_SCAN_CAP rpc d] assms by (auto simp: REORG_SCAN_CAP_def search_ok_def)

lemma sample_contiguous: "contiguous sample_db"
proof -
  have "block_numbers sample_db = {10..11}"
    by (auto simp: block_numbers_def sample_db_def sample_block_def empty_db_def)
  then show ?thesis
    by (auto simp: contiguous_def checkpoint_def sample_db_def intro!: exI [of _ 10])
qed

lemma sample_reorg_cycle:
  "\<exists>st. follow_cycle sample_ext 2 12 (sample_cycle sample_rpc) (sample_state sample_db) = Continue st
     \<and> checkpoint (fo_db st) = Some 10 \<and> map b_block_number (blocks (fo_db st)) = [10]
     \<and> fm_reorgs (fo_metrics st) = 1 \<and> fm_last_reorg_depth (fo_metrics st) = 1"
proof -
  have l: "local_hashes REORG_SCAN_CAP sample_db = [(11, ''h11''), (10, ''h10'')]"
    by (simp add: local_hashes_def REORG_SCAN_CAP_def sample_db_def empty_db_def sample_block_def i64_as_u64_def)
  obtain calls where "detect_fork sample_rpc REORG_SCAN_CAP sample_db = Inr (Some 11, calls)"
    using detect_fork_answered [of sample_db sample_rpc]
    by (auto simp: l fork_point_def differs_def agrees_def answered_def sample_rpc_def)
  then show ?thesis
    by (simp add: follow_cycle_def sample_cycle_def sample_state_def roll_back_def rollback_below below_def
        sample_db_def empty_db_def sample_block_def checkpoint_def map_of_rewind wrap_add_def)
qed

theorem follow_contiguous_witness:
  "\<exists>st'. (follow_step sample_ext 2 12)\<^sup>*\<^sup>* (sample_state sample_db) st' \<and> checkpoint (fo_db st') = Some 10
     \<and> (\<exists>lo \<ge> 0. block_numbers (fo_db st') = {lo..10})"
proof -
  obtain st where st: "follow_cycle sample_ext 2 12 (sample_cycle sample_rpc) (sample_state sample_db) = Continue st"
    and c: "checkpoint (fo_db st) = Some 10"
    using sample_reorg_cycle by blast
  have r: "(follow_step sample_ext 2 12)\<^sup>*\<^sup>* (sample_state sample_db) st"
    by (rule r_into_rtranclp, rule follow_step.cycle [OF st]) (simp add: sample_cycle_def)
  from follow_contiguous [OF r] sample_db_ok sample_contiguous c show ?thesis
    using r by (auto simp: sample_state_def)
qed

section \<open>A failed chunk followed by a reorganisation\<close>

definition quiet_node :: node where
  "quiet_node = \<lparr>get_block_full = (\<lambda>_. Inr (sample_rpc_block\<lparr>hdr_transactions := []\<rparr>)),
     get_block_receipts = (\<lambda>_. Inr []), debug_trace_transaction = (\<lambda>_. Inl ''none'')\<rparr>"

definition first_lost :: cycle_env where
  "first_lost = (sample_cycle (\<lambda>h. Inr (if h = 100 then Some ''h100'' else None)))
     \<lparr>cy_node := quiet_node,
      cy_chunks := [\<lparr>ce_cancel = False, ce_script = [(1, Works), (1, Works), (0, Lost_before)], ce_checkpoint = Works\<rparr>]\<rparr>"

definition after_restart :: cycle_env where
  "after_restart = sample_cycle (\<lambda>h. Inr (Some (if h = 100 then ''h100'' else ''0xother'')))"

definition at_100 :: db where
  "at_100 = empty_db\<lparr>blocks := [sample_block 100 ''h100'' ''h99''], checkpoints := [(1, 100)]\<rparr>"

definition with_102 :: db where
  "with_102 = at_100\<lparr>blocks := blocks at_100 @ [block_model sample_ext 102 (sample_rpc_block\<lparr>hdr_transactions := []\<rparr>)]\<rparr>"

lemma quiet_plan: "process_block sample_ext quiet_node n =
    [Write (W_blocks [block_model sample_ext n (sample_rpc_block\<lparr>hdr_transactions := []\<rparr>)])]"
  by (simp add: process_block_def quiet_node_def tx_models_def log_events_def when_rows_def Let_def)

lemma first_lost_range:
  "index_range sample_ext quiet_node 2 101 102 (cy_chunks first_lost) at_100 = (RErr, with_102)"
proof -
  have w: "run_write (W_blocks [block_model sample_ext 102 (sample_rpc_block\<lparr>hdr_transactions := []\<rparr>)]) at_100 =
      Inr (1, with_102)"
    by (simp add: insert_blocks_def insert_rows_def row_defs with_102_def at_100_def empty_db_def sample_block_def block_model_def
        sample_rpc_block_def varchar_ok_def text_ok_def char_len_def opt_ok_def)
  have c: "[101 ..< Suc 102] = [101, 102 :: nat]" by (simp add: upt_rec)
  show ?thesis
    by (simp add: index_range_def first_lost_def sample_cycle_def Let_def wrap_add_def wrap_sub_def
        process_chunk_def c quiet_plan attempt_def w del: run_write.simps upt_Suc)
qed

lemma stored_hashes:
  "local_hashes REORG_SCAN_CAP at_100 = [(100, ''h100'')]"
  "local_hashes REORG_SCAN_CAP with_102 = [(102, ''0xh''), (100, ''h100'')]"
  by (simp_all add: local_hashes_def REORG_SCAN_CAP_def with_102_def at_100_def empty_db_def sample_block_def
      block_model_def sample_rpc_block_def i64_as_u64_def u64_as_i64_def)

text \<open>C11: a hole that a failed chunk leaves is sealed by a reorganisation.  The chunk of blocks 101 and
  102 stops with an error after only block 102 was stored; when the indexer is started again and the
  node has replaced block 102, the rollback moves the checkpoint forward from 100 to 101, and the next
  range starts at block 102: block 101 is never indexed.\<close>

theorem failed_chunk_then_reorg_skips_a_block:
  "\<exists>st st'. follow_cycle sample_ext 2 10 first_lost (sample_state at_100) = Errored st
     \<and> checkpoint (fo_db st) = Some 100 \<and> map b_block_number (blocks (fo_db st)) = [100, 102]
     \<and> follow_cycle sample_ext 2 10 after_restart st = Continue st'
     \<and> checkpoint (fo_db st') = Some 101 \<and> map b_block_number (blocks (fo_db st')) = [100]
     \<and> next_target 112 10 (checkpoint (fo_db st')) = Some (102, 102)"
proof -
  let ?rpc = "cy_hashes first_lost" and ?rpc' = "cy_hashes after_restart"
  obtain c c' where d: "detect_fork ?rpc REORG_SCAN_CAP at_100 = Inr (None, c)"
    "detect_fork ?rpc' REORG_SCAN_CAP with_102 = Inr (Some 102, c')"
    using detect_fork_answered [of at_100 ?rpc] detect_fork_answered [of with_102 ?rpc']
    by (auto simp: stored_hashes fork_point_def differs_def agrees_def answered_def first_lost_def
        after_restart_def sample_cycle_def)
  have n: "next_target 112 10 (Some 100) = Some (101, 102)" "next_target 112 10 (Some 101) = Some (102, 102)"
    "cap_range_to 101 102 FOLLOW_CYCLE_BLOCK_CAP = (101, 102)"
    by (simp_all add: next_target_def cap_range_to_def FOLLOW_CYCLE_BLOCK_CAP_def sat_sub_def sat_add_def u64_max_def)
  have c: "checkpoint at_100 = Some 100" by (simp add: checkpoint_def at_100_def)
  have f: "cy_hashes_lost first_lost = False" "cy_head first_lost = Inr 112" "cy_checkpoint_lost first_lost = False"
    "cy_node first_lost = quiet_node" "cy_hashes_lost after_restart = False" "cy_rollback after_restart = Works"
    by (simp_all add: first_lost_def after_restart_def sample_cycle_def)
  show ?thesis
    by (simp add: follow_cycle_def index_next_def roll_back_def sample_state_def f d n c first_lost_range rollback_below)
      (simp add: with_102_def at_100_def below_def checkpoint_def empty_db_def map_of_rewind sample_block_def block_model_def n)
qed

end
