(* ===== verification/Schema.thy ===== *)
theory Schema
  imports Follow
begin

text \<open>
  What every writer of the indexing tables keeps.  The locale \<open>table_invariant\<close> asks of a property of the
  database that each batch insert of a block task, the checkpoint update and the rollback keep it; it
  follows for process_chunk, index_range and the follow loop of
  \<^verbatim>\<open>crates/indexer/src/worker.rs\<close>, whatever the schedule, the lost queries and the cancellations.  The
  locale is interpreted on the schema: column types, row checks, unique and foreign keys.
\<close>

section \<open>Properties the writers keep\<close>

text \<open>The database a cycle ends in.\<close>

fun outcome_db :: "outcome \<Rightarrow> db" where
  "outcome_db (Continue st) = fo_db st"
| "outcome_db (Stopped st) = fo_db st"
| "outcome_db (Errored st) = fo_db st"
| "outcome_db (Panicked st) = fo_db st"
| "outcome_db (Unfinished st) = fo_db st"

locale table_invariant =
  fixes P :: "db \<Rightarrow> bool"
  assumes write_keeps: "run_write w d = Inr (n, d') \<Longrightarrow> P d \<Longrightarrow> P d'"
    and mark_keeps: "update_checkpoint c v d = Inr (u, d') \<Longrightarrow> P d \<Longrightarrow> P d'"
    and rollback_keeps: "rollback_from_block f d = Inr (n, d') \<Longrightarrow> P d \<Longrightarrow> P d'"
begin

lemma attempt_keeps:
  assumes "attempt s f d = (b, d')" "P d" "\<And>x e. s d = Inr (x, e) \<Longrightarrow> P e"
  shows "P d'"
  using assms by (auto simp: attempt_def split: fault.splits sum.splits)

lemma task_event_keeps:
  assumes "P (snd s)"
  shows "P (snd (task_event e s))"
proof -
  obtain i f ts d where s: "e = (i, f)" "s = (ts, d)" by (metis prod.exhaust)
  have "P d'" if "attempt (run_write w) f d = (b, d')" for w b d'
    using attempt_keeps [OF that] write_keeps assms s by simp
  then show ?thesis
    using assms s by (auto split: task.splits list.splits task_step.splits prod.splits bool.splits)
qed

lemma script_keeps: "P (snd s) \<Longrightarrow> P (snd (fold task_event script s))"
  by (induction script arbitrary: s) (simp_all add: task_event_keeps)

lemma process_chunk_keeps:
  assumes "process_chunk E N a b script d = (r, d')" "P d"
  shows "P d'"
proof -
  obtain ts e where f: "fold task_event script (map (\<lambda>n. Running (process_block E N n)) [a ..< Suc b], d) = (ts, e)"
    by (metis surj_pair)
  have "P e" using script_keeps [of "(map (\<lambda>n. Running (process_block E N n)) [a ..< Suc b], d)" script] assms(2) f
    by (simp del: upt_Suc)
  with assms(1) f show ?thesis by (auto simp: process_chunk_def simp del: upt_Suc split: if_splits)
qed

lemma index_loop_keeps: "index_loop E N batch a b envs d = (r, d') \<Longrightarrow> P d \<Longrightarrow> P d'"
proof (induction E N batch a b envs d rule: index_loop.induct)
  case (2 E N batch a b env envs d)
  let ?e = "min (wrap_sub (wrap_add a batch) 1) b"
  show ?case
  proof (cases "b < a \<or> ce_cancel env")
    case False
    obtain r1 d1 where c: "process_chunk E N a ?e (ce_script env) d = (r1, d1)" by fastforce
    with "2.prems" have d1: "P d1" using process_chunk_keeps by blast
    obtain ok d2 where u: "attempt (update_checkpoint 1 (u64_as_i64 ?e)) (ce_checkpoint env) d1 = (ok, d2)" by fastforce
    have d2: "P d2" using attempt_keeps [OF u d1] mark_keeps d1 by blast
    from "2.prems" False c u d1 d2 "2.IH" [OF _ _ refl c [symmetric] _ u [symmetric]] show ?thesis
      by (cases r1; cases ok) (auto simp: Let_def)
  qed (use "2.prems" in \<open>auto split: if_splits\<close>)
qed (auto split: if_splits)

lemma index_range_keeps: "index_range E N batch a b envs d = (r, d') \<Longrightarrow> P d \<Longrightarrow> P d'"
  by (auto simp: index_range_def index_loop_keeps split: if_splits)

lemma finish_cycle_keeps: "P (fo_db st) \<Longrightarrow> P (outcome_db (finish_cycle env st))"
  by (auto simp: finish_cycle_def split: wake.split)

lemma roll_back_keeps: "P (fo_db st) \<Longrightarrow> P (outcome_db (roll_back env f st))"
  by (auto simp: roll_back_def split: sum.split fault.split dest: rollback_keeps)

lemma index_next_keeps:
  assumes "P (fo_db st)"
  shows "P (outcome_db (index_next E batch conf env st))"
  using assms index_range_keeps
  by (auto simp: index_next_def split: sum.split option.split run_result.split prod.split intro!: finish_cycle_keeps)

lemma follow_cycle_keeps: "P (fo_db st) \<Longrightarrow> P (outcome_db (follow_cycle E batch conf env st))"
  by (auto simp: follow_cycle_def Let_def split: sum.split option.split intro: roll_back_keeps index_next_keeps)

end

section \<open>The schema\<close>

definition rows_ok :: "db \<Rightarrow> bool" where
  "rows_ok d \<longleftrightarrow>
     list_all block_check (blocks d) \<and> list_all transaction_check (transactions d)
     \<and> list_all swap_check (swap_events d) \<and> list_all liquidity_check (liquidity_events d)
     \<and> list_all transfer_check (token_transfers d) \<and> list_all failed_check (failed_transactions d)
     \<and> list_all trace_check (trace_logs d)"

definition schema_ok :: "db \<Rightarrow> bool" where
  "schema_ok d \<longleftrightarrow> rows_ok d \<and> index_ok d"

lemma insert_rows_checked:
  assumes "insert_rows key check fk tbl rows = Inr t" "list_all check tbl"
  shows "list_all check t"
  using insert_rows_cases [OF assms(1)] set_insert_new [of key tbl rows] assms(2) by (auto simp: list_all_iff)

lemma number_checked [simp]:
  "list_all swap_check (number_rows (\<lambda>i s. s\<lparr>s_event_id := i\<rparr>) k ss) = list_all swap_check ss"
  "list_all liquidity_check (number_rows (\<lambda>i l. l\<lparr>l_event_id := i\<rparr>) k ls) = list_all liquidity_check ls"
  "list_all transfer_check (number_rows (\<lambda>i x. x\<lparr>x_transfer_id := i\<rparr>) k xs) = list_all transfer_check xs"
  "list_all trace_check (number_rows (\<lambda>i g. g\<lparr>g_trace_id := i\<rparr>) k gs) = list_all trace_check gs"
  by (rule number_rows_all, simp add: row_defs)+

lemma run_write_rows:
  assumes "run_write w d = Inr (n, d')" "rows_ok d"
  shows "rows_ok d'"
  using assms by (cases w) (auto simp: rows_ok_def insert_blocks_def insert_transactions_def insert_swap_events_def
      insert_liquidity_events_def insert_token_transfers_def insert_failed_transactions_def insert_trace_logs_def
      split: if_splits sum.splits dest: insert_rows_checked)

interpretation sc: table_invariant schema_ok
proof
  fix w n and d d' :: db
  assume "run_write w d = Inr (n, d')" "schema_ok d"
  then show "schema_ok d'" using run_write_rows run_write_effect(3) by (auto simp: schema_ok_def)
next
  fix c v u and d d' :: db
  assume "update_checkpoint c v d = Inr (u, d')" "schema_ok d"
  then show "schema_ok d'"
    using update_checkpoint_ok by (auto simp: schema_ok_def rows_ok_def update_checkpoint_def)
next
  fix f n and d d' :: db
  assume "rollback_from_block f d = Inr (n, d')" "schema_ok d"
  then show "schema_ok d'"
    using index_ok_below by (auto simp: rollback_below schema_ok_def rows_ok_def below_def Let_def list_all_iff)
qed

end
