(* ===== verification/Alerts.thy ===== *)
theory Alerts
  imports Rollback
begin

text \<open>
  The alert tables (\<^verbatim>\<open>crates/db/src/queries.rs\<close>, the sections on actionable and rate-threshold
  alerts): subscriptions, the delivery ledger that hands a (subscription, transaction) pair to one
  dispatcher at a time, and the dispatch history that debounces rate alerts.  Instants count
  microseconds, the resolution of \<^verbatim>\<open>TIMESTAMPTZ\<close>; \<^verbatim>\<open>NOW()\<close> is an argument of every statement that
  reads the clock.  The ledger is then abstracted to a map from pairs to their status, on which
  claiming and recording are two-line specifications.
\<close>

section \<open>Statements\<close>

definition interval_secs :: "int \<Rightarrow> int" where
  "interval_secs n = 1000000 * n"

definition subscription_known :: "db \<Rightarrow> i64 \<Rightarrow> bool" where
  "subscription_known d i \<longleftrightarrow> i \<in> set (map a_subscription_id (subscriptions d))"

subsection \<open>Subscriptions\<close>

definition add_subscription :: "alert_subscription \<Rightarrow> alert_subscription stmt" where
  "add_subscription a d =
     (let row = a\<lparr>a_subscription_id := seq_subscription d\<rparr> in
      if \<not> (opt_ok text_ok (a_to_addr row) \<and> text_ok (a_webhook_url row) \<and> text_ok (a_signing_secret row)
            \<and> rate_fields_chk row)
      then Inl (Sqlx ''check constraint'')
      else Inr (row, d\<lparr>subscriptions := subscriptions d @ [row], seq_subscription := seq_subscription d + 1\<rparr>))"

definition insert_alert_subscription ::
    "instant \<Rightarrow> error_category option \<Rightarrow> string option \<Rightarrow> string \<Rightarrow> string \<Rightarrow> alert_subscription stmt" where
  "insert_alert_subscription now error_category to_addr webhook_url signing_secret =
     add_subscription \<lparr>a_subscription_id = 0, a_error_category = error_category, a_to_addr = to_addr,
       a_webhook_url = webhook_url, a_signing_secret = signing_secret, a_active = True, a_created_at = now,
       a_sub_type = ''per_event'', a_threshold_count = None, a_threshold_window_secs = None, a_debounce_secs = None\<rparr>"

definition insert_alert_subscription_rate ::
    "instant \<Rightarrow> error_category option \<Rightarrow> string option \<Rightarrow> string \<Rightarrow> string \<Rightarrow> i32 \<Rightarrow> i32 \<Rightarrow> i32
     \<Rightarrow> alert_subscription stmt" where
  "insert_alert_subscription_rate now error_category to_addr webhook_url signing_secret
       threshold_count threshold_window_secs debounce_secs =
     add_subscription \<lparr>a_subscription_id = 0, a_error_category = error_category, a_to_addr = to_addr,
       a_webhook_url = webhook_url, a_signing_secret = signing_secret, a_active = True, a_created_at = now,
       a_sub_type = ''rate_threshold'', a_threshold_count = Some threshold_count,
       a_threshold_window_secs = Some threshold_window_secs, a_debounce_secs = Some debounce_secs\<rparr>"

definition list_alert_subscriptions :: "i64 \<Rightarrow> alert_subscription list stmt" where
  "list_alert_subscriptions limit d =
     (case pg_limit limit (sort_key (\<lambda>a. - a_subscription_id a) (subscriptions d)) of
        Inl e \<Rightarrow> Inl e | Inr rows \<Rightarrow> Inr (rows, d))"

definition deactivate_alert_subscription :: "i64 \<Rightarrow> nat stmt" where
  "deactivate_alert_subscription i d =
     (let hit = (\<lambda>a. a_subscription_id a = i \<and> a_active a) in
      Inr (length (filter hit (subscriptions d)),
           d\<lparr>subscriptions := map (\<lambda>a. if hit a then a\<lparr>a_active := False\<rparr> else a) (subscriptions d)\<rparr>))"

text \<open>Both ledgers reference the subscription \<^verbatim>\<open>ON DELETE CASCADE\<close>.\<close>

definition delete_alert_subscription :: "i64 \<Rightarrow> nat stmt" where
  "delete_alert_subscription i d =
     Inr (length (filter (\<lambda>a. a_subscription_id a = i) (subscriptions d)),
          d\<lparr>subscriptions := filter (\<lambda>a. a_subscription_id a \<noteq> i) (subscriptions d),
            deliveries := filter (\<lambda>r. d_subscription_id r \<noteq> i) (deliveries d),
            rate_dispatches := filter (\<lambda>r. rd_subscription_id r \<noteq> i) (rate_dispatches d)\<rparr>)"

definition rotate_alert_subscription_secret :: "i64 \<Rightarrow> string \<Rightarrow> alert_subscription option stmt" where
  "rotate_alert_subscription_secret i new_secret d =
     (if \<not> text_ok new_secret then Inl (Sqlx ''invalid text'')
      else
        let hit = (\<lambda>a. a_subscription_id a = i \<and> a_active a);
            rows = map (\<lambda>a. if hit a then a\<lparr>a_signing_secret := new_secret\<rparr> else a) (subscriptions d)
        in Inr (find hit rows, d\<lparr>subscriptions := rows\<rparr>))"

subsection \<open>The delivery ledger\<close>

definition delivery_key :: "alert_delivery \<Rightarrow> i64 \<times> string" where
  "delivery_key r = (d_subscription_id r, d_tx_hash r)"

definition find_delivery :: "i64 \<times> string \<Rightarrow> db \<Rightarrow> alert_delivery option" where
  "find_delivery k d = find (\<lambda>r. delivery_key r = k) (deliveries d)"

definition put_delivery :: "i64 \<times> string \<Rightarrow> (alert_delivery \<Rightarrow> alert_delivery) \<Rightarrow> db \<Rightarrow> db" where
  "put_delivery k f d = d\<lparr>deliveries := map (\<lambda>r. if delivery_key r = k then f r else r) (deliveries d)\<rparr>"

definition add_delivery :: "alert_delivery \<Rightarrow> 'a \<Rightarrow> 'a stmt" where
  "add_delivery r x d =
     (if \<not> (text_ok (d_tx_hash r) \<and> opt_ok text_ok (d_last_error r)) then Inl (Sqlx ''invalid text'')
      else if \<not> subscription_known d (d_subscription_id r) then Inl (Sqlx ''foreign key'')
      else Inr (x, d\<lparr>deliveries := deliveries d @ [r]\<rparr>))"

definition claimable :: "instant \<Rightarrow> i64 \<Rightarrow> alert_delivery \<Rightarrow> bool" where
  "claimable now stale_after_secs r \<longleftrightarrow>
     d_status r = ''failed''
     \<or> (d_status r = ''claimed'' \<and> d_created_at r < now - interval_secs stale_after_secs)"

definition try_claim_alert_match :: "instant \<Rightarrow> i64 \<Rightarrow> string \<Rightarrow> i64 \<Rightarrow> bool stmt" where
  "try_claim_alert_match now subscription_id tx_hash stale_after_secs d =
     (if \<not> int4_ok stale_after_secs then Inl (Sqlx ''integer out of range'')
      else case find_delivery (subscription_id, tx_hash) d of
        None \<Rightarrow>
          add_delivery \<lparr>d_subscription_id = subscription_id, d_tx_hash = tx_hash, d_status = ''claimed'',
            d_attempts = 1, d_last_error = None, d_delivered_at = None, d_created_at = now\<rparr> True d
      | Some r \<Rightarrow>
          if \<not> claimable now stale_after_secs r then Inr (False, d)
          else if \<not> int4_ok (d_attempts r + 1) then Inl (Sqlx ''integer out of range'')
          else Inr (True, put_delivery (subscription_id, tx_hash) (\<lambda>r. r\<lparr>d_status := ''claimed'',
                 d_attempts := d_attempts r + 1, d_last_error := None, d_delivered_at := None,
                 d_created_at := now\<rparr>) d))"

definition record_alert_delivery :: "instant \<Rightarrow> i64 \<Rightarrow> string \<Rightarrow> bool \<Rightarrow> string option \<Rightarrow> unit stmt" where
  "record_alert_delivery now subscription_id tx_hash delivered last_error d =
     (let status = (if delivered then ''delivered'' else ''failed'') in
      case find_delivery (subscription_id, tx_hash) d of
        None \<Rightarrow>
          add_delivery \<lparr>d_subscription_id = subscription_id, d_tx_hash = tx_hash, d_status = status,
            d_attempts = 1, d_last_error = last_error,
            d_delivered_at = (if delivered then Some now else None), d_created_at = now\<rparr> () d
      | Some r \<Rightarrow>
          if \<not> opt_ok text_ok last_error then Inl (Sqlx ''invalid text'')
          else if \<not> int4_ok (d_attempts r + 1) then Inl (Sqlx ''integer out of range'')
          else Inr ((), put_delivery (subscription_id, tx_hash) (\<lambda>r. r\<lparr>d_status := status,
                 d_attempts := d_attempts r + 1, d_last_error := last_error,
                 d_delivered_at := (if delivered then Some now else d_delivered_at r)\<rparr>) d))"

subsection \<open>Matching\<close>

text \<open>A null category or address matches everything; the outer join to the transaction gives a null
  address when the transaction is not stored, which equals nothing.\<close>

definition sub_matches :: "db \<Rightarrow> alert_subscription \<Rightarrow> failed_transaction \<Rightarrow> bool" where
  "sub_matches d s f \<longleftrightarrow>
     (a_error_category s = None \<or> a_error_category s = Some (f_error_category f))
     \<and> (case a_to_addr s of
          None \<Rightarrow> True
        | Some a \<Rightarrow>
            (case find (\<lambda>t. t_tx_hash t = f_tx_hash f) (transactions d) of
               None \<Rightarrow> False | Some t \<Rightarrow> t_to_addr t = Some a))"

definition in_flight :: "instant \<Rightarrow> i64 \<Rightarrow> db \<Rightarrow> i64 \<times> string \<Rightarrow> bool" where
  "in_flight now stale_after_secs d k \<longleftrightarrow>
     list_ex (\<lambda>r. delivery_key r = k
        \<and> (d_status r = ''delivered''
           \<or> (d_status r = ''claimed'' \<and> now - interval_secs stale_after_secs < d_created_at r))) (deliveries d)"

text \<open>Rows of equal \<^verbatim>\<open>tx_hash\<close> come in no specified order; here they keep the order of the join.\<close>

definition pending_pairs :: "instant \<Rightarrow> i64 \<Rightarrow> db \<Rightarrow> alert_match list" where
  "pending_pairs now stale_after_secs d =
     concat (map (\<lambda>s. map (\<lambda>f. \<lparr>m_subscription_id = a_subscription_id s, m_tx_hash = f_tx_hash f,
                                 m_webhook_url = a_webhook_url s, m_signing_secret = a_signing_secret s\<rparr>)
        (filter (\<lambda>f. a_active s \<and> a_sub_type s = ''per_event'' \<and> sub_matches d s f
            \<and> \<not> in_flight now stale_after_secs d (a_subscription_id s, f_tx_hash f)) (failed_transactions d)))
        (subscriptions d))"

definition find_pending_alert_matches :: "instant \<Rightarrow> i64 \<Rightarrow> i64 \<Rightarrow> alert_match list stmt" where
  "find_pending_alert_matches now limit stale_after_secs d =
     (if \<not> int4_ok stale_after_secs then Inl (Sqlx ''integer out of range'')
      else case pg_limit limit (sort_key m_tx_hash (pending_pairs now stale_after_secs d)) of
             Inl e \<Rightarrow> Inl e | Inr rows \<Rightarrow> Inr (rows, d))"

subsection \<open>Rate alerts\<close>

text \<open>Comparisons with a null threshold, window or debounce interval select nothing, except that a
  null debounce interval never excludes.\<close>

definition rate_hits :: "instant \<Rightarrow> db \<Rightarrow> alert_subscription \<Rightarrow> failed_transaction list" where
  "rate_hits now d s =
     filter (\<lambda>f. sub_matches d s f
       \<and> (case a_threshold_window_secs s of None \<Rightarrow> False | Some w \<Rightarrow> now - interval_secs w \<le> f_timestamp f))
       (failed_transactions d)"

definition debounced :: "instant \<Rightarrow> db \<Rightarrow> alert_subscription \<Rightarrow> bool" where
  "debounced now d s \<longleftrightarrow>
     (case a_debounce_secs s of
        None \<Rightarrow> False
      | Some b \<Rightarrow> list_ex (\<lambda>r. rd_subscription_id r = a_subscription_id s
                             \<and> now - interval_secs b < rd_dispatched_at r) (rate_dispatches d))"

definition rate_due :: "instant \<Rightarrow> db \<Rightarrow> alert_subscription \<Rightarrow> bool" where
  "rate_due now d s \<longleftrightarrow>
     a_active s \<and> a_sub_type s = ''rate_threshold'' \<and> \<not> debounced now d s \<and> rate_hits now d s \<noteq> []
     \<and> (case a_threshold_count s of None \<Rightarrow> False | Some c \<Rightarrow> c \<le> int (length (rate_hits now d s)))"

definition find_pending_rate_alert_matches :: "instant \<Rightarrow> i64 \<Rightarrow> rate_alert_match list stmt" where
  "find_pending_rate_alert_matches now limit d =
     (let rows = map (\<lambda>s. \<lparr>r_subscription_id = a_subscription_id s, r_webhook_url = a_webhook_url s,
                r_signing_secret = a_signing_secret s, r_match_count = int (length (rate_hits now d s)),
                r_threshold_count = the (a_threshold_count s),
                r_threshold_window_secs = the (a_threshold_window_secs s)\<rparr>)
              (filter (rate_due now d) (subscriptions d))
      in case pg_limit limit (sort_key r_subscription_id rows) of
           Inl e \<Rightarrow> Inl e | Inr rs \<Rightarrow> Inr (rs, d))"

definition record_rate_alert_dispatch :: "instant \<Rightarrow> i64 \<Rightarrow> i32 \<Rightarrow> bool \<Rightarrow> string option \<Rightarrow> unit stmt" where
  "record_rate_alert_dispatch now subscription_id match_count delivered last_error d =
     (let status = (if delivered then ''delivered'' else ''failed'') in
      if \<not> opt_ok text_ok last_error then Inl (Sqlx ''invalid text'')
      else if \<not> subscription_known d subscription_id then Inl (Sqlx ''foreign key'')
      else Inr ((), d\<lparr>rate_dispatches := rate_dispatches d @
             [\<lparr>rd_dispatch_id = seq_rate d, rd_subscription_id = subscription_id, rd_dispatched_at = now,
               rd_match_count = match_count, rd_status = status, rd_last_error = last_error\<rparr>],
           seq_rate := seq_rate d + 1\<rparr>))"

section \<open>The ledger as a map\<close>

datatype ledger_entry = Sent | Retry | Held instant

definition entry_of :: "alert_delivery \<Rightarrow> ledger_entry" where
  "entry_of r =
     (if d_status r = ''delivered'' then Sent
      else if d_status r = ''claimed'' then Held (d_created_at r) else Retry)"

definition ledger :: "db \<Rightarrow> i64 \<times> string \<rightharpoonup> ledger_entry" where
  "ledger d k = map_option entry_of (find_delivery k d)"

definition ledger_ok :: "db \<Rightarrow> bool" where
  "ledger_ok d \<longleftrightarrow> distinct (map delivery_key (deliveries d))
     \<and> list_all (\<lambda>r. d_status r \<in> {''delivered'', ''claimed'', ''failed''}) (deliveries d)"

text \<open>What the ledger promises: a pair is granted when it is new, failed, or held for longer than the
  stale interval, and settling it fixes its status.\<close>

fun granted :: "instant \<Rightarrow> int \<Rightarrow> ledger_entry option \<Rightarrow> bool" where
  "granted now stale None = True"
| "granted now stale (Some Sent) = False"
| "granted now stale (Some Retry) = True"
| "granted now stale (Some (Held t)) = (t < now - stale)"

definition spec_claim ::
    "instant \<Rightarrow> int \<Rightarrow> 'k \<Rightarrow> ('k \<rightharpoonup> ledger_entry) \<Rightarrow> bool \<times> ('k \<rightharpoonup> ledger_entry)" where
  "spec_claim now stale k L = (if granted now stale (L k) then (True, L(k \<mapsto> Held now)) else (False, L))"

definition spec_settle :: "'k \<Rightarrow> bool \<Rightarrow> ('k \<rightharpoonup> ledger_entry) \<Rightarrow> ('k \<rightharpoonup> ledger_entry)" where
  "spec_settle k delivered L = L(k \<mapsto> (if delivered then Sent else Retry))"

locale claim_ledger =
  fixes claim :: "instant \<Rightarrow> 'k \<Rightarrow> 's \<Rightarrow> 'e + (bool \<times> 's)"
    and settle :: "instant \<Rightarrow> 'k \<Rightarrow> bool \<Rightarrow> string option \<Rightarrow> 's \<Rightarrow> 'e + (unit \<times> 's)"
    and view :: "'s \<Rightarrow> 'k \<rightharpoonup> ledger_entry"
    and okay :: "'s \<Rightarrow> bool"
    and stale :: int
  assumes claim_spec: "okay s \<Longrightarrow> claim now k s = Inr (b, s') \<Longrightarrow> okay s' \<and> (b, view s') = spec_claim now stale k (view s)"
    and settle_spec: "okay s \<Longrightarrow> settle now k dv err s = Inr (u, s') \<Longrightarrow> okay s' \<and> view s' = spec_settle k dv (view s)"
    and refusal_total: "okay s \<Longrightarrow> \<not> granted now stale (view s k) \<Longrightarrow> claim now k s = Inr (False, s)"
begin

lemma claim_view:
  "okay s \<Longrightarrow> claim now k s = Inr (b, s') \<Longrightarrow>
     b = granted now stale (view s k) \<and> view s' = (if b then (view s)(k \<mapsto> Held now) else view s)"
  using claim_spec [of s now k b s'] by (auto simp: spec_claim_def split: if_splits)

lemma held_exclusive:
  assumes "okay s" "claim t0 k s = Inr (True, s')" "t \<le> t0 + stale"
  shows "claim t k s' = Inr (False, s')"
  using assms claim_view [OF assms(1,2)] claim_spec [OF assms(1,2)] by (intro refusal_total) auto

lemma sent_forever:
  assumes "okay s" "settle t0 k True err s = Inr (u, s')"
  shows "claim t k s' = Inr (False, s')"
  using settle_spec [OF assms] by (intro refusal_total) (auto simp: spec_settle_def)

lemma sent_stays:
  assumes "okay s" "view s k = Some Sent" "claim t k' s = Inr (b, s')"
  shows "view s' k = Some Sent"
  using claim_view [OF assms(1,3)] assms(2) by (cases "k' = k") auto

end

subsection \<open>The statements implement it\<close>

lemma delivery_key_update [simp]:
  "delivery_key (r\<lparr>d_status := s, d_attempts := n, d_last_error := e, d_delivered_at := x, d_created_at := c\<rparr>) = delivery_key r"
  "delivery_key (r\<lparr>d_status := s, d_attempts := n, d_last_error := e, d_delivered_at := x\<rparr>) = delivery_key r"
  by (simp_all add: delivery_key_def)

lemma find_delivery_put:
  assumes "\<And>r. delivery_key (f r) = delivery_key r"
  shows "find_delivery k' (put_delivery k f d) = (if k' = k then map_option f (find_delivery k d) else find_delivery k' d)"
proof -
  have "find (\<lambda>r. delivery_key r = k') (map (\<lambda>r. if delivery_key r = k then f r else r) rs) =
      (if k' = k then map_option f (find (\<lambda>r. delivery_key r = k) rs) else find (\<lambda>r. delivery_key r = k') rs)" for rs
    by (induction rs) (auto simp: assms)
  then show ?thesis by (simp add: find_delivery_def put_delivery_def)
qed

lemma put_delivery_ok:
  assumes "ledger_ok d" "\<And>r. delivery_key (f r) = delivery_key r" "\<And>r. d_status (f r) \<in> {''delivered'', ''claimed'', ''failed''}"
  shows "ledger_ok (put_delivery k f d)"
proof -
  have "map delivery_key (deliveries (put_delivery k f d)) = map delivery_key (deliveries d)"
    by (auto simp: put_delivery_def assms(2))
  moreover have "list_all (\<lambda>r. d_status r \<in> {''delivered'', ''claimed'', ''failed''}) (deliveries (put_delivery k f d))"
    using assms(1,3) by (auto simp: ledger_ok_def put_delivery_def list_all_iff)
  ultimately show ?thesis using assms(1) unfolding ledger_ok_def by presburger
qed

lemma find_append: "find P (xs @ ys) = (case find P xs of None \<Rightarrow> find P ys | Some x \<Rightarrow> Some x)"
  by (induction xs) auto

lemma add_delivery_effect:
  assumes "add_delivery r x d = Inr (y, d')" "ledger_ok d" "find_delivery (delivery_key r) d = None"
    and "d_status r \<in> {''delivered'', ''claimed'', ''failed''}"
  shows "y = x \<and> ledger_ok d' \<and> ledger d' = (ledger d)(delivery_key r \<mapsto> entry_of r)"
proof -
  have d': "d' = d\<lparr>deliveries := deliveries d @ [r]\<rparr>" and y: "y = x"
    using assms(1) by (auto simp: add_delivery_def split: if_splits)
  have new: "delivery_key r \<notin> delivery_key ` set (deliveries d)"
    using assms(3) by (auto simp: find_delivery_def find_None_iff)
  have "ledger d' k = ((ledger d)(delivery_key r \<mapsto> entry_of r)) k" for k
    using assms(3) by (auto simp: ledger_def find_delivery_def d' find_append split: option.splits)
  with new assms(2,4) y show ?thesis by (auto simp: ledger_ok_def d')
qed

lemma find_delivery_status:
  assumes "ledger_ok d" "find_delivery k d = Some r"
  shows "d_status r \<in> {''delivered'', ''claimed'', ''failed''} \<and> delivery_key r = k"
  using assms by (auto simp: find_delivery_def ledger_ok_def list_all_iff find_Some_iff)

lemma claimable_granted:
  assumes "ledger_ok d" "find_delivery k d = Some r"
  shows "claimable now n r \<longleftrightarrow> granted now (interval_secs n) (ledger d k)"
  using find_delivery_status [OF assms] assms(2) by (auto simp: claimable_def ledger_def entry_of_def)

lemma try_claim_spec:
  assumes "ledger_ok d" "try_claim_alert_match now i h n d = Inr (b, d')"
  shows "ledger_ok d' \<and> (b, ledger d') = spec_claim now (interval_secs n) (i, h) (ledger d)"
proof (cases "find_delivery (i, h) d")
  case None
  let ?r = "\<lparr>d_subscription_id = i, d_tx_hash = h, d_status = ''claimed'', d_attempts = 1, d_last_error = None,
     d_delivered_at = None, d_created_at = now\<rparr>"
  have "add_delivery ?r True d = Inr (b, d')"
    using assms(2) None by (auto simp: try_claim_alert_match_def split: if_splits)
  from add_delivery_effect [OF this assms(1)] None show ?thesis
    by (simp add: delivery_key_def spec_claim_def ledger_def entry_of_def)
next
  case (Some r)
  note cg = claimable_granted [OF assms(1) Some]
  show ?thesis
  proof (cases "claimable now n r")
    case True
    let ?f = "\<lambda>r. r\<lparr>d_status := ''claimed'', d_attempts := d_attempts r + 1, d_last_error := None,
       d_delivered_at := None, d_created_at := now\<rparr>"
    have r: "b" "d' = put_delivery (i, h) ?f d"
      using assms(2) Some True by (auto simp: try_claim_alert_match_def split: if_splits)
    have "ledger d' k = ((ledger d)((i, h) \<mapsto> Held now)) k" for k
      by (simp add: ledger_def r find_delivery_put Some entry_of_def)
    moreover have "ledger_ok d'" unfolding r using assms(1) by (rule put_delivery_ok) simp_all
    ultimately show ?thesis using True cg r(1) by (auto simp: spec_claim_def)
  next
    case False
    with assms Some cg show ?thesis by (auto simp: try_claim_alert_match_def spec_claim_def split: if_splits)
  qed
qed

lemma record_spec:
  assumes "ledger_ok d" "record_alert_delivery now i h dv err d = Inr (u, d')"
  shows "ledger_ok d' \<and> ledger d' = spec_settle (i, h) dv (ledger d)"
proof (cases "find_delivery (i, h) d")
  case None
  let ?r = "\<lparr>d_subscription_id = i, d_tx_hash = h, d_status = (if dv then ''delivered'' else ''failed''), d_attempts = 1,
     d_last_error = err, d_delivered_at = (if dv then Some now else None), d_created_at = now\<rparr>"
  have "add_delivery ?r () d = Inr (u, d')"
    using assms(2) None by (simp add: record_alert_delivery_def Let_def)
  from add_delivery_effect [OF this assms(1)] None show ?thesis
    by (simp add: delivery_key_def spec_settle_def entry_of_def)
next
  case (Some r)
  let ?f = "\<lambda>r. r\<lparr>d_status := (if dv then ''delivered'' else ''failed''), d_attempts := d_attempts r + 1,
     d_last_error := err, d_delivered_at := (if dv then Some now else d_delivered_at r)\<rparr>"
  have r: "d' = put_delivery (i, h) ?f d"
    using assms(2) Some by (auto simp: record_alert_delivery_def Let_def split: if_splits)
  have "ledger d' k = spec_settle (i, h) dv (ledger d) k" for k
    by (simp add: ledger_def r find_delivery_put Some entry_of_def spec_settle_def)
  moreover have "ledger_ok d'" unfolding r using assms(1) by (rule put_delivery_ok) simp_all
  ultimately show ?thesis by auto
qed

interpretation cl: claim_ledger "\<lambda>now k d. try_claim_alert_match now (fst k) (snd k) n d"
  "\<lambda>now k. record_alert_delivery now (fst k) (snd k)" ledger "\<lambda>d. ledger_ok d \<and> int4_ok n" "interval_secs n"
proof
  fix now k s b s'
  assume "ledger_ok s \<and> int4_ok n" "try_claim_alert_match now (fst k) (snd k) n s = Inr (b, s')"
  then show "(ledger_ok s' \<and> int4_ok n) \<and> (b, ledger s') = spec_claim now (interval_secs n) k (ledger s)"
    using try_claim_spec [of s now "fst k" "snd k" n b s'] by simp
next
  fix now k dv err s u s'
  assume "ledger_ok s \<and> int4_ok n" "record_alert_delivery now (fst k) (snd k) dv err s = Inr (u, s')"
  then show "(ledger_ok s' \<and> int4_ok n) \<and> ledger s' = spec_settle k dv (ledger s)"
    using record_spec [of s now "fst k" "snd k" dv err u s'] by simp
next
  fix now k s
  assume s: "ledger_ok s \<and> int4_ok n" "\<not> granted now (interval_secs n) (ledger s k)"
  then obtain r where r: "find_delivery k s = Some r" by (cases "find_delivery k s") (auto simp: ledger_def)
  with s claimable_granted [of s k r now n] show "try_claim_alert_match now (fst k) (snd k) n s = Inr (False, s)"
    by (simp add: try_claim_alert_match_def)
qed

section \<open>Exclusive claims\<close>

lemma in_flight_ledger:
  assumes "ledger_ok d"
  shows "in_flight now n d k \<longleftrightarrow>
     (case ledger d k of None \<Rightarrow> False | Some Sent \<Rightarrow> True | Some Retry \<Rightarrow> False | Some (Held t) \<Rightarrow> now - interval_secs n < t)"
proof (cases "find_delivery k d")
  case None
  then have "ledger d k = None" "\<not> in_flight now n d k"
    by (auto simp: ledger_def in_flight_def list_ex_iff find_delivery_def find_None_iff)
  then show ?thesis by simp
next
  case (Some r)
  have d: "distinct (map delivery_key (deliveries d))" using assms by (simp add: ledger_ok_def)
  have r: "r \<in> set (deliveries d)" "delivery_key r = k"
    using Some by (auto simp: find_delivery_def find_Some_iff)
  have u: "\<forall>x \<in> set (deliveries d). delivery_key x = k \<longrightarrow> x = r"
    using d r by (auto simp: distinct_map dest: inj_onD)
  have "in_flight now n d k \<longleftrightarrow>
      d_status r = ''delivered'' \<or> (d_status r = ''claimed'' \<and> now - interval_secs n < d_created_at r)"
    unfolding in_flight_def list_ex_iff using r u by blast
  with Some find_delivery_status [OF assms Some] show ?thesis by (auto simp: ledger_def entry_of_def)
qed

lemma pending_not_in_flight:
  "m \<in> set (pending_pairs now n d) \<Longrightarrow> \<not> in_flight now n d (m_subscription_id m, m_tx_hash m)"
  by (auto simp: pending_pairs_def)

text \<open>One dispatcher at a time.  On a well-formed ledger, after a granted claim every further claim of
  the pair is refused, and the pair is not offered to any dispatcher, for the stale interval; once the
  delivery is recorded as successful the pair is never granted and never offered again, at any time;
  once it is recorded as failed it can be claimed at once.\<close>

lemma claim_exclusive:
  assumes "ledger_ok d" "try_claim_alert_match t0 i h n d = Inr (True, d1)"
  shows "(\<forall>t \<le> t0 + interval_secs n. try_claim_alert_match t i h n d1 = Inr (False, d1))
     \<and> (\<forall>t < t0 + interval_secs n. \<forall>m \<in> set (pending_pairs t n d1). (m_subscription_id m, m_tx_hash m) \<noteq> (i, h))
     \<and> (\<forall>t1 e d2. record_alert_delivery t1 i h True e d1 = Inr ((), d2) \<longrightarrow>
          (\<forall>t. try_claim_alert_match t i h n d2 = Inr (False, d2)
             \<and> (\<forall>m \<in> set (pending_pairs t n d2). (m_subscription_id m, m_tx_hash m) \<noteq> (i, h))))
     \<and> (\<forall>t1 e d2 t b d3. record_alert_delivery t1 i h False e d1 = Inr ((), d2)
          \<and> try_claim_alert_match t i h n d2 = Inr (b, d3) \<longrightarrow> b)"
proof -
  have n: "int4_ok n" using assms(2) by (auto simp: try_claim_alert_match_def split: if_splits)
  note c = try_claim_spec [OF assms]
  have ok1: "ledger_ok d1" and l1: "ledger d1 (i, h) = Some (Held t0)"
    using c by (auto simp: spec_claim_def split: if_splits)
  have held: "in_flight t n d1 (i, h)" if "t < t0 + interval_secs n" for t
    using that l1 by (simp add: in_flight_ledger [OF ok1])
  have sent: "in_flight t n d2 (i, h)" if "record_alert_delivery t1 i h True e d1 = Inr ((), d2)" for t t1 e d2
    using record_spec [OF ok1 that] by (simp add: in_flight_ledger spec_settle_def)
  have retry: "b" if r: "record_alert_delivery t1 i h False e d1 = Inr ((), d2)"
    and b: "try_claim_alert_match t i h n d2 = Inr (b, d3)" for t1 e d2 t b d3
    using record_spec [OF ok1 r] try_claim_spec [OF _ b] by (auto simp: spec_settle_def spec_claim_def)
  show ?thesis
    using cl.held_exclusive [of d n t0 "(i, h)" d1] cl.sent_forever [of d1 n _ "(i, h)"] n assms ok1
      held sent pending_not_in_flight retry
    by (fastforce simp del: split_paired_All)
qed

definition watched_db :: db where
  "watched_db = sample_db\<lparr>subscriptions := [\<lparr>a_subscription_id = 7, a_error_category = None, a_to_addr = Some ''0xbb'',
     a_webhook_url = ''https://example.org/hook'', a_signing_secret = ''00ff'', a_active = True, a_created_at = 0,
     a_sub_type = ''per_event'', a_threshold_count = None, a_threshold_window_secs = None, a_debounce_secs = None\<rparr>],
   seq_subscription := 8\<rparr>"

lemma watched_ledger_ok: "ledger_ok watched_db"
  by (simp add: ledger_ok_def watched_db_def sample_db_def empty_db_def)

lemma watched_pending:
  "pending_pairs now n watched_db =
     [\<lparr>m_subscription_id = 7, m_tx_hash = ''a'', m_webhook_url = ''https://example.org/hook'', m_signing_secret = ''00ff''\<rparr>,
      \<lparr>m_subscription_id = 7, m_tx_hash = ''b'', m_webhook_url = ''https://example.org/hook'', m_signing_secret = ''00ff''\<rparr>]"
  by (simp add: pending_pairs_def watched_db_def sample_db_def empty_db_def sample_failed_def sample_tx_def sub_matches_def
      in_flight_def)

section \<open>The ledger is a refinement of its specification\<close>

text \<open>C5: the statements on \<^verbatim>\<open>alert_delivery\<close> refine the abstract ledger.  Seen as a map from pairs to
  sent, to be retried, or held since an instant, every claim that does not fail is the abstract claim,
  every recorded result the abstract settlement, both keep the table well-formed, a claim that the
  specification refuses never fails, and a pair is withheld from the matching query exactly when it is
  sent or freshly held.\<close>

theorem ledger_refinement:
  assumes "ledger_ok d" "int4_ok n"
  shows "(\<forall>now i h b d'. try_claim_alert_match now i h n d = Inr (b, d') \<longrightarrow>
          ledger_ok d' \<and> (b, ledger d') = spec_claim now (interval_secs n) (i, h) (ledger d))
     \<and> (\<forall>now i h dv e d'. record_alert_delivery now i h dv e d = Inr ((), d') \<longrightarrow>
          ledger_ok d' \<and> ledger d' = spec_settle (i, h) dv (ledger d))
     \<and> (\<forall>now i h. \<not> granted now (interval_secs n) (ledger d (i, h)) \<longrightarrow>
          try_claim_alert_match now i h n d = Inr (False, d))
     \<and> (\<forall>now k. in_flight now n d k \<longleftrightarrow>
          ledger d k = Some Sent \<or> (\<exists>t. ledger d k = Some (Held t) \<and> now - interval_secs n < t))"
proof (intro conjI allI impI)
  fix now i h
  assume "\<not> granted now (interval_secs n) (ledger d (i, h))"
  then show "try_claim_alert_match now i h n d = Inr (False, d)"
    using cl.refusal_total [of d n now "(i, h)"] assms by simp
next
  fix now k
  show "in_flight now n d k \<longleftrightarrow>
      ledger d k = Some Sent \<or> (\<exists>t. ledger d k = Some (Held t) \<and> now - interval_secs n < t)"
    by (auto simp: in_flight_ledger [OF assms(1)] split: option.splits ledger_entry.splits)
qed (use try_claim_spec [OF assms(1)] record_spec [OF assms(1)] in blast)+

theorem ledger_refinement_witness:
  "\<exists>d'. try_claim_alert_match 1000 7 ''a'' 60 watched_db = Inr (True, d') \<and> ledger d' (7, ''a'') = Some (Held 1000)"
proof -
  have l: "ledger watched_db = Map.empty"
    by (rule ext) (simp add: ledger_def find_delivery_def watched_db_def sample_db_def empty_db_def)
  have n: "int4_ok 60" by (simp add: int4_ok_def)
  obtain b d' where c: "try_claim_alert_match 1000 7 ''a'' 60 watched_db = Inr (b, d')"
    by (simp add: try_claim_alert_match_def int4_ok_def find_delivery_def watched_db_def sample_db_def empty_db_def
        add_delivery_def text_ok_def opt_ok_def subscription_known_def)
  with ledger_refinement [OF watched_ledger_ok n] have
    "(b, ledger d') = spec_claim 1000 (interval_secs 60) (7, ''a'') (ledger watched_db)" by blast
  with c l show ?thesis by (auto simp: spec_claim_def)
qed

section \<open>A batch that fails is the next batch\<close>

text \<open>Claiming a pair and recording its failure, for every pair of a batch in turn.\<close>

definition fail_delivery :: "instant \<Rightarrow> i64 \<Rightarrow> string \<Rightarrow> alert_match \<Rightarrow> unit stmt" where
  "fail_delivery now n err m =
     stmt_bind (try_claim_alert_match now (m_subscription_id m) (m_tx_hash m) n)
       (\<lambda>b. if b then record_alert_delivery now (m_subscription_id m) (m_tx_hash m) False (Some err) else stmt_return ())"

fun run_all :: "('a \<Rightarrow> unit stmt) \<Rightarrow> 'a list \<Rightarrow> unit stmt" where
  "run_all f [] = stmt_return ()"
| "run_all f (x # xs) = stmt_bind (f x) (\<lambda>_. run_all f xs)"

lemma same_frame: "\<exists>x. d = d\<lparr>deliveries := x\<rparr>"
  by (rule exI [of _ "deliveries d"]) simp

lemma claim_frame: "try_claim_alert_match now i h n d = Inr (b, d') \<Longrightarrow> \<exists>x. d' = d\<lparr>deliveries := x\<rparr>"
  by (auto simp: try_claim_alert_match_def add_delivery_def put_delivery_def split: if_splits option.splits)
    (rule same_frame)+

lemma record_frame: "record_alert_delivery now i h dv e d = Inr (u, d') \<Longrightarrow> \<exists>x. d' = d\<lparr>deliveries := x\<rparr>"
  by (auto simp: record_alert_delivery_def Let_def add_delivery_def put_delivery_def split: if_splits option.splits)

definition idle_ledger :: "db \<Rightarrow> bool" where
  "idle_ledger d \<longleftrightarrow> ledger_ok d \<and> (\<forall>k t. ledger d k \<noteq> Some (Held t))"

lemma fail_delivery_effect:
  assumes "fail_delivery now n err m d = Inr (u, d')" "idle_ledger d"
  shows "idle_ledger d' \<and> (\<forall>k. ledger d' k = Some Sent \<longleftrightarrow> ledger d k = Some Sent) \<and> (\<exists>x. d' = d\<lparr>deliveries := x\<rparr>)"
proof -
  let ?k = "(m_subscription_id m, m_tx_hash m)"
  obtain b d1 where c: "try_claim_alert_match now (m_subscription_id m) (m_tx_hash m) n d = Inr (b, d1)"
    and r: "if b then record_alert_delivery now (m_subscription_id m) (m_tx_hash m) False (Some err) d1 = Inr (u, d')
            else d' = d1"
    using assms(1) by (auto simp: fail_delivery_def stmt_bind_def stmt_return_def split: sum.splits prod.splits if_splits)
  have ok: "ledger_ok d" using assms(2) by (simp add: idle_ledger_def)
  note s = try_claim_spec [OF ok c]
  show ?thesis
  proof (cases b)
    case True
    then have g: "granted now (interval_secs n) (ledger d ?k)" "ledger d1 = (ledger d)(?k \<mapsto> Held now)"
      using s by (auto simp: spec_claim_def split: if_splits)
    from True r have "record_alert_delivery now (m_subscription_id m) (m_tx_hash m) False (Some err) d1 = Inr (u, d')" by simp
    note t = record_spec [OF _ this] and frame = record_frame [OF this]
    with s have "ledger_ok d'" and l: "ledger d' = (ledger d)(?k \<mapsto> Retry)" by (auto simp: spec_settle_def g(2))
    moreover have "ledger d ?k \<noteq> Some Sent" using g(1) by auto
    moreover have "\<exists>x. d' = d\<lparr>deliveries := x\<rparr>" using claim_frame [OF c] frame by auto
    ultimately show ?thesis using assms(2) by (auto simp: idle_ledger_def)
  next
    case False
    with s r claim_frame [OF c] assms(2) show ?thesis by (auto simp: spec_claim_def idle_ledger_def split: if_splits)
  qed
qed

lemma fail_all_effect:
  assumes "run_all (fail_delivery now n err) ms d = Inr (u, d')" "idle_ledger d"
  shows "idle_ledger d' \<and> (\<forall>k. ledger d' k = Some Sent \<longleftrightarrow> ledger d k = Some Sent) \<and> (\<exists>x. d' = d\<lparr>deliveries := x\<rparr>)"
  using assms
proof (induction ms arbitrary: d)
  case (Cons m ms)
  then obtain d1 where d1: "fail_delivery now n err m d = Inr ((), d1)" "run_all (fail_delivery now n err) ms d1 = Inr (u, d')"
    by (auto simp: stmt_bind_def split: sum.splits)
  note e = fail_delivery_effect [OF d1(1) Cons.prems(2)]
  with Cons.IH [OF d1(2)] show ?case by auto
qed (use same_frame in \<open>auto simp: stmt_return_def\<close>)

lemma pending_same:
  assumes "idle_ledger d" "idle_ledger d'" "\<And>k. ledger d' k = Some Sent \<longleftrightarrow> ledger d k = Some Sent" "d' = d\<lparr>deliveries := x\<rparr>"
  shows "pending_pairs now' n d' = pending_pairs now n d"
proof -
  have "in_flight t n e k \<longleftrightarrow> ledger e k = Some Sent" if "idle_ledger e" for t e k
    using that by (auto simp: in_flight_ledger idle_ledger_def simp del: split_paired_All split: option.splits ledger_entry.splits)
  with assms(1-3) have "in_flight now' n d' = in_flight now n d" by (intro HOL.ext) simp
  moreover have "sub_matches d' = sub_matches d" using assms(4) by (intro HOL.ext) (simp add: sub_matches_def split: option.splits)
  ultimately show ?thesis using assms(4) by (simp add: pending_pairs_def)
qed

text \<open>C17: a batch whose deliveries all fail starves the rest.  Between cycles, when no pair is held, a
  dispatcher that claims every pair of its batch and records a failure for each gets exactly the same
  batch at its next cycle, whatever time has passed: pairs that sort after the limit are not attempted
  as long as the receivers of the first ones keep failing.\<close>

theorem failing_batch_repeats:
  assumes "ledger_ok d" "\<forall>k t. ledger d k \<noteq> Some (Held t)"
    and "find_pending_alert_matches now limit n d = Inr (ms, d)"
    and "run_all (fail_delivery now' n err) ms d = Inr ((), d')"
  shows "find_pending_alert_matches now'' limit n d' = Inr (ms, d')"
proof -
  have i: "idle_ledger d" using assms(1,2) by (simp add: idle_ledger_def)
  from fail_all_effect [OF assms(4) i] obtain x where e: "idle_ledger d'"
    "\<And>k. ledger d' k = Some Sent \<longleftrightarrow> ledger d k = Some Sent" "d' = d\<lparr>deliveries := x\<rparr>" by blast
  have "pending_pairs now'' n d' = pending_pairs now n d" by (rule pending_same [OF i e])
  with assms(3) show ?thesis
    by (auto simp: find_pending_alert_matches_def split: if_splits sum.splits)
qed

theorem failing_batch_repeats_witness:
  "\<exists>m d'. m_tx_hash m = ''a'' \<and> find_pending_alert_matches 0 1 60 watched_db = Inr ([m], watched_db)
     \<and> run_all (fail_delivery 5 60 ''timeout'') [m] watched_db = Inr ((), d')
     \<and> find_pending_alert_matches 99000000 1 60 d' = Inr ([m], d')"
proof -
  let ?m = "\<lparr>m_subscription_id = 7, m_tx_hash = ''a'', m_webhook_url = ''https://example.org/hook'', m_signing_secret = ''00ff''\<rparr>"
  have l: "\<forall>k t. ledger watched_db k \<noteq> Some (Held t)"
    by (simp add: ledger_def find_delivery_def watched_db_def sample_db_def empty_db_def)
  have f: "find_pending_alert_matches 0 1 60 watched_db = Inr ([?m], watched_db)"
    by (simp add: find_pending_alert_matches_def int4_ok_def pg_limit_def watched_pending)
  obtain d' where r: "run_all (fail_delivery 5 60 ''timeout'') [?m] watched_db = Inr ((), d')"
    by (simp add: fail_delivery_def stmt_bind_def stmt_return_def try_claim_alert_match_def record_alert_delivery_def
        int4_ok_def find_delivery_def watched_db_def sample_db_def empty_db_def add_delivery_def text_ok_def opt_ok_def
        subscription_known_def delivery_key_def)
  from failing_batch_repeats [OF watched_ledger_ok l f r, of 99000000] f r show ?thesis by fastforce
qed

section \<open>Rate alerts\<close>

lemma rate_matches:
  assumes "find_pending_rate_alert_matches now limit d = Inr (ms, d')"
  shows "d' = d" and "sorted (map r_subscription_id ms)"
    and "m \<in> set ms \<Longrightarrow> \<exists>s \<in> set (subscriptions d). rate_due now d s \<and> r_subscription_id m = a_subscription_id s
       \<and> r_match_count m = int (length (rate_hits now d s)) \<and> r_threshold_count m = the (a_threshold_count s)"
proof -
  let ?row = "\<lambda>s. \<lparr>r_subscription_id = a_subscription_id s, r_webhook_url = a_webhook_url s,
     r_signing_secret = a_signing_secret s, r_match_count = int (length (rate_hits now d s)),
     r_threshold_count = the (a_threshold_count s), r_threshold_window_secs = the (a_threshold_window_secs s)\<rparr>"
  let ?rows = "sort_key r_subscription_id (map ?row (filter (rate_due now d) (subscriptions d)))"
  have ms: "ms = take (nat limit) ?rows" and d': "d' = d"
    using assms by (auto simp: find_pending_rate_alert_matches_def pg_limit_def Let_def split: if_splits sum.splits)
  show "d' = d" by (rule d')
  have "sorted (map r_subscription_id ?rows)" by simp
  then show "sorted (map r_subscription_id ms)" unfolding ms take_map [symmetric] by (rule sorted_wrt_take)
  show "\<exists>s \<in> set (subscriptions d). rate_due now d s \<and> r_subscription_id m = a_subscription_id s
       \<and> r_match_count m = int (length (rate_hits now d s)) \<and> r_threshold_count m = the (a_threshold_count s)"
    if "m \<in> set ms"
    using that unfolding ms by (force dest!: in_set_takeD)
qed

text \<open>C16: when rate alerts fire.  A rate match belongs to an active rate subscription, reports the number
  of its failures inside the window, which is positive and reaches the threshold; and after a dispatch
  of a subscription is recorded (successful or not), the subscription is not matched again before its
  debounce interval is over.\<close>

theorem rate_alert_window_and_debounce:
  assumes "distinct (map a_subscription_id (subscriptions d))"
    and "find_pending_rate_alert_matches now limit d = Inr (ms, d0)" "m \<in> set ms"
    and "record_rate_alert_dispatch t0 (r_subscription_id m) c dv e d = Inr ((), d')"
  shows "\<exists>s w b. s \<in> set (subscriptions d) \<and> r_subscription_id m = a_subscription_id s
     \<and> a_active s \<and> a_sub_type s = ''rate_threshold'' \<and> a_threshold_window_secs s = Some w
     \<and> r_match_count m = int (length (filter (\<lambda>f. sub_matches d s f \<and> now - interval_secs w \<le> f_timestamp f)
         (failed_transactions d)))
     \<and> a_threshold_count s = Some (r_threshold_count m) \<and> 0 < r_match_count m \<and> r_threshold_count m \<le> r_match_count m
     \<and> a_debounce_secs s = b
     \<and> (\<forall>secs t limit' ms' d''. b = Some secs \<and> t < t0 + interval_secs secs
          \<and> find_pending_rate_alert_matches t limit' d' = Inr (ms', d'') \<longrightarrow>
            r_subscription_id m \<notin> r_subscription_id ` set ms')"
proof -
  obtain s where s: "s \<in> set (subscriptions d)" "rate_due now d s" "r_subscription_id m = a_subscription_id s"
    "r_match_count m = int (length (rate_hits now d s))" "r_threshold_count m = the (a_threshold_count s)"
    using rate_matches(3) [OF assms(2,3)] by blast
  from s(2) obtain w c' where w: "a_threshold_window_secs s = Some w" "a_threshold_count s = Some c'"
    by (cases "a_threshold_window_secs s") (auto simp: rate_due_def rate_hits_def split: option.splits)
  have d': "subscriptions d' = subscriptions d" "last (rate_dispatches d') \<in> set (rate_dispatches d')"
    "rd_subscription_id (last (rate_dispatches d')) = a_subscription_id s" "rd_dispatched_at (last (rate_dispatches d')) = t0"
    using assms(4) s(3) by (auto simp: record_rate_alert_dispatch_def Let_def split: if_splits)
  have deb: "a_subscription_id s \<notin> r_subscription_id ` set ms'"
    if b: "a_debounce_secs s = Some secs" "t < t0 + interval_secs secs"
      and f: "find_pending_rate_alert_matches t limit' d' = Inr (ms', d'')" for secs t limit' ms' d''
  proof
    assume "a_subscription_id s \<in> r_subscription_id ` set ms'"
    then obtain s' where s': "s' \<in> set (subscriptions d)" "rate_due t d' s'" "a_subscription_id s' = a_subscription_id s"
      using rate_matches(3) [OF f] d'(1) by fastforce
    then have "s' = s" using assms(1) s(1) by (auto simp: distinct_map dest: inj_onD)
    moreover have "debounced t d' s"
      using d' b by (subst debounced_def) (auto simp: list_ex_iff intro!: bexI [of _ "last (rate_dispatches d')"])
    ultimately show False using s'(2) by (simp add: rate_due_def)
  qed
  have "rate_hits now d s = filter (\<lambda>f. sub_matches d s f \<and> now - interval_secs w \<le> f_timestamp f) (failed_transactions d)"
    using w by (simp add: rate_hits_def)
  with s w show ?thesis
    by (intro exI [of _ s] exI [of _ w] exI [of _ "a_debounce_secs s"])
      (simp add: rate_due_def, use deb in blast)
qed

definition rate_db :: db where
  "rate_db = watched_db\<lparr>subscriptions := [(hd (subscriptions watched_db))\<lparr>a_sub_type := ''rate_threshold'',
     a_threshold_count := Some 2, a_threshold_window_secs := Some 300, a_debounce_secs := Some 600\<rparr>]\<rparr>"

theorem rate_alert_window_and_debounce_witness:
  "\<exists>m d' ms d''. find_pending_rate_alert_matches 1000 10 rate_db = Inr ([m], rate_db) \<and> r_match_count m = 2
     \<and> record_rate_alert_dispatch 2000 7 2 True None rate_db = Inr ((), d')
     \<and> find_pending_rate_alert_matches 3000 10 d' = Inr (ms, d'') \<and> 7 \<notin> r_subscription_id ` set ms"
proof -
  let ?m = "\<lparr>r_subscription_id = 7, r_webhook_url = ''https://example.org/hook'', r_signing_secret = ''00ff'',
     r_match_count = 2, r_threshold_count = 2, r_threshold_window_secs = 300\<rparr>"
  note defs = rate_db_def watched_db_def sample_db_def empty_db_def
  have hits: "length (rate_hits 1000 rate_db (hd (subscriptions rate_db))) = 2"
    by (simp add: rate_hits_def defs sample_failed_def sample_tx_def sub_matches_def interval_secs_def)
  then have "rate_due 1000 rate_db (hd (subscriptions rate_db))"
    by (auto simp: rate_due_def) (simp_all add: defs debounced_def)
  with hits have f: "find_pending_rate_alert_matches 1000 10 rate_db = Inr ([?m], rate_db)"
    by (simp add: find_pending_rate_alert_matches_def pg_limit_def Let_def) (simp add: defs)
  have i: "distinct (map a_subscription_id (subscriptions rate_db))" by (simp add: defs)
  obtain d' where r: "record_rate_alert_dispatch 2000 7 2 True None rate_db = Inr ((), d')"
    by (simp add: record_rate_alert_dispatch_def opt_ok_def subscription_known_def defs)
  obtain ms where g: "find_pending_rate_alert_matches 3000 10 d' = Inr (ms, d')"
    by (simp add: find_pending_rate_alert_matches_def pg_limit_def Let_def)
  have o: "\<forall>s \<in> set (subscriptions rate_db). a_debounce_secs s = Some 600" by (simp add: defs)
  have t: "(3000 :: int) < 2000 + interval_secs 600" by (simp add: interval_secs_def)
  have m: "?m \<in> set [?m]" "record_rate_alert_dispatch 2000 (r_subscription_id ?m) 2 True None rate_db = Inr ((), d')"
    using r by simp_all
  from rate_alert_window_and_debounce [OF i f m] o t g have "r_subscription_id ?m \<notin> r_subscription_id ` set ms" by metis
  with f r g show ?thesis by (intro exI [of _ ?m] exI [of _ d'] exI [of _ ms]) simp
qed

end
