(* ===== verification/Validators.thy ===== *)
theory Validators
  imports Encoding "HOL-Library.Word"
begin

unbundle bit_operations_syntax

text \<open>
  The webhook policy (\<^verbatim>\<open>crates/db/src/validators.rs\<close>): which addresses and URLs the dispatcher
  may post to.  \<^verbatim>\<open>std::net\<close> is modelled: an IPv4 address is a 32-bit word, an IPv6 address a
  128-bit word, and \<^verbatim>\<open>IpAddr::from_str\<close> is the recursive-descent parser of the standard library.
  The parser of the \<^verbatim>\<open>url\<close> crate is an argument.
\<close>

section \<open>Addresses\<close>

datatype unsafe_url_reason =
    InvalidUrl | NonHttps | NoHost | LoopbackHost | PrivateIp | LinkLocalIp
  | UnspecifiedIp | MulticastIp | BroadcastIp | UniqueLocalIp | MdnsHost

fun reason_debug :: "unsafe_url_reason \<Rightarrow> string" where
  "reason_debug InvalidUrl = ''InvalidUrl''"
| "reason_debug NonHttps = ''NonHttps''"
| "reason_debug NoHost = ''NoHost''"
| "reason_debug LoopbackHost = ''LoopbackHost''"
| "reason_debug PrivateIp = ''PrivateIp''"
| "reason_debug LinkLocalIp = ''LinkLocalIp''"
| "reason_debug UnspecifiedIp = ''UnspecifiedIp''"
| "reason_debug MulticastIp = ''MulticastIp''"
| "reason_debug BroadcastIp = ''BroadcastIp''"
| "reason_debug UniqueLocalIp = ''UniqueLocalIp''"
| "reason_debug MdnsHost = ''MdnsHost''"

datatype ip_addr = V4 "32 word" | V6 "128 word"

definition v4_is_loopback :: "32 word \<Rightarrow> bool" where
  "v4_is_loopback a \<longleftrightarrow> drop_bit 24 a = 127"

definition v4_is_unspecified :: "32 word \<Rightarrow> bool" where
  "v4_is_unspecified a \<longleftrightarrow> a = 0"

definition v4_is_multicast :: "32 word \<Rightarrow> bool" where
  "v4_is_multicast a \<longleftrightarrow> 224 \<le> drop_bit 24 a \<and> drop_bit 24 a \<le> 239"

definition v4_is_private :: "32 word \<Rightarrow> bool" where
  "v4_is_private a \<longleftrightarrow>
     drop_bit 24 a = 10
     \<or> (drop_bit 24 a = 172 \<and> 16 \<le> drop_bit 16 a AND 0xff \<and> drop_bit 16 a AND 0xff \<le> 31)
     \<or> (drop_bit 24 a = 192 \<and> drop_bit 16 a AND 0xff = 168)"

definition v4_is_link_local :: "32 word \<Rightarrow> bool" where
  "v4_is_link_local a \<longleftrightarrow> drop_bit 24 a = 169 \<and> drop_bit 16 a AND 0xff = 254"

definition v4_is_broadcast :: "32 word \<Rightarrow> bool" where
  "v4_is_broadcast a \<longleftrightarrow> a = 0xffffffff"

definition to_ipv4_mapped :: "128 word \<Rightarrow> 32 word option" where
  "to_ipv4_mapped a = (if drop_bit 32 a = 0xffff then Some (ucast a) else None)"

definition segment0 :: "128 word \<Rightarrow> 16 word" where
  "segment0 a = ucast (drop_bit 112 a)"

definition ip_is_safe :: "ip_addr \<Rightarrow> unsafe_url_reason + unit" where
  "ip_is_safe ip =
     (case (case ip of V4 v4 \<Rightarrow> Some v4 | V6 v6 \<Rightarrow> to_ipv4_mapped v6) of
        Some v4 \<Rightarrow>
          if v4_is_loopback v4 then Inl LoopbackHost
          else if v4_is_unspecified v4 then Inl UnspecifiedIp
          else if v4_is_multicast v4 then Inl MulticastIp
          else if v4_is_private v4 then Inl PrivateIp
          else if v4_is_link_local v4 then Inl LinkLocalIp
          else if v4_is_broadcast v4 then Inl BroadcastIp
          else Inr ()
      | None \<Rightarrow>
          (case ip of
             V4 _ \<Rightarrow> Inr ()
           | V6 v6 \<Rightarrow>
               if v6 = 1 then Inl LoopbackHost
               else if v6 = 0 then Inl UnspecifiedIp
               else if segment0 v6 AND 0xff00 = 0xff00 then Inl MulticastIp
               else if segment0 v6 AND 0xfe00 = 0xfc00 then Inl UniqueLocalIp
               else if segment0 v6 AND 0xffc0 = 0xfe80 then Inl LinkLocalIp
               else Inr ()))"

section \<open>Parsing an address\<close>

definition is_digit_of :: "nat \<Rightarrow> char \<Rightarrow> bool" where
  "is_digit_of radix c \<longleftrightarrow> (case digit_value c of None \<Rightarrow> False | Some d \<Rightarrow> d < radix)"

definition read_number :: "nat \<Rightarrow> nat \<Rightarrow> nat \<Rightarrow> bool \<Rightarrow> string \<Rightarrow> (nat \<times> string) option" where
  "read_number radix max_digits max_value allow_zero s =
     (let ds = takeWhile (is_digit_of radix) s; r = dropWhile (is_digit_of radix) s in
      if ds = [] \<or> max_digits < length ds \<or> (\<not> allow_zero \<and> hd ds = CHR ''0'' \<and> 1 < length ds) then None
      else case digits_value radix 0 ds of
             None \<Rightarrow> None
           | Some n \<Rightarrow> if n \<le> max_value then Some (n, r) else None)"

definition read_char :: "char \<Rightarrow> string \<Rightarrow> string option" where
  "read_char c s = (case s of [] \<Rightarrow> None | d # r \<Rightarrow> if d = c then Some r else None)"

text \<open>\<^verbatim>\<open>read_separator\<close>: the separator is read before every item but the first.\<close>

definition read_sep :: "char \<Rightarrow> nat \<Rightarrow> (string \<Rightarrow> ('a \<times> string) option) \<Rightarrow> string \<Rightarrow> ('a \<times> string) option" where
  "read_sep c i p s = Option.bind (if 0 < i then read_char c s else Some s) p"

definition read_octet :: "nat \<Rightarrow> string \<Rightarrow> (nat \<times> string) option" where
  "read_octet i s = read_sep (CHR ''.'') i (read_number 10 3 255 False) s"

definition read_ipv4 :: "string \<Rightarrow> (32 word \<times> string) option" where
  "read_ipv4 s =
     Option.bind (read_octet 0 s) (\<lambda>(a, s1).
     Option.bind (read_octet 1 s1) (\<lambda>(b, s2).
     Option.bind (read_octet 2 s2) (\<lambda>(c, s3).
     Option.bind (read_octet 3 s3) (\<lambda>(d, s4).
       Some (of_nat (((a * 256 + b) * 256 + c) * 256 + d), s4)))))"

fun read_groups :: "nat \<Rightarrow> nat \<Rightarrow> string \<Rightarrow> nat list \<times> bool \<times> string" where
  "read_groups 0 i s = ([], False, s)"
| "read_groups (Suc k) i s =
     (case (if 0 < k then read_sep (CHR '':'') i read_ipv4 s else None) of
        Some (v4, r) \<Rightarrow> ([unat (drop_bit 16 v4), unat (v4 AND 0xffff)], True, r)
      | None \<Rightarrow>
          (case read_sep (CHR '':'') i (read_number 16 4 0xffff True) s of
             None \<Rightarrow> ([], False, s)
           | Some (g, r) \<Rightarrow> (case read_groups k (i + 1) r of (gs, v4, r') \<Rightarrow> (g # gs, v4, r'))))"

definition ipv6_of_segments :: "nat list \<Rightarrow> 128 word" where
  "ipv6_of_segments gs = foldl (\<lambda>acc g. acc * 65536 + of_nat g) 0 gs"

definition read_ipv6 :: "string \<Rightarrow> (128 word \<times> string) option" where
  "read_ipv6 s =
     (case read_groups 8 0 s of (heads, head_ipv4, r) \<Rightarrow>
        if length heads = 8 then Some (ipv6_of_segments heads, r)
        else if head_ipv4 then None
        else Option.bind (read_char (CHR '':'') r) (\<lambda>r1.
             Option.bind (read_char (CHR '':'') r1) (\<lambda>r2.
             (case read_groups (8 - (length heads + 1)) 0 r2 of (tails, _, r3) \<Rightarrow>
                Some (ipv6_of_segments (heads @ replicate (8 - length heads - length tails) 0 @ tails), r3)))))"

definition IpAddr_from_str :: "string \<Rightarrow> ip_addr option" where
  "IpAddr_from_str s =
     (case (case read_ipv4 s of
              Some (a, r) \<Rightarrow> Some (V4 a, r)
            | None \<Rightarrow> map_option (\<lambda>(a, r). (V6 a, r)) (read_ipv6 s)) of
        Some (ip, r) \<Rightarrow> if r = [] then Some ip else None
      | None \<Rightarrow> None)"

section \<open>URLs\<close>

record parsed_url =
  scheme :: string
  host_str :: "string option"

type_synonym url_parser = "string \<Rightarrow> parsed_url option"

definition webhook_url_is_safe :: "url_parser \<Rightarrow> string \<Rightarrow> unsafe_url_reason + unit" where
  "webhook_url_is_safe url_parse input =
     (case url_parse input of
        None \<Rightarrow> Inl InvalidUrl
      | Some parsed \<Rightarrow>
          if scheme parsed \<noteq> ''https'' then Inl NonHttps
          else (case host_str parsed of
             None \<Rightarrow> Inl NoHost
           | Some host_raw \<Rightarrow>
               if host_raw = [] then Inl NoHost
               else
                 let host = unwrap_or (Option.bind (strip_prefix ''['' host_raw) (strip_suffix '']'')) host_raw in
                 (case IpAddr_from_str host of
                    Some ip \<Rightarrow> ip_is_safe ip
                  | None \<Rightarrow>
                      let host_lower = to_lowercase host in
                      if host_lower = ''localhost'' \<or> suffix ''.localhost'' host_lower \<or> suffix ''.local'' host_lower
                      then Inl MdnsHost
                      else Inr ())))"

section \<open>The policy as address ranges\<close>

text \<open>An address is in the block \<^verbatim>\<open>base/len\<close> when its leading bits are those of the base.\<close>

definition in_block :: "nat \<Rightarrow> nat \<Rightarrow> nat \<Rightarrow> nat \<Rightarrow> bool" where
  "in_block width base len a \<longleftrightarrow> a div 2 ^ (width - len) = base div 2 ^ (width - len)"

definition ipv4 :: "nat \<Rightarrow> nat \<Rightarrow> nat \<Rightarrow> nat \<Rightarrow> nat" where
  "ipv4 a b c d = ((a * 256 + b) * 256 + c) * 256 + d"

definition blocked_v4 :: "nat \<Rightarrow> bool" where
  "blocked_v4 a \<longleftrightarrow>
     in_block 32 (ipv4 127 0 0 0) 8 a \<or> a = 0 \<or> in_block 32 (ipv4 224 0 0 0) 4 a
     \<or> in_block 32 (ipv4 10 0 0 0) 8 a \<or> in_block 32 (ipv4 172 16 0 0) 12 a
     \<or> in_block 32 (ipv4 192 168 0 0) 16 a \<or> in_block 32 (ipv4 169 254 0 0) 16 a
     \<or> a = ipv4 255 255 255 255"

definition blocked_v6 :: "nat \<Rightarrow> bool" where
  "blocked_v6 a \<longleftrightarrow>
     a = 1 \<or> a = 0 \<or> in_block 128 (0xff00 * 2 ^ 112) 8 a \<or> in_block 128 (0xfc00 * 2 ^ 112) 7 a
     \<or> in_block 128 (0xfe80 * 2 ^ 112) 10 a"

lemma unat_drop: "unat (drop_bit n w) = unat w div 2 ^ n"
  unfolding unat_drop_bit_eq by (rule drop_bit_eq_div)

lemma unat_AND_top: "unat (s AND NOT (mask k)) = unat s div 2 ^ k * 2 ^ k" for s :: "'a::len word"
proof -
  have "s AND NOT (mask k) = push_bit k (drop_bit k s)"
    by (rule bit_eqI) (auto simp: bit_simps)
  moreover have "unat s div 2 ^ k * 2 ^ k < 2 ^ LENGTH('a)"
    using div_times_less_eq_dividend [of "unat s" "2 ^ k"] unsigned_less [of s, where 'a = nat]
    by (rule le_less_trans)
  moreover have "unat (push_bit k (drop_bit k s)) = take_bit LENGTH('a) (unat s div 2 ^ k * 2 ^ k)"
    unfolding unsigned_push_bit_eq unat_drop by (simp add: push_bit_eq_mult)
  ultimately show ?thesis by (simp only: take_bit_nat_eq_self)
qed

lemma top_masks:
  "(0xff00 :: 16 word) = NOT (mask 8)" "(0xfe00 :: 16 word) = NOT (mask 9)"
  "(0xffc0 :: 16 word) = NOT (mask 6)"
  by (simp_all add: mask_eq_exp_minus_1)

lemma segment_masks:
  fixes s :: "16 word"
  shows "s AND 0xff00 = 0xff00 \<longleftrightarrow> unat s div 2 ^ 8 = 0xff"
    and "s AND 0xfe00 = 0xfc00 \<longleftrightarrow> unat s div 2 ^ 9 = 0x7e"
    and "s AND 0xffc0 = 0xfe80 \<longleftrightarrow> unat s div 2 ^ 6 = 0x3fa"
proof -
  have e: "s AND 0xff00 = 0xff00 \<longleftrightarrow> unat (s AND NOT (mask 8)) = 0xff00" 
    "s AND 0xfe00 = 0xfc00 \<longleftrightarrow> unat (s AND NOT (mask 9)) = 0xfc00"
    "s AND 0xffc0 = 0xfe80 \<longleftrightarrow> unat (s AND NOT (mask 6)) = 0xfe80"
    unfolding top_masks [symmetric] by (simp_all add: word_unat_eq_iff)
  show "s AND 0xff00 = 0xff00 \<longleftrightarrow> unat s div 2 ^ 8 = 0xff"
    "s AND 0xfe00 = 0xfc00 \<longleftrightarrow> unat s div 2 ^ 9 = 0x7e"
    "s AND 0xffc0 = 0xfe80 \<longleftrightarrow> unat s div 2 ^ 6 = 0x3fa"
    unfolding e unat_AND_top by auto
qed

lemma unat_segment0: "unat (segment0 a) = unat a div 2 ^ 112"
proof -
  have "unat a < 2 ^ 128" using unsigned_less [of a, where 'a = nat] by simp
  then have "unat a div 2 ^ 112 < 2 ^ 16" by (simp add: less_mult_imp_div_less)
  then show ?thesis
    by (simp add: segment0_def unsigned_ucast_eq unat_drop take_bit_nat_eq_self_iff del: drop_bit_eq_div)
qed

lemma unat_byte2: "unat (drop_bit 16 (a :: 32 word) AND 0xff) = unat a div 2 ^ 16 mod 256"
proof -
  have "drop_bit 16 a AND 0xff = take_bit 8 (drop_bit 16 a)"
    by (simp add: take_bit_eq_mask mask_eq_exp_minus_1)
  moreover have "unat (take_bit 8 (drop_bit 16 a)) = take_bit 8 (unat a div 2 ^ 16)"
    unfolding unsigned_take_bit_eq unat_drop ..
  ultimately show ?thesis by (simp add: take_bit_eq_mod)
qed

lemmas v4_class_defs =
  v4_is_loopback_def v4_is_unspecified_def v4_is_multicast_def v4_is_private_def
  v4_is_link_local_def v4_is_broadcast_def

definition v4_ok :: "32 word \<Rightarrow> bool" where
  "v4_ok a \<longleftrightarrow> \<not> (v4_is_loopback a \<or> v4_is_unspecified a \<or> v4_is_multicast a \<or> v4_is_private a
     \<or> v4_is_link_local a \<or> v4_is_broadcast a)"

lemma div_eq_bounds: "0 < k \<Longrightarrow> m div k = q \<longleftrightarrow> q * k \<le> m \<and> m < (q + 1) * k" for m k q :: nat
  by (metis Suc_eq_plus1 div_nat_eqI div_times_less_eq_dividend dividend_less_div_times mult.commute mult_Suc add.commute)

lemma div_mod_pair: "r < k \<Longrightarrow> m div k = q \<and> m mod k = r \<longleftrightarrow> m = q * k + r" for m k q r :: nat
  by auto

lemma v4_ok_iff: "v4_ok a \<longleftrightarrow> \<not> blocked_v4 (unat a)"
proof -
  define m where "m = unat a div 2 ^ 16"
  have d: "unat a div 2 ^ 24 = m div 256" "unat a div 2 ^ 20 = m div 16" "unat a div 2 ^ 28 = m div 4096"
    by (simp_all add: m_def flip: div_mult2_eq)
  have w: "v4_is_loopback a \<longleftrightarrow> m div 256 = 127"
    "v4_is_unspecified a \<longleftrightarrow> unat a = 0"
    "v4_is_multicast a \<longleftrightarrow> 224 \<le> m div 256 \<and> m div 256 \<le> 239"
    "v4_is_private a \<longleftrightarrow> m div 256 = 10 \<or> (m div 256 = 172 \<and> 16 \<le> m mod 256 \<and> m mod 256 \<le> 31)
       \<or> (m div 256 = 192 \<and> m mod 256 = 168)"
    "v4_is_link_local a \<longleftrightarrow> m div 256 = 169 \<and> m mod 256 = 254"
    "v4_is_broadcast a \<longleftrightarrow> unat a = ipv4 255 255 255 255"
    unfolding v4_class_defs word_unat_eq_iff word_le_nat_alt unat_byte2 unat_drop d ipv4_def
    by (simp_all add: m_def)
  have split: "m = m div 256 * 256 + m mod 256" "m mod 256 < 256" by simp_all
  have "224 \<le> m div 256 \<and> m div 256 \<le> 239 \<longleftrightarrow> m div 4096 = 14"
    unfolding div_eq_bounds [of 4096 m, simplified] using split by linarith
  moreover have "m div 256 = 172 \<and> 16 \<le> m mod 256 \<and> m mod 256 \<le> 31 \<longleftrightarrow> m div 16 = 2753"
    unfolding div_eq_bounds [of 16 m, simplified]
  proof (intro iffI; elim conjE)
    assume h: "2753 * 16 \<le> m" "m < 16 + 2753 * 16"
    then have "m div 256 = 172" by (intro div_nat_eqI) simp_all
    with h split show "m div 256 = 172 \<and> 16 \<le> m mod 256 \<and> m mod 256 \<le> 31" by linarith
  qed (use split in linarith)
  moreover have "m div 256 = 192 \<and> m mod 256 = 168 \<longleftrightarrow> m = 49320"
    using div_mod_pair [of 168 256 m 192] by simp
  moreover have "m div 256 = 169 \<and> m mod 256 = 254 \<longleftrightarrow> m = 43518"
    using div_mod_pair [of 254 256 m 169] by simp
  ultimately show ?thesis
    unfolding v4_ok_def blocked_v4_def w in_block_def using d
    by (simp add: ipv4_def m_def)
qed

lemma ip_is_safe_V4: "ip_is_safe (V4 a) = Inr () \<longleftrightarrow> v4_ok a"
  by (simp add: ip_is_safe_def v4_ok_def)

text \<open>C36: the address policy, read as CIDR blocks.  An IPv4 address is allowed exactly when it
  is outside 127/8, 0.0.0.0, 224/4, 10/8, 172.16/12, 192.168/16, 169.254/16 and the broadcast
  address; an IPv6 address is judged by the embedded IPv4 address when it is IPv4-mapped
  (\<^verbatim>\<open>::ffff:0:0/96\<close>), and otherwise allowed exactly when it is not \<^verbatim>\<open>::\<close>, \<^verbatim>\<open>::1\<close> and outside
  ff00::/8, fc00::/7 and fe80::/10.\<close>

theorem ip_is_safe_blocks:
  "(ip_is_safe (V4 a) = Inr () \<longleftrightarrow> \<not> blocked_v4 (unat a))
   \<and> (ip_is_safe (V6 b) = Inr () \<longleftrightarrow>
        (if unat b div 2 ^ 32 = 0xffff then \<not> blocked_v4 (unat b mod 2 ^ 32)
         else \<not> blocked_v6 (unat b)))"
proof
  show "ip_is_safe (V4 a) = Inr () \<longleftrightarrow> \<not> blocked_v4 (unat a)"
    by (simp add: ip_is_safe_V4 v4_ok_iff)
  define m where "m = unat b div 2 ^ 112"
  have mapped: "drop_bit 32 b = 0xffff \<longleftrightarrow> unat b div 2 ^ 32 = 0xffff"
    unfolding word_unat_eq_iff unat_drop by simp
  have emb: "unat (ucast b :: 32 word) = unat b mod 2 ^ 32"
    by (simp add: unsigned_ucast_eq take_bit_eq_mod)
  have v6: "ip_is_safe (V6 b) = Inr () \<longleftrightarrow>
      \<not> (unat b = 1 \<or> unat b = 0 \<or> m div 2 ^ 8 = 0xff \<or> m div 2 ^ 9 = 0x7e \<or> m div 2 ^ 6 = 0x3fa)"
    if "drop_bit 32 b \<noteq> 0xffff"
    using that unfolding m_def unat_segment0 [symmetric] segment_masks [symmetric]
    by (simp add: ip_is_safe_def to_ipv4_mapped_def word_unat_eq_iff)
  have "unat b div 2 ^ 120 = m div 2 ^ 8" "unat b div 2 ^ 121 = m div 2 ^ 9" "unat b div 2 ^ 118 = m div 2 ^ 6"
    by (simp_all add: m_def flip: div_mult2_eq)
  with v6 have "ip_is_safe (V6 b) = Inr () \<longleftrightarrow> \<not> blocked_v6 (unat b)" if "drop_bit 32 b \<noteq> 0xffff"
    using that by (simp add: blocked_v6_def in_block_def)
  moreover have "ip_is_safe (V6 b) = ip_is_safe (V4 (ucast b))" if "drop_bit 32 b = 0xffff"
    using that by (simp add: ip_is_safe_def to_ipv4_mapped_def)
  ultimately show "ip_is_safe (V6 b) = Inr () \<longleftrightarrow>
        (if unat b div 2 ^ 32 = 0xffff then \<not> blocked_v4 (unat b mod 2 ^ 32)
         else \<not> blocked_v6 (unat b))"
    unfolding mapped [symmetric] using emb by (simp add: ip_is_safe_V4 v4_ok_iff)
qed

section \<open>Host names and literals\<close>

text \<open>Whatever the address parser consumes is made of hexadecimal digits, dots and colons.\<close>

definition ip_char :: "char \<Rightarrow> bool" where
  "ip_char c \<longleftrightarrow> is_ascii_hexdigit c \<or> c = CHR ''.'' \<or> c = CHR '':''"

definition consumes_ip :: "string \<Rightarrow> string \<Rightarrow> bool" where
  "consumes_ip s r \<longleftrightarrow> (\<exists>u. s = u @ r \<and> list_all ip_char u)"

lemma consumes_ip_refl [intro]: "consumes_ip s s"
  by (simp add: consumes_ip_def)

lemma consumes_ip_trans [trans]: "consumes_ip s r \<Longrightarrow> consumes_ip r q \<Longrightarrow> consumes_ip s q"
  by (auto simp: consumes_ip_def)

lemma read_number_consumes: "read_number b k v z s = Some (n, r) \<Longrightarrow> consumes_ip s r"
proof -
  assume "read_number b k v z s = Some (n, r)"
  then have "r = dropWhile (is_digit_of b) s"
    by (auto simp: read_number_def Let_def split: if_splits option.splits)
  then have "s = takeWhile (is_digit_of b) s @ r" by simp
  moreover have "list_all ip_char (takeWhile (is_digit_of b) s)"
    by (auto simp: list_all_iff ip_char_def is_ascii_hexdigit_def is_digit_of_def
        dest!: set_takeWhileD split: option.splits)
  ultimately show ?thesis by (auto simp: consumes_ip_def)
qed

lemma read_char_consumes: "read_char c s = Some r \<Longrightarrow> ip_char c \<Longrightarrow> consumes_ip s r"
  by (auto simp: read_char_def consumes_ip_def split: list.splits if_splits intro!: exI [of _ "[c]"])

lemma read_sep_consumes:
  assumes "read_sep c i p s = Some (x, r)" "ip_char c"
    and "\<And>s x r. p s = Some (x, r) \<Longrightarrow> consumes_ip s r"
  shows "consumes_ip s r"
  using assms read_char_consumes
  by (fastforce simp: read_sep_def bind_eq_Some_conv split: if_splits intro: consumes_ip_trans)

lemma ip_char_sep [simp]: "ip_char (CHR ''.'')" "ip_char (CHR '':'')"
  by (simp_all add: ip_char_def)

lemma read_octet_consumes: "read_octet i s = Some (n, r) \<Longrightarrow> consumes_ip s r"
  by (auto simp: read_octet_def intro: read_sep_consumes read_number_consumes)

lemma read_ipv4_consumes: "read_ipv4 s = Some (a, r) \<Longrightarrow> consumes_ip s r"
  by (auto simp: read_ipv4_def bind_eq_Some_conv dest!: read_octet_consumes intro: consumes_ip_trans)

lemma read_groups_consumes: "read_groups k i s = (gs, v, r) \<Longrightarrow> consumes_ip s r"
proof (induction k i s arbitrary: gs v r rule: read_groups.induct)
  case (2 k i s)
  have v4: "consumes_ip s q" if "read_sep (CHR '':'') i read_ipv4 s = Some (a, q)" for a q
    using that by (rule read_sep_consumes) (auto intro: read_ipv4_consumes)
  have grp: "consumes_ip s q" if "read_sep (CHR '':'') i (read_number 16 4 65535 True) s = Some (a, q)" for a q
    using that by (rule read_sep_consumes) (auto intro: read_number_consumes)
  from 2 v4 grp show ?case
    by (auto split: option.splits if_splits prod.splits intro: consumes_ip_trans)
qed auto

lemma read_ipv6_consumes:
  assumes "read_ipv6 s = Some (a, r)"
  shows "consumes_ip s r"
proof -
  obtain heads v r0 where g: "read_groups 8 0 s = (heads, v, r0)" by (metis prod_cases3)
  have s0: "consumes_ip s r0" using g by (rule read_groups_consumes)
  show ?thesis
  proof (cases "length heads = 8")
    case True
    with assms g s0 show ?thesis by (simp add: read_ipv6_def)
  next
    case False
    with assms g obtain r1 r2 where c: "read_char (CHR '':'') r0 = Some r1" "read_char (CHR '':'') r1 = Some r2"
      by (auto simp: read_ipv6_def bind_eq_Some_conv split: if_splits)
    obtain tails w r3 where t: "read_groups (8 - (length heads + 1)) 0 r2 = (tails, w, r3)" by (metis prod_cases3)
    note s0
    also have "consumes_ip r0 r1" using c(1) by (rule read_char_consumes) simp
    also have "consumes_ip r1 r2" using c(2) by (rule read_char_consumes) simp
    also have "consumes_ip r2 r3" using t by (rule read_groups_consumes)
    finally show ?thesis using assms g False c t by (simp add: read_ipv6_def split: if_splits)
  qed
qed

lemma IpAddr_from_str_chars: "IpAddr_from_str s = Some ip \<Longrightarrow> list_all ip_char s"
  by (auto simp: IpAddr_from_str_def consumes_ip_def split: option.splits if_splits
      dest!: read_ipv4_consumes read_ipv6_consumes)

text \<open>The dotted-quad text of an IPv4 address parses to it.\<close>

definition dotted :: "nat \<Rightarrow> nat \<Rightarrow> nat \<Rightarrow> nat \<Rightarrow> string" where
  "dotted a b c d = show_nat a @ ''.'' @ show_nat b @ ''.'' @ show_nat c @ ''.'' @ show_nat d"

lemma show_nat_digits: "list_all (is_digit_of 10) (show_nat n)"
proof (induction n rule: show_nat.induct)
  case (1 n)
  have "is_digit_of 10 (hex_digit k)" if "k < 10" for k using that by (simp add: is_digit_of_def)
  with 1 show ?case by (subst show_nat.simps) simp
qed

lemma show_nat_leading_zero: "hd (show_nat n) = CHR ''0'' \<Longrightarrow> length (show_nat n) = 1"
proof (induction n rule: show_nat.induct)
  case (1 n)
  show ?case
  proof (cases "n < 10")
    case False
    with "1.prems" have "hd (show_nat (n div 10)) = CHR ''0''" by (subst (asm) show_nat.simps) simp
    with False 1 have "length (show_nat (n div 10)) = 1" "n div 10 \<noteq> 0" by auto
    then have "show_nat (n div 10) = ''0''" using \<open>hd (show_nat (n div 10)) = CHR ''0''\<close>
      by (cases "show_nat (n div 10)") auto
    then have "n div 10 = 0" using digits_value_show_nat [of "n div 10"] by (simp add: digit_value_def)
    with \<open>n div 10 \<noteq> 0\<close> show ?thesis by simp
  qed (subst show_nat.simps, simp)
qed

lemma length_show_nat_octet: "n \<le> 255 \<Longrightarrow> length (show_nat n) \<le> 3"
proof -
  assume "n \<le> 255"
  then have "n div 10 div 10 < 10" by simp
  then have "length (show_nat (n div 10 div 10)) = 1" by (subst show_nat.simps) simp
  then have "length (show_nat (n div 10)) \<le> 2" by (subst show_nat.simps) simp
  then show ?thesis by (subst show_nat.simps) simp
qed

lemma read_octet_show:
  assumes "n \<le> 255" "r = [] \<or> \<not> is_digit_of 10 (hd r)"
  shows "read_number 10 3 255 False (show_nat n @ r) = Some (n, r)"
proof -
  have "takeWhile (is_digit_of 10) (show_nat n @ r) = show_nat n"
    "dropWhile (is_digit_of 10) (show_nat n @ r) = r"
    using show_nat_digits [of n] assms(2) takeWhile_split [of "show_nat n" "is_digit_of 10" r]
    by (simp_all add: list_all_iff)
  then show ?thesis
    using assms(1) length_show_nat_octet [of n] show_nat_leading_zero [of n]
    by (auto simp: read_number_def Let_def digits_value_show_nat)
qed

lemma IpAddr_from_str_dotted:
  assumes "a \<le> 255" "b \<le> 255" "c \<le> 255" "d \<le> 255"
  shows "IpAddr_from_str (dotted a b c d) = Some (V4 (of_nat (ipv4 a b c d)))"
proof -
  have dot: "\<not> is_digit_of 10 (CHR ''.'')" by code_simp
  have "read_ipv4 (dotted a b c d) = Some (of_nat (ipv4 a b c d), [])"
    using read_octet_show [OF assms(4), of "[]"]
    by (simp add: read_ipv4_def read_octet_def read_sep_def read_char_def dotted_def ipv4_def
        read_octet_show assms dot del: of_nat_add of_nat_mult)
  then show ?thesis by (simp add: IpAddr_from_str_def)
qed

lemma not_bracketed: "strip_prefix ''['' h = None \<or> last h \<noteq> CHR '']'' \<Longrightarrow>
    unwrap_or (Option.bind (strip_prefix ''['' h) (strip_suffix '']'')) h = h"
  by (auto simp: strip_prefix_def strip_suffix_def suffix_def prefix_def)

text \<open>C37: the webhook policy.  A URL is accepted only when it parses, its scheme is
  \<^verbatim>\<open>https\<close> and it has a host.  With an \<^verbatim>\<open>https\<close> scheme, a dotted-quad host is accepted exactly
  when the address is outside the blocked IPv4 ranges, and \<^verbatim>\<open>localhost\<close> and every name under
  \<^verbatim>\<open>.localhost\<close> or \<^verbatim>\<open>.local\<close>, in any letter case, is refused.\<close>

theorem webhook_url_policy:
  assumes "url_parse u = Some p"
  shows "(webhook_url_is_safe url_parse u = Inr () \<longrightarrow>
            scheme p = ''https'' \<and> (\<exists>h. host_str p = Some h \<and> h \<noteq> []))
     \<and> (scheme p = ''https'' \<and> host_str p = Some (dotted a b c d) \<and> a \<le> 255 \<and> b \<le> 255 \<and> c \<le> 255 \<and> d \<le> 255
          \<longrightarrow> (webhook_url_is_safe url_parse u = Inr () \<longleftrightarrow> \<not> blocked_v4 (ipv4 a b c d)))
     \<and> (scheme p = ''https'' \<and> host_str p = Some h
          \<and> (to_lowercase h = ''localhost'' \<or> suffix ''.localhost'' (to_lowercase h) \<or> suffix ''.local'' (to_lowercase h))
          \<longrightarrow> webhook_url_is_safe url_parse u = Inl MdnsHost)"
proof (intro conjI impI; (elim conjE)?)
  show "\<exists>h. host_str p = Some h \<and> h \<noteq> []" if "webhook_url_is_safe url_parse u = Inr ()"
    using that assms by (auto simp: webhook_url_is_safe_def split: if_splits option.splits)
  show "scheme p = ''https''" if "webhook_url_is_safe url_parse u = Inr ()"
    using that assms by (auto simp: webhook_url_is_safe_def split: if_splits)
next
  assume h: "scheme p = ''https''" "host_str p = Some (dotted a b c d)"
    and le: "a \<le> 255" "b \<le> 255" "c \<le> 255" "d \<le> 255"
  obtain x xs where x: "show_nat a = x # xs" by (cases "show_nat a") simp_all
  have "\<not> is_digit_of 10 (CHR ''['')" by code_simp
  then have "strip_prefix ''['' (dotted a b c d) = None"
    using show_nat_digits [of a] x by (auto simp: strip_prefix_def dotted_def)
  then have host: "unwrap_or (Option.bind (strip_prefix ''['' (dotted a b c d)) (strip_suffix '']'')) (dotted a b c d)
      = dotted a b c d" by simp
  have "ipv4 a b c d < 2 ^ 32" using le by (simp add: ipv4_def)
  then have "unat (of_nat (ipv4 a b c d) :: 32 word) = ipv4 a b c d" by (simp add: unat_of_nat)
  then show "webhook_url_is_safe url_parse u = Inr () \<longleftrightarrow> \<not> blocked_v4 (ipv4 a b c d)"
    using assms h host IpAddr_from_str_dotted [OF le] x
    by (simp add: webhook_url_is_safe_def ip_is_safe_V4 v4_ok_iff) (simp add: dotted_def)
next
  assume h: "scheme p = ''https''" "host_str p = Some h"
    and l: "to_lowercase h = ''localhost'' \<or> suffix ''.localhost'' (to_lowercase h) \<or> suffix ''.local'' (to_lowercase h)"
  have "CHR ''l'' \<in> set (to_lowercase h)" using l by (auto simp: suffix_def)
  then obtain k where k: "k \<in> set h" "lower_char k = CHR ''l''" by (auto simp: to_lowercase_def)
  have lc: "ip_char c \<Longrightarrow> lower_char c \<noteq> CHR ''l''" for c
    by (auto simp: ip_char_def is_ascii_hexdigit_def digit_value_def lower_char_def Let_def of_char_of
        split: if_splits dest: arg_cong [where f = "of_char :: char \<Rightarrow> nat"])
  have no_ip: "IpAddr_from_str h = None"
    using IpAddr_from_str_chars k lc by (cases "IpAddr_from_str h") (auto simp: list_all_iff)
  have "last (to_lowercase h) \<noteq> CHR '']''" using l by (auto simp: suffix_def)
  moreover have "h \<noteq> []" using k by auto
  ultimately have "last h \<noteq> CHR '']''" by (auto simp: to_lowercase_def last_map lower_char_def)
  then show "webhook_url_is_safe url_parse u = Inl MdnsHost"
    using assms h l no_ip \<open>h \<noteq> []\<close> by (auto simp: webhook_url_is_safe_def not_bracketed)
qed

definition sample_url_parse :: url_parser where
  "sample_url_parse u =
     (case strip_prefix ''https://'' u of
        Some h \<Rightarrow> Some \<lparr>scheme = ''https'', host_str = Some h\<rparr>
      | None \<Rightarrow> None)"

theorem webhook_url_policy_witness:
  "webhook_url_is_safe sample_url_parse ''https://8.8.8.8'' = Inr ()
   \<and> webhook_url_is_safe sample_url_parse ''https://169.254.169.254'' \<noteq> Inr ()
   \<and> webhook_url_is_safe sample_url_parse ''https://printer.LOCAL'' = Inl MdnsHost"
proof -
  have p: "sample_url_parse ''https://8.8.8.8'' = Some \<lparr>scheme = ''https'', host_str = Some (dotted 8 8 8 8)\<rparr>"
    "sample_url_parse ''https://169.254.169.254'' = Some \<lparr>scheme = ''https'', host_str = Some (dotted 169 254 169 254)\<rparr>"
    "sample_url_parse ''https://printer.LOCAL'' = Some \<lparr>scheme = ''https'', host_str = Some ''printer.LOCAL''\<rparr>"
    by (simp_all add: sample_url_parse_def strip_prefix_def dotted_def show_nat.simps hex_digit_def char_of_def bit_0)
  have b: "\<not> blocked_v4 (ipv4 8 8 8 8)" "blocked_v4 (ipv4 169 254 169 254)"
    by (simp_all add: blocked_v4_def in_block_def ipv4_def)
  have m: "suffix ''.local'' (to_lowercase ''printer.LOCAL'')" by code_simp
  show ?thesis
    using webhook_url_policy [where url_parse = sample_url_parse, OF p(1), of 8 8 8 8 "[]"] webhook_url_policy [where url_parse = sample_url_parse, OF p(2), of 169 254 169 254 "[]"]
      webhook_url_policy [where url_parse = sample_url_parse, OF p(3), of 0 0 0 0 "''printer.LOCAL''"] b m
    by simp
qed

end
