(* ===== verification/Dispatch.thy ===== *)
theory Dispatch
  imports Alerts Validators
begin

text \<open>
  The alert dispatcher (\<^verbatim>\<open>crates/indexer/src/alerts.rs\<close>): redaction of error texts, signing, the
  DNS guard, and the life of one alert as a sequence of atomic steps (claim, post, record) between
  which other dispatchers run.  A cycle runs the matches of a batch in a pool of at most ten tasks.
  The HMAC, the hexadecimal codec, the URL parser and the JSON printer are parameters; a receiver's
  answer and every lost connection belong to the environment of an item.
\<close>

section \<open>Constants and parameters\<close>

definition REQUEST_TIMEOUT_SECS :: u64 where
  "REQUEST_TIMEOUT_SECS = 10"

definition DISPATCH_BATCH :: i64 where
  "DISPATCH_BATCH = 100"

definition CLAIM_STALE_AFTER_SECS :: i64 where
  "CLAIM_STALE_AFTER_SECS = 60"

definition MAX_CONCURRENT_POSTS :: usize where
  "MAX_CONCURRENT_POSTS = 10"

definition SIGNATURE_HEADER :: string where
  "SIGNATURE_HEADER = ''X-Amarillo-Signature''"

record alert_ext =
  ae_url :: url_parser
  ae_hex_decode :: "string \<Rightarrow> string + byte list"
  ae_hex_encode :: "byte list \<Rightarrow> string"
  ae_hmac_sha256 :: "byte list \<Rightarrow> byte list \<Rightarrow> byte list"
  ae_to_json :: "json \<Rightarrow> string"

definition as_bytes :: "string \<Rightarrow> byte list" where
  "as_bytes s = map of_char s"

section \<open>The DNS guard\<close>

datatype dns_error = Lookup_failed string | Rejected ip_addr unsafe_url_reason

fun first_unsafe :: "ip_addr list \<Rightarrow> (ip_addr \<times> unsafe_url_reason) option" where
  "first_unsafe [] = None"
| "first_unsafe (a # as) = (case ip_is_safe a of Inl r \<Rightarrow> Some (a, r) | Inr _ \<Rightarrow> first_unsafe as)"

definition resolve :: "(string \<Rightarrow> string + ip_addr list) \<Rightarrow> string \<Rightarrow> dns_error + ip_addr list" where
  "resolve to_socket_addrs host =
     (case to_socket_addrs host of
        Inl e \<Rightarrow> Inl (Lookup_failed e)
      | Inr addrs \<Rightarrow> (case first_unsafe addrs of Some (a, r) \<Rightarrow> Inl (Rejected a r) | None \<Rightarrow> Inr addrs))"

section \<open>Signing\<close>

definition sign_payload :: "alert_ext \<Rightarrow> byte list \<Rightarrow> byte list \<Rightarrow> string" where
  "sign_payload E secret body = ae_hex_encode E (ae_hmac_sha256 E secret body)"

definition build_payload :: "alert_ext \<Rightarrow> alert_match \<Rightarrow> string" where
  "build_payload E m = ae_to_json E (JObject
     [(''subscription_id'', JNumber (show_int (m_subscription_id m))), (''tx_hash'', JString (m_tx_hash m))])"

definition build_rate_payload :: "alert_ext \<Rightarrow> rate_alert_match \<Rightarrow> string" where
  "build_rate_payload E m = ae_to_json E (JObject
     [(''subscription_id'', JNumber (show_int (r_subscription_id m))), (''sub_type'', JString ''rate_threshold''),
      (''match_count'', JNumber (show_int (r_match_count m))),
      (''threshold_count'', JNumber (show_int (r_threshold_count m))),
      (''threshold_window_secs'', JNumber (show_int (r_threshold_window_secs m)))])"

section \<open>Redaction\<close>

definition REDACT :: string where
  "REDACT = ''<redacted-url>''"

definition schemes :: "string list" where
  "schemes = [''https://'', ''http://'']"

definition next_scheme :: "string \<Rightarrow> nat option" where
  "next_scheme rest =
     fold (\<lambda>s next. case find_str rest s of
        None \<Rightarrow> next
      | Some p \<Rightarrow> Some (case next of None \<Rightarrow> p | Some q \<Rightarrow> min q p)) schemes None"

lemma next_scheme_None: "next_scheme rest = None \<longleftrightarrow> (\<forall>s \<in> set schemes. \<not> contains rest s)"
  by (auto simp: next_scheme_def schemes_def find_str_None_iff [symmetric] split: option.splits)

lemma next_scheme_Some:
  assumes "next_scheme rest = Some n"
  shows "(\<exists>s \<in> set schemes. find_str rest s = Some n) \<and> (\<forall>s \<in> set schemes. \<forall>m. find_str rest s = Some m \<longrightarrow> n \<le> m)"
  using assms by (auto simp: next_scheme_def schemes_def min_def split: option.splits if_splits)

lemma scheme_start:
  assumes "next_scheme rest = Some n"
  shows "length (dropWhile (\<lambda>c. \<not> is_ascii_ws c) (drop n rest)) < length rest"
proof -
  obtain s where "s \<in> set schemes" "prefix s (drop n rest)"
    using next_scheme_Some [OF assms] find_str_Some by blast
  then obtain t where t: "drop n rest = CHR ''h'' # t" by (auto simp: schemes_def prefix_def)
  have "length (dropWhile (\<lambda>c. \<not> is_ascii_ws c) t) \<le> length t" by (rule length_dropWhile_le)
  moreover have "length rest \<ge> Suc (length t)" using arg_cong [OF t, of length] by simp
  ultimately show ?thesis unfolding t by (simp add: is_ascii_ws_def)
qed

function redact_loop :: "string \<Rightarrow> string \<Rightarrow> string" where
  "redact_loop out rest =
     (case next_scheme rest of
        None \<Rightarrow> out @ rest
      | Some start \<Rightarrow>
          redact_loop (out @ take start rest @ REDACT) (dropWhile (\<lambda>c. \<not> is_ascii_ws c) (drop start rest)))"
  by pat_completeness auto
termination by (relation "measure (length \<circ> snd)") (simp_all add: scheme_start)

declare redact_loop.simps [simp del]

definition redact_urls :: "string \<Rightarrow> string" where
  "redact_urls input = redact_loop [] input"

text \<open>\<^verbatim>\<open>chars().take(n)\<close>: the bytes of the first \<open>n\<close> characters.\<close>

fun take_chars :: "nat \<Rightarrow> string \<Rightarrow> string" where
  "take_chars n [] = []"
| "take_chars n (c # cs) =
     (if 128 \<le> (of_char c :: nat) \<and> (of_char c :: nat) < 192 then c # take_chars n cs
      else case n of 0 \<Rightarrow> [] | Suc m \<Rightarrow> c # take_chars m cs)"

section \<open>One alert\<close>

datatype http_reply = Send_error string | Status nat string

record http_request =
  rq_url :: string
  rq_headers :: "(string \<times> string) list"
  rq_body :: string

definition signed_request :: "string \<Rightarrow> string \<Rightarrow> string \<Rightarrow> http_request" where
  "signed_request url signature_hex body =
     \<lparr>rq_url = url, rq_headers = [(''Content-Type'', ''application/json''), (SIGNATURE_HEADER, ''sha256='' @ signature_hex)],
      rq_body = body\<rparr>"

definition post_signed :: "http_reply \<Rightarrow> string + unit" where
  "post_signed reply =
     (case reply of
        Send_error e \<Rightarrow> Inl (''http: '' @ e)
      | Status code text \<Rightarrow> if 200 \<le> code \<and> code < 300 then Inr () else Inl (''http status '' @ text))"

datatype dispatch_outcome = Delivered | Failed | UnsafeUrl | ClaimSkipped

datatype item_stage =
    Start
  | Post http_request
  | Record bool "string option" dispatch_outcome
  | Done "db_error + dispatch_outcome"

record item_env =
  ie_claim_at :: instant
  ie_claim_fault :: fault
  ie_reply :: http_reply
  ie_record_at :: instant
  ie_record_fault :: fault

text \<open>After the claim: the URL check, the key, the payload and its signature.\<close>

definition prepare :: "alert_ext \<Rightarrow> string \<Rightarrow> string \<Rightarrow> string \<Rightarrow> item_stage" where
  "prepare E webhook_url signing_secret body =
     (case webhook_url_is_safe (ae_url E) webhook_url of
        Inl reason \<Rightarrow> Record False (Some (''unsafe url: '' @ reason_debug reason)) UnsafeUrl
      | Inr _ \<Rightarrow>
          (case ae_hex_decode E signing_secret of
             Inl _ \<Rightarrow> Record False (Some ''corrupt signing_secret (not hex)'') Failed
           | Inr key \<Rightarrow> Post (signed_request webhook_url (sign_payload E key (as_bytes body)) body)))"

definition after_post :: "http_reply \<Rightarrow> item_stage" where
  "after_post reply =
     (case post_signed reply of
        Inr _ \<Rightarrow> Record True None Delivered
      | Inl e \<Rightarrow> Record False (Some (take_chars 500 (redact_urls e))) Failed)"

definition item_step :: "alert_ext \<Rightarrow> alert_match \<Rightarrow> item_env \<Rightarrow> item_stage \<times> db \<Rightarrow> item_stage \<times> db" where
  "item_step E m env sd =
     (case sd of
        (Start, d) \<Rightarrow>
          (case with_fault (ie_claim_fault env)
                  (try_claim_alert_match (ie_claim_at env) (m_subscription_id m) (m_tx_hash m) CLAIM_STALE_AFTER_SECS) d of
             (Inl e, d') \<Rightarrow> (Done (Inl e), d')
           | (Inr claimed, d') \<Rightarrow>
               (if claimed then prepare E (m_webhook_url m) (m_signing_secret m) (build_payload E m)
                else Done (Inr ClaimSkipped), d'))
      | (Post rq, d) \<Rightarrow> (after_post (ie_reply env), d)
      | (Record delivered err outcome, d) \<Rightarrow>
          (case with_fault (ie_record_fault env)
                  (record_alert_delivery (ie_record_at env) (m_subscription_id m) (m_tx_hash m) delivered err) d of
             (Inl e, d') \<Rightarrow> (Done (Inl e), d')
           | (Inr _, d') \<Rightarrow> (Done (Inr outcome), d'))
      | (Done r, d) \<Rightarrow> (Done r, d))"

definition dispatch_item :: "alert_ext \<Rightarrow> alert_match \<Rightarrow> item_env \<Rightarrow> db \<Rightarrow> item_stage \<times> db" where
  "dispatch_item E m env d = (item_step E m env ^^ 3) (Start, d)"

text \<open>A rate alert has no claim.\<close>

definition rate_item_step :: "alert_ext \<Rightarrow> rate_alert_match \<Rightarrow> item_env \<Rightarrow> item_stage \<times> db \<Rightarrow> item_stage \<times> db" where
  "rate_item_step E m env sd =
     (case sd of
        (Start, d) \<Rightarrow> (prepare E (r_webhook_url m) (r_signing_secret m) (build_rate_payload E m), d)
      | (Post rq, d) \<Rightarrow> (after_post (ie_reply env), d)
      | (Record delivered err outcome, d) \<Rightarrow>
          (case with_fault (ie_record_fault env)
                  (record_rate_alert_dispatch (ie_record_at env) (r_subscription_id m) (as_i32 (r_match_count m)) delivered err) d of
             (Inl e, d') \<Rightarrow> (Done (Inl e), d')
           | (Inr _, d') \<Rightarrow> (Done (Inr outcome), d'))
      | (Done r, d) \<Rightarrow> (Done r, d))"

definition dispatch_rate_item :: "alert_ext \<Rightarrow> rate_alert_match \<Rightarrow> item_env \<Rightarrow> db \<Rightarrow> item_stage \<times> db" where
  "dispatch_rate_item E m env d = (rate_item_step E m env ^^ 3) (Start, d)"

section \<open>Redaction leaves no URL\<close>

lemma sublist_split_char:
  assumes "c \<notin> set p"
  shows "sublist p (xs @ c # ys) \<longleftrightarrow> sublist p xs \<or> sublist p ys"
proof
  assume "sublist p (xs @ c # ys)"
  then consider "sublist p xs" | "sublist p (c # ys)"
    | p1 p2 where "p = p1 @ p2" "suffix p1 xs" "prefix p2 (c # ys)"
    by (auto simp: sublist_append)
  then show "sublist p xs \<or> sublist p ys"
  proof cases
    case 2
    then show ?thesis using assms by (cases p) (auto simp: sublist_Cons_right)
  next
    case 3
    then have "p2 = []" using assms by (cases p2) auto
    then show ?thesis using 3 by auto
  qed simp
next
  assume "sublist p xs \<or> sublist p ys"
  then show "sublist p (xs @ c # ys)"
    by (metis append.assoc append_Cons append_Nil sublist_append_leftI sublist_append_rightI sublist_order.order.trans sublist_append)
qed

definition url_free :: "string \<Rightarrow> bool" where
  "url_free s \<longleftrightarrow> (\<forall>p \<in> set schemes. \<not> contains s p)"

lemma url_free_split: "c \<in> {CHR ''<'', CHR ''>''} \<Longrightarrow> url_free (xs @ c # ys) \<longleftrightarrow> url_free xs \<and> url_free ys"
  by (auto simp: url_free_def contains_iff_sublist schemes_def sublist_split_char)

lemma url_free_redact: "url_free (xs @ REDACT @ ys) \<longleftrightarrow> url_free xs \<and> url_free ys"
proof -
  have r: "REDACT = CHR ''<'' # ''redacted-url'' @ [CHR ''>'']" by (simp add: REDACT_def)
  have "url_free ''redacted-url''" by (simp add: url_free_def schemes_def)
  then show ?thesis using url_free_split [of "CHR ''<''" xs] url_free_split [of "CHR ''>''" "''redacted-url''"] by (simp add: r)
qed

lemma url_free_redact_end: "url_free (xs @ REDACT) \<longleftrightarrow> url_free xs"
  using url_free_redact [of xs "[]"] by (simp add: url_free_def schemes_def)

lemma before_scheme:
  assumes "next_scheme rest = Some n"
  shows "url_free (take n rest)"
proof -
  have False if s: "s \<in> set schemes" and t: "sublist s (take n rest)" for s
  proof -
    obtain u v where uv: "take n rest = u @ s @ v" using t by (auto simp: sublist_def)
    then have rest: "rest = u @ s @ v @ drop n rest" by (metis append.assoc append_take_drop_id)
    have "length u < n" using arg_cong [OF uv, of length] s by (auto simp: schemes_def)
    have "prefix s (drop (length u) rest)" by (subst rest) simp
    moreover have "contains rest s" by (subst rest) (simp add: contains_iff_sublist)
    then obtain m where m: "find_str rest s = Some m" using find_str_None_iff by blast
    moreover have "n \<le> m" using next_scheme_Some [OF assms] s m by blast
    ultimately show False using find_str_Some [OF m] \<open>length u < n\<close> by auto
  qed
  then show ?thesis by (auto simp: url_free_def contains_iff_sublist)
qed

lemma redact_loop_url_free: "url_free out \<Longrightarrow> out = [] \<or> suffix REDACT out \<Longrightarrow> url_free (redact_loop out rest)"
proof (induction out rest rule: redact_loop.induct)
  case (1 out rest)
  have join: "url_free (out @ zs) \<longleftrightarrow> url_free zs" for zs
    using 1(2,3) by (auto simp: suffix_def url_free_redact url_free_redact_end)
  show ?case
  proof (cases "next_scheme rest")
    case None
    then have "url_free rest" by (simp add: next_scheme_None url_free_def)
    with None join show ?thesis by (subst redact_loop.simps) simp
  next
    case (Some n)
    have "url_free (out @ take n rest @ REDACT)"
      using join [of "take n rest @ REDACT"] before_scheme [OF Some] by (simp add: url_free_redact_end)
    with 1(1) [OF Some] Some show ?thesis
      by (subst redact_loop.simps) (simp add: suffix_def)
  qed
qed

lemma redact_urls_url_free: "url_free (redact_urls s)"
  unfolding redact_urls_def by (rule redact_loop_url_free) (simp_all add: url_free_def schemes_def)

lemma redact_urls_id: "url_free s \<Longrightarrow> redact_urls s = s"
  unfolding redact_urls_def by (subst redact_loop.simps) (simp add: url_free_def next_scheme_None [THEN iffD2])

lemma char_len_take_chars: "char_len (take_chars n s) \<le> n"
  by (induction n s rule: take_chars.induct) (auto simp: char_len_def split: nat.splits)



section \<open>The outcome of one alert\<close>

lemma first_unsafe_None: "first_unsafe as = None \<longleftrightarrow> (\<forall>a \<in> set as. ip_is_safe a = Inr ())"
  by (induction as) (auto split: sum.splits)

lemma text_ok_take_chars: "text_ok s \<Longrightarrow> text_ok (take_chars n s)"
  by (induction n s rule: take_chars.induct) (auto simp: text_ok_def split: nat.splits if_splits)

lemma text_ok_redact_loop: "text_ok out \<Longrightarrow> text_ok rest \<Longrightarrow> text_ok (redact_loop out rest)"
proof (induction out rest rule: redact_loop.induct)
  case (1 out rest)
  show ?case
  proof (cases "next_scheme rest")
    case None
    with 1 show ?thesis by (subst redact_loop.simps) (simp add: text_ok_def)
  next
    case (Some n)
    have "text_ok (out @ take n rest @ REDACT)" "text_ok (dropWhile (\<lambda>c. \<not> is_ascii_ws c) (drop n rest))"
      using 1(2,3) by (auto simp: text_ok_def REDACT_def dest!: in_set_takeD set_dropWhileD in_set_dropD)
    with 1(1) [OF Some] Some show ?thesis by (subst redact_loop.simps) simp
  qed
qed

lemma text_ok_redacted: "text_ok s \<Longrightarrow> text_ok (take_chars n (redact_urls s))"
  unfolding redact_urls_def by (intro text_ok_take_chars text_ok_redact_loop) (simp_all add: text_ok_def)

lemma reason_text_ok: "text_ok (''unsafe url: '' @ reason_debug r)"
  by (cases r) (simp_all add: text_ok_def)

text \<open>The ledger row of a pair is writable: the references hold and its counter is far from the limit.\<close>

definition writable :: "db \<Rightarrow> alert_match \<Rightarrow> bool" where
  "writable d m \<longleftrightarrow> subscription_known d (m_subscription_id m) \<and> text_ok (m_tx_hash m)
     \<and> (\<forall>r. find_delivery (m_subscription_id m, m_tx_hash m) d = Some r \<longrightarrow> 0 \<le> d_attempts r \<and> d_attempts r < 2 ^ 31 - 2)"

lemma claim_succeeds:
  assumes "ledger_ok d" "int4_ok n" "writable d m"
    and "granted now (interval_secs n) (ledger d (m_subscription_id m, m_tx_hash m))"
  shows "\<exists>d1 r. try_claim_alert_match now (m_subscription_id m) (m_tx_hash m) n d = Inr (True, d1)
     \<and> find_delivery (m_subscription_id m, m_tx_hash m) d1 = Some r \<and> int4_ok (d_attempts r + 1)"
proof (cases "find_delivery (m_subscription_id m, m_tx_hash m) d")
  case None
  then show ?thesis
    using assms by (auto simp: try_claim_alert_match_def add_delivery_def writable_def opt_ok_def find_delivery_def
        find_append delivery_key_def int4_ok_def)
next
  case (Some r)
  with assms claimable_granted [OF assms(1) Some, of now n] show ?thesis
    by (auto simp: try_claim_alert_match_def writable_def int4_ok_def find_delivery_put)
qed

lemma record_succeeds:
  assumes "find_delivery (i, h) d = Some r" "int4_ok (d_attempts r + 1)" "opt_ok text_ok e"
  shows "\<exists>d'. record_alert_delivery now i h dv e d = Inr ((), d')"
  using assms by (simp add: record_alert_delivery_def)

text \<open>The result an alert deserves, from its URL, its secret and the receiver's reply.\<close>

definition item_outcome :: "alert_ext \<Rightarrow> alert_match \<Rightarrow> http_reply \<Rightarrow> dispatch_outcome" where
  "item_outcome E m reply =
     (case webhook_url_is_safe (ae_url E) (m_webhook_url m) of
        Inl _ \<Rightarrow> UnsafeUrl
      | Inr _ \<Rightarrow> (case ae_hex_decode E (m_signing_secret m) of
          Inl _ \<Rightarrow> Failed
        | Inr _ \<Rightarrow> (case post_signed reply of Inr _ \<Rightarrow> Delivered | Inl _ \<Rightarrow> Failed)))"

lemma item_step_Record_Done: "\<exists>r d'. item_step E m env (Record dv e out, d) = (Done r, d')"
  by (auto simp: item_step_def split: prod.splits sum.splits)

lemma item_step_Done [simp]: "item_step E m env (Done r, d) = (Done r, d)"
  by (simp add: item_step_def)

lemma item_step_Record_twice:
  "item_step E m env (item_step E m env (Record dv e out, d)) = item_step E m env (Record dv e out, d)"
  using item_step_Record_Done [of E m env dv e out d] by (elim exE) simp

lemma claimed_item_plan:
  assumes "\<forall>e. post_signed (ie_reply env) = Inl e \<longrightarrow> text_ok e"
  shows "\<exists>dv e. item_step E m env (item_step E m env (prepare E (m_webhook_url m) (m_signing_secret m) body, d)) =
       item_step E m env (Record dv e (item_outcome E m (ie_reply env)), d)
     \<and> opt_ok text_ok e \<and> (dv \<longleftrightarrow> item_outcome E m (ie_reply env) = Delivered)"
proof -
  have post: "item_step E m env (Post rq, d) = (after_post (ie_reply env), d)" for rq by (simp add: item_step_def)
  show ?thesis
  proof (cases "webhook_url_is_safe (ae_url E) (m_webhook_url m)")
    case (Inl r)
    have e: "opt_ok text_ok (Some (''unsafe url: '' @ reason_debug r))" using reason_text_ok [of r] by (simp only: opt_ok_def option.case)
    show ?thesis
      by (intro exI [of _ False] exI [of _ "Some (''unsafe url: '' @ reason_debug r)"])
        (use Inl e in \<open>simp add: prepare_def item_outcome_def item_step_Record_twice\<close>)
  next
    case safe: (Inr u)
    show ?thesis
    proof (cases "ae_hex_decode E (m_signing_secret m)")
      case (Inl x)
      show ?thesis
        by (intro exI [of _ False] exI [of _ "Some ''corrupt signing_secret (not hex)''"])
          (use Inl safe in \<open>simp add: prepare_def item_outcome_def item_step_Record_twice opt_ok_def text_ok_def\<close>)
    next
      case (Inr key)
      then show ?thesis using safe assms text_ok_redacted
        by (cases "post_signed (ie_reply env)")
          (auto simp: prepare_def item_outcome_def post after_post_def opt_ok_def intro!: exI)
    qed
  qed
qed

text \<open>C12: what becomes of one alert.  With a working database connection and a writable ledger row, an
  alert whose pair is held by another dispatcher or was delivered is skipped and changes nothing;
  otherwise exactly one of three things happens, and the ledger says which: an unsafe URL is refused
  without a request, an undecodable secret or an unsuccessful reply counts as failed, both to be
  retried, and a successful reply makes the pair sent for good.\<close>

theorem dispatch_item_outcome:
  fixes E :: alert_ext and env :: item_env
  assumes "ledger_ok d" "writable d m" "ie_claim_fault env = Works" "ie_record_fault env = Works"
    and "\<forall>e. post_signed (ie_reply env) = Inl e \<longrightarrow> text_ok e"
  defines "k \<equiv> (m_subscription_id m, m_tx_hash m)"
  defines "out \<equiv> item_outcome E m (ie_reply env)"
  shows "if granted (ie_claim_at env) (interval_secs 60) (ledger d k)
     then \<exists>d'. dispatch_item E m env d = (Done (Inr out), d') \<and> ledger_ok d'
            \<and> ledger d' = (ledger d)(k \<mapsto> (if out = Delivered then Sent else Retry))
     else dispatch_item E m env d = (Done (Inr ClaimSkipped), d)"
proof (cases "granted (ie_claim_at env) (interval_secs 60) (ledger d k)")
  case False
  then have "try_claim_alert_match (ie_claim_at env) (m_subscription_id m) (m_tx_hash m) 60 d = Inr (False, d)"
    using cl.refusal_total [of d 60 "ie_claim_at env" k] assms(1) by (simp add: k_def int4_ok_def)
  with False assms(3) show ?thesis
    by (simp add: dispatch_item_def numeral_3_eq_3 item_step_def with_fault_def CLAIM_STALE_AFTER_SECS_def)
next
  case True
  have n: "int4_ok 60" by (simp add: int4_ok_def)
  obtain d1 r where c: "try_claim_alert_match (ie_claim_at env) (m_subscription_id m) (m_tx_hash m) 60 d = Inr (True, d1)"
    and r: "find_delivery k d1 = Some r" "int4_ok (d_attempts r + 1)"
    using claim_succeeds [OF assms(1) n assms(2)] True unfolding k_def by blast
  have d1: "ledger_ok d1" "ledger d1 = (ledger d)(k \<mapsto> Held (ie_claim_at env))"
    using try_claim_spec [OF assms(1) c] by (auto simp: spec_claim_def k_def split: if_splits)
  have s1: "item_step E m env (Start, d) = (prepare E (m_webhook_url m) (m_signing_secret m) (build_payload E m), d1)"
    using c assms(3) by (simp add: item_step_def with_fault_def CLAIM_STALE_AFTER_SECS_def)
  obtain dv e where plan: "dispatch_item E m env d = item_step E m env (Record dv e out, d1)"
      "opt_ok text_ok e" "dv \<longleftrightarrow> out = Delivered"
    using claimed_item_plan [OF assms(5), of E m "build_payload E m" d1]
    by (auto simp: dispatch_item_def numeral_3_eq_3 s1 out_def)
  obtain d' where d': "record_alert_delivery (ie_record_at env) (m_subscription_id m) (m_tx_hash m) dv e d1 = Inr ((), d')"
    using record_succeeds [OF r(1) [unfolded k_def] r(2) plan(2)] by blast
  then have "dispatch_item E m env d = (Done (Inr out), d')"
    using plan(1) assms(4) by (simp add: item_step_def with_fault_def)
  moreover have "ledger_ok d'" "ledger d' = (ledger d)(k \<mapsto> (if out = Delivered then Sent else Retry))"
    using record_spec [OF d1(1) d'] d1(2) plan(3) by (auto simp: spec_settle_def k_def)
  ultimately show ?thesis using True by auto
qed

definition sample_alert_ext :: alert_ext where
  "sample_alert_ext = \<lparr>ae_url = (\<lambda>_. Some \<lparr>scheme = ''https'', host_str = Some ''example.org''\<rparr>),
     ae_hex_decode = (\<lambda>_. Inr [0, 255]), ae_hex_encode = (\<lambda>bs. concat (map hex_byte bs)),
     ae_hmac_sha256 = (\<lambda>key body. key @ body), ae_to_json = (\<lambda>_. ''{}'')\<rparr>"

definition sample_match :: alert_match where
  "sample_match = \<lparr>m_subscription_id = 7, m_tx_hash = ''a'', m_webhook_url = ''https://example.org/hook'', m_signing_secret = ''00ff''\<rparr>"

definition sample_item_env :: item_env where
  "sample_item_env = \<lparr>ie_claim_at = 1000, ie_claim_fault = Works, ie_reply = Status 204 ''204 No Content'',
     ie_record_at = 2000, ie_record_fault = Works\<rparr>"

lemma sample_url_safe: "webhook_url_is_safe (ae_url sample_alert_ext) u = Inr ()"
proof -
  have "\<not> ip_char (CHR ''x'')" by (simp add: ip_char_def is_ascii_hexdigit_def digit_value_def)
  then have "IpAddr_from_str ''example.org'' = None"
    using IpAddr_from_str_chars [of "''example.org''"] by (cases "IpAddr_from_str ''example.org''") auto
  moreover have "to_lowercase ''example.org'' = ''example.org''" by code_simp
  ultimately show ?thesis
    by (simp add: webhook_url_is_safe_def sample_alert_ext_def strip_prefix_def suffix_def)
qed

theorem dispatch_item_outcome_witness:
  "\<exists>d'. dispatch_item sample_alert_ext sample_match sample_item_env watched_db = (Done (Inr Delivered), d')
     \<and> ledger d' (7, ''a'') = Some Sent"
proof -
  have w: "writable watched_db sample_match"
    by (simp add: writable_def subscription_known_def sample_match_def text_ok_def find_delivery_def watched_db_def
        sample_db_def empty_db_def)
  have o: "item_outcome sample_alert_ext sample_match (ie_reply sample_item_env) = Delivered"
    by (simp add: item_outcome_def sample_url_safe) (simp add: post_signed_def sample_item_env_def sample_alert_ext_def)
  have l: "ledger watched_db (7, ''a'') = None"
    by (simp add: ledger_def find_delivery_def watched_db_def sample_db_def empty_db_def)
  have f: "ie_claim_fault sample_item_env = Works" "ie_record_fault sample_item_env = Works"
    "\<forall>e. post_signed (ie_reply sample_item_env) = Inl e \<longrightarrow> text_ok e"
    by (simp_all add: sample_item_env_def post_signed_def)
  from dispatch_item_outcome [OF watched_ledger_ok w f, of sample_alert_ext] o l show ?thesis
    by (auto simp: sample_match_def)
qed

end
