(* ===== verification/Cycle.thy ===== *)
theory Cycle
  imports Dispatch
begin

text \<open>
  A dispatch cycle (\<^verbatim>\<open>dispatch_once\<close>, \<^verbatim>\<open>dispatch_rate_once\<close> and \<^verbatim>\<open>dispatch_loop\<close> in
  \<^verbatim>\<open>crates/indexer/src/alerts.rs\<close>): a pool of at most ten concurrent tasks over a queue of matches.
  A script of events says which task takes its next step, which one panics and which finished one is
  joined next, so a statement over all scripts covers every schedule.  The counters are far below
  their 64-bit range and are plain numbers.
\<close>

section \<open>The pool\<close>

record dispatch_metrics =
  dm_cycles :: u64
  dm_attempted :: u64
  dm_delivered :: u64
  dm_failed :: u64
  dm_unsafe_url_skipped :: u64
  dm_claim_skipped :: u64
  dm_rate_attempted :: u64
  dm_rate_delivered :: u64
  dm_rate_failed :: u64

text \<open>A task is at a stage, or has panicked.\<close>

record 'm pool =
  po_queue :: "'m list"
  po_tasks :: "('m \<times> item_stage option) list"
  po_metrics :: dispatch_metrics
  po_db :: db

datatype pool_move = Step nat item_env | Abort nat | Join nat

definition spawn_next :: "(dispatch_metrics \<Rightarrow> dispatch_metrics) \<Rightarrow> 'm pool \<Rightarrow> 'm pool" where
  "spawn_next tried p =
     (case po_queue p of
        [] \<Rightarrow> p
      | m # ms \<Rightarrow> p\<lparr>po_queue := ms, po_tasks := po_tasks p @ [(m, Some Start)],
          po_metrics := tried (po_metrics p)\<rparr>)"

fun joined :: "item_stage option \<Rightarrow> (db_error + dispatch_outcome) option option" where
  "joined None = Some None"
| "joined (Some (Done r)) = Some (Some r)"
| "joined _ = None"

fun pool_event ::
    "('m \<Rightarrow> item_env \<Rightarrow> item_stage \<times> db \<Rightarrow> item_stage \<times> db)
     \<Rightarrow> (dispatch_metrics \<Rightarrow> dispatch_metrics)
     \<Rightarrow> ((db_error + dispatch_outcome) option \<Rightarrow> dispatch_metrics \<Rightarrow> dispatch_metrics)
     \<Rightarrow> pool_move \<Rightarrow> 'm pool \<Rightarrow> 'm pool" where
  "pool_event step tried count (Step i env) p =
     (if length (po_tasks p) \<le> i then p
      else case po_tasks p ! i of
        (m, None) \<Rightarrow> p
      | (m, Some s) \<Rightarrow>
          (case step m env (s, po_db p) of
             (s', d') \<Rightarrow> p\<lparr>po_tasks := (po_tasks p)[i := (m, Some s')], po_db := d'\<rparr>))"
| "pool_event step tried count (Abort i) p =
     (if length (po_tasks p) \<le> i \<or> joined (snd (po_tasks p ! i)) \<noteq> None then p
      else p\<lparr>po_tasks := (po_tasks p)[i := (fst (po_tasks p ! i), None)]\<rparr>)"
| "pool_event step tried count (Join i) p =
     (if length (po_tasks p) \<le> i then p
      else case joined (snd (po_tasks p ! i)) of
        None \<Rightarrow> p
      | Some r \<Rightarrow>
          spawn_next tried
            (p\<lparr>po_tasks := take i (po_tasks p) @ drop (Suc i) (po_tasks p), po_metrics := count r (po_metrics p)\<rparr>))"

definition run_pool where
  "run_pool step tried count script pending metrics d =
     fold (pool_event step tried count) script
       ((spawn_next tried ^^ MAX_CONCURRENT_POSTS)
          \<lparr>po_queue = pending, po_tasks = [], po_metrics = metrics, po_db = d\<rparr>)"

section \<open>Cycles\<close>

definition tried_alert :: "dispatch_metrics \<Rightarrow> dispatch_metrics" where
  "tried_alert m = m\<lparr>dm_attempted := dm_attempted m + 1\<rparr>"

definition count_alert :: "(db_error + dispatch_outcome) option \<Rightarrow> dispatch_metrics \<Rightarrow> dispatch_metrics" where
  "count_alert r m =
     (case r of
        Some (Inr Delivered) \<Rightarrow> m\<lparr>dm_delivered := dm_delivered m + 1\<rparr>
      | Some (Inr Failed) \<Rightarrow> m\<lparr>dm_failed := dm_failed m + 1\<rparr>
      | Some (Inr UnsafeUrl) \<Rightarrow> m\<lparr>dm_unsafe_url_skipped := dm_unsafe_url_skipped m + 1\<rparr>
      | Some (Inr ClaimSkipped) \<Rightarrow> m\<lparr>dm_claim_skipped := dm_claim_skipped m + 1\<rparr>
      | Some (Inl _) \<Rightarrow> m\<lparr>dm_failed := dm_failed m + 1\<rparr>
      | None \<Rightarrow> m\<lparr>dm_failed := dm_failed m + 1\<rparr>)"

definition dispatch_once ::
    "alert_ext \<Rightarrow> instant \<Rightarrow> i64 \<Rightarrow> pool_move list \<Rightarrow> dispatch_metrics \<Rightarrow> db \<Rightarrow> db_error + alert_match pool" where
  "dispatch_once E now batch script metrics d =
     (case find_pending_alert_matches now batch CLAIM_STALE_AFTER_SECS d of
        Inl e \<Rightarrow> Inl e
      | Inr (pending, d') \<Rightarrow> Inr (run_pool (item_step E) tried_alert count_alert script pending metrics d'))"

definition tried_rate :: "dispatch_metrics \<Rightarrow> dispatch_metrics" where
  "tried_rate m = m\<lparr>dm_rate_attempted := dm_rate_attempted m + 1\<rparr>"

definition count_rate :: "(db_error + dispatch_outcome) option \<Rightarrow> dispatch_metrics \<Rightarrow> dispatch_metrics" where
  "count_rate r m =
     (if r = Some (Inr Delivered) then m\<lparr>dm_rate_delivered := dm_rate_delivered m + 1\<rparr>
      else m\<lparr>dm_rate_failed := dm_rate_failed m + 1\<rparr>)"

definition dispatch_rate_once ::
    "alert_ext \<Rightarrow> instant \<Rightarrow> i64 \<Rightarrow> pool_move list \<Rightarrow> dispatch_metrics \<Rightarrow> db \<Rightarrow> db_error + rate_alert_match pool" where
  "dispatch_rate_once E now batch script metrics d =
     (case find_pending_rate_alert_matches now batch d of
        Inl e \<Rightarrow> Inl e
      | Inr (pending, d') \<Rightarrow> Inr (run_pool (rate_item_step E) tried_rate count_rate script pending metrics d'))"

text \<open>One turn of the loop: both passes, each of which ends with an empty pool, then the wait.\<close>

record loop_env =
  le_now :: instant
  le_script :: "pool_move list"
  le_rate_now :: instant
  le_rate_script :: "pool_move list"
  le_ctrl_c :: bool

datatype loop_result = Next dispatch_metrics db | Quit dispatch_metrics db | Loop_error db_error db | Still_running db

definition dispatch_turn :: "alert_ext \<Rightarrow> loop_env \<Rightarrow> dispatch_metrics \<Rightarrow> db \<Rightarrow> loop_result" where
  "dispatch_turn E env metrics0 d =
     (let metrics = metrics0\<lparr>dm_cycles := dm_cycles metrics0 + 1\<rparr> in
      case dispatch_once E (le_now env) DISPATCH_BATCH (le_script env) metrics d of
        Inl e \<Rightarrow> Loop_error e d
      | Inr p \<Rightarrow>
          if po_tasks p \<noteq> [] then Still_running (po_db p)
          else case dispatch_rate_once E (le_rate_now env) DISPATCH_BATCH (le_rate_script env) (po_metrics p) (po_db p) of
                 Inl e \<Rightarrow> Loop_error e (po_db p)
               | Inr q \<Rightarrow>
                   if po_tasks q \<noteq> [] then Still_running (po_db q)
                   else if le_ctrl_c env then Quit (po_metrics q) (po_db q) else Next (po_metrics q) (po_db q))"

section \<open>Every match is accounted for\<close>

text \<open>The steps a task has left before it can be joined.\<close>

fun stage_rank :: "item_stage option \<Rightarrow> nat" where
  "stage_rank (Some Start) = 3"
| "stage_rank (Some (Post _)) = 2"
| "stage_rank (Some (Record _ _ _)) = 1"
| "stage_rank _ = 0"

definition work_left :: "'m pool \<Rightarrow> nat" where
  "work_left p = sum_list (map (\<lambda>t. Suc (stage_rank (snd t))) (po_tasks p)) + 5 * length (po_queue p)"

lemma stage_rank_joined: "stage_rank s = 0 \<longleftrightarrow> joined s \<noteq> None"
  by (cases s rule: stage_rank.cases) auto

lemma stage_rank_le: "stage_rank s \<le> 3"
  by (cases s rule: stage_rank.cases) auto

lemma sum_list_remove:
  fixes f :: "'x \<Rightarrow> nat"
  assumes "i < length xs"
  shows "sum_list (map f (take i xs @ drop (Suc i) xs)) + f (xs ! i) = sum_list (map f xs)"
  by (subst (4) id_take_nth_drop [OF assms]) simp

lemma sum_list_replace:
  fixes f :: "'x \<Rightarrow> nat"
  assumes "i < length xs"
  shows "sum_list (map f (xs[i := y])) + f (xs ! i) = sum_list (map f xs) + f y"
  using sum_list_remove [OF assms, of f] by (simp add: upd_conv_take_nth_drop [OF assms])

text \<open>How many events of a script have an effect.\<close>

fun changes :: "('e \<Rightarrow> 'p \<Rightarrow> 'p) \<Rightarrow> 'e list \<Rightarrow> 'p \<Rightarrow> nat" where
  "changes f [] p = 0"
| "changes f (ev # evs) p = (if f ev p = p then 0 else 1) + changes f evs (f ev p)"

locale counted_pool =
  fixes step :: "'m \<Rightarrow> item_env \<Rightarrow> item_stage \<times> db \<Rightarrow> item_stage \<times> db"
    and tried :: "dispatch_metrics \<Rightarrow> dispatch_metrics"
    and count :: "(db_error + dispatch_outcome) option \<Rightarrow> dispatch_metrics \<Rightarrow> dispatch_metrics"
    and attempts settled :: "dispatch_metrics \<Rightarrow> nat"
  assumes tried_counts: "attempts (tried m) = Suc (attempts m)" "settled (tried m) = settled m"
    and count_counts: "attempts (count r m) = attempts m" "settled (count r m) = Suc (settled m)"
    and step_advances: "stage_rank (Some s) \<noteq> 0 \<Longrightarrow> stage_rank (Some (fst (step i env (s, d)))) < stage_rank (Some s)"
    and step_done: "stage_rank (Some s) = 0 \<Longrightarrow> step i env (s, d) = (s, d)"
begin

abbreviation event :: "pool_move \<Rightarrow> 'm pool \<Rightarrow> 'm pool" where
  "event \<equiv> pool_event step tried count"

definition pool_inv :: "dispatch_metrics \<Rightarrow> nat \<Rightarrow> nat \<Rightarrow> 'm pool \<Rightarrow> bool" where
  "pool_inv m0 n limit p \<longleftrightarrow>
     attempts (po_metrics p) + length (po_queue p) = attempts m0 + n
     \<and> settled (po_metrics p) + length (po_tasks p) + length (po_queue p) = settled m0 + n
     \<and> length (po_tasks p) \<le> limit \<and> (po_queue p \<noteq> [] \<longrightarrow> length (po_tasks p) = limit)"

lemma prime_inv:
  "pool_inv m0 (length ms) k ((spawn_next tried ^^ k) \<lparr>po_queue = ms, po_tasks = [], po_metrics = m0, po_db = d\<rparr>)"
  by (induction k) (auto simp: pool_inv_def spawn_next_def tried_counts split: list.splits)

lemma event_inv:
  assumes "pool_inv m0 n limit p"
  shows "pool_inv m0 n limit (event ev p)"
proof (cases ev)
  case (Step i env)
  with assms show ?thesis by (auto simp: pool_inv_def split: prod.splits option.splits)
next
  case (Abort i)
  with assms show ?thesis by (auto simp: pool_inv_def)
next
  case (Join i)
  with assms show ?thesis
    by (auto simp: pool_inv_def spawn_next_def tried_counts count_counts split: option.splits list.splits)
qed

lemma run_inv: "pool_inv m0 (length ms) MAX_CONCURRENT_POSTS (run_pool step tried count script ms m0 d)"
proof -
  have "pool_inv m0 n limit p \<Longrightarrow> pool_inv m0 n limit (fold event script p)" for n limit p
    by (induction script arbitrary: p) (auto intro: event_inv)
  with prime_inv show ?thesis by (simp add: run_pool_def)
qed

lemma accounts:
  assumes "p = run_pool step tried count script ms m0 d"
  shows "length (po_tasks p) \<le> MAX_CONCURRENT_POSTS"
    and "attempts (po_metrics p) + length (po_queue p) = attempts m0 + length ms"
    and "settled (po_metrics p) + length (po_tasks p) + length (po_queue p) = settled m0 + length ms"
    and "po_tasks p = [] \<Longrightarrow> po_queue p = []"
  using run_inv [of m0 ms script d] assms by (auto simp: pool_inv_def MAX_CONCURRENT_POSTS_def)

lemma work_spawn: "work_left (spawn_next tried p) \<le> work_left p"
  by (auto simp: work_left_def spawn_next_def split: list.splits)

lemma event_work:
  assumes "event ev p \<noteq> p"
  shows "work_left (event ev p) < work_left p"
proof (cases ev)
  case (Step i env)
  then have i: "i < length (po_tasks p)" using assms by (auto split: if_splits)
  obtain m s where t: "po_tasks p ! i = (m, Some s)" using Step assms i by (auto split: prod.splits option.splits)
  have "stage_rank (Some s) \<noteq> 0"
  proof
    assume "stage_rank (Some s) = 0"
    then have "event ev p = p" using Step i t step_done by (simp add: list_update_same_conv [THEN iffD2])
    with assms show False by simp
  qed
  from step_advances [OF this, of m env "po_db p"] show ?thesis
    using sum_list_replace [OF i, of "\<lambda>t. Suc (stage_rank (snd t))" "(m, Some (fst (step m env (s, po_db p))))"] Step i t
    by (auto simp: work_left_def split: prod.splits)
next
  case (Abort i)
  then have i: "i < length (po_tasks p)" "joined (snd (po_tasks p ! i)) = None" using assms by (auto split: if_splits)
  then have "stage_rank (snd (po_tasks p ! i)) \<noteq> 0" by (simp add: stage_rank_joined)
  with Abort i sum_list_replace [OF i(1), of "\<lambda>t. Suc (stage_rank (snd t))" "(fst (po_tasks p ! i), None)"]
  show ?thesis by (simp add: work_left_def)
next
  case (Join i)
  then have i: "i < length (po_tasks p)" using assms by (auto split: if_splits)
  obtain r where r: "joined (snd (po_tasks p ! i)) = Some r" using Join assms i by (auto split: option.splits)
  let ?q = "p\<lparr>po_tasks := take i (po_tasks p) @ drop (Suc i) (po_tasks p), po_metrics := count r (po_metrics p)\<rparr>"
  have "work_left ?q < work_left p"
    using sum_list_remove [OF i, of "\<lambda>t. Suc (stage_rank (snd t))"] by (simp add: work_left_def)
  with work_spawn [of ?q] Join i r show ?thesis by simp
qed

lemma event_enabled:
  assumes "po_tasks p \<noteq> []"
  shows "event (Step 0 env) p \<noteq> p \<or> event (Join 0) p \<noteq> p"
proof -
  obtain m s ts where t: "po_tasks p = (m, s) # ts" using assms by (cases "po_tasks p") auto
  show ?thesis
  proof (cases "joined s")
    case None
    then obtain s' where s': "s = Some s'" "stage_rank (Some s') \<noteq> 0" by (cases s) (auto simp: stage_rank_joined)
    have "fst (step m env (s', po_db p)) \<noteq> s'" using step_advances [OF s'(2), of m env "po_db p"] by auto
    then have "event (Step 0 env) p \<noteq> p"
      using t s' by (auto split: prod.splits dest!: arg_cong [where f = po_tasks])
    then show ?thesis ..
  next
    case (Some r)
    have "settled (po_metrics (event (Join 0) p)) = Suc (settled (po_metrics p))"
      using t Some by (simp add: spawn_next_def tried_counts count_counts split: list.splits)
    then have "event (Join 0) p \<noteq> p" by auto
    then show ?thesis ..
  qed
qed

lemma changes_bound: "changes event evs p + work_left (fold event evs p) \<le> work_left p"
proof (induction evs arbitrary: p)
  case (Cons ev evs)
  from Cons [of "event ev p"] event_work [of ev p] show ?case by (cases "event ev p = p") simp_all
qed simp

lemma prime_work: "work_left ((spawn_next tried ^^ k) p) \<le> work_left p"
  by (induction k) (auto intro: order_trans [OF work_spawn])

end

subsection \<open>The two passes\<close>

lemma item_step_advances:
  "stage_rank (Some s) \<noteq> 0 \<Longrightarrow> stage_rank (Some (fst (item_step E i env (s, d)))) < stage_rank (Some s)"
  by (cases s) (auto simp: item_step_def prepare_def after_post_def split: prod.splits sum.splits)

lemma rate_item_step_advances:
  "stage_rank (Some s) \<noteq> 0 \<Longrightarrow> stage_rank (Some (fst (rate_item_step E i env (s, d)))) < stage_rank (Some s)"
  by (cases s) (auto simp: rate_item_step_def prepare_def after_post_def split: prod.splits sum.splits)

lemma rate_item_step_Done: "rate_item_step E m env (Done r, d) = (Done r, d)"
  by (simp add: rate_item_step_def)

lemma rank_0_Done: "stage_rank (Some s) = 0 \<longleftrightarrow> (\<exists>r. s = Done r)"
  by (cases s) auto

definition settled_alerts :: "dispatch_metrics \<Rightarrow> nat" where
  "settled_alerts m = dm_delivered m + dm_failed m + dm_unsafe_url_skipped m + dm_claim_skipped m"

definition settled_rates :: "dispatch_metrics \<Rightarrow> nat" where
  "settled_rates m = dm_rate_delivered m + dm_rate_failed m"

interpretation pe: counted_pool "item_step E" tried_alert count_alert dm_attempted settled_alerts
  by unfold_locales
    (auto simp: tried_alert_def count_alert_def settled_alerts_def item_step_advances rank_0_Done
      split: option.splits sum.splits dispatch_outcome.splits)

interpretation ra: counted_pool "rate_item_step E" tried_rate count_rate dm_rate_attempted settled_rates
  by unfold_locales
    (auto simp: tried_rate_def count_rate_def settled_rates_def rate_item_step_advances rank_0_Done rate_item_step_Done)

text \<open>C10: a cycle accounts for every match.  Whatever the schedule, panics and lost connections, at any
  moment of a pass at most ten tasks run; every match of the batch is in the queue, running, or counted
  under exactly one outcome; and when the last task has been joined the queue is empty, so the batch
  size equals the increase of the outcome counters.\<close>

theorem dispatch_accounts:
  assumes "find_pending_alert_matches now batch 60 d = Inr (pending, d0)"
    and "find_pending_rate_alert_matches now batch d = Inr (rates, d0)"
  shows "\<exists>p q. dispatch_once E now batch script metrics d = Inr p
     \<and> dispatch_rate_once E now batch script metrics d = Inr q
     \<and> length (po_tasks p) \<le> 10 \<and> length (po_tasks q) \<le> 10
     \<and> dm_attempted (po_metrics p) + length (po_queue p) = dm_attempted metrics + length pending
     \<and> settled_alerts (po_metrics p) + length (po_tasks p) + length (po_queue p) = settled_alerts metrics + length pending
     \<and> settled_rates (po_metrics q) + length (po_tasks q) + length (po_queue q) = settled_rates metrics + length rates
     \<and> (po_tasks p = [] \<longrightarrow> settled_alerts (po_metrics p) = settled_alerts metrics + length pending)
     \<and> (po_tasks q = [] \<longrightarrow> settled_rates (po_metrics q) = settled_rates metrics + length rates)"
proof -
  define p where "p = run_pool (item_step E) tried_alert count_alert script pending metrics d0"
  define q where "q = run_pool (rate_item_step E) tried_rate count_rate script rates metrics d0"
  have "dispatch_once E now batch script metrics d = Inr p" "dispatch_rate_once E now batch script metrics d = Inr q"
    using assms by (simp_all add: dispatch_once_def dispatch_rate_once_def CLAIM_STALE_AFTER_SECS_def p_def q_def)
  with pe.accounts [OF p_def] ra.accounts [OF q_def] show ?thesis
    by (auto simp: MAX_CONCURRENT_POSTS_def)
qed

definition no_metrics :: dispatch_metrics where
  "no_metrics = \<lparr>dm_cycles = 0, dm_attempted = 0, dm_delivered = 0, dm_failed = 0, dm_unsafe_url_skipped = 0,
     dm_claim_skipped = 0, dm_rate_attempted = 0, dm_rate_delivered = 0, dm_rate_failed = 0\<rparr>"

lemma watched_batch:
  "\<exists>ms. find_pending_alert_matches 1000 100 60 watched_db = Inr (ms, watched_db) \<and> length ms = 2"
  by (simp add: find_pending_alert_matches_def int4_ok_def pg_limit_def watched_pending)

lemma watched_no_rates: "find_pending_rate_alert_matches 1000 100 watched_db = Inr ([], watched_db)"
  by (simp add: find_pending_rate_alert_matches_def pg_limit_def rate_due_def watched_db_def)

theorem dispatch_accounts_witness:
  "\<exists>p. dispatch_once sample_alert_ext 1000 100 [Step 0 sample_item_env, Abort 1, Join 1] no_metrics watched_db = Inr p
     \<and> settled_alerts (po_metrics p) + length (po_tasks p) + length (po_queue p) = 2"
proof -
  obtain ms where ms: "find_pending_alert_matches 1000 100 60 watched_db = Inr (ms, watched_db)" "length ms = 2"
    using watched_batch by blast
  from dispatch_accounts [OF ms(1) watched_no_rates, of sample_alert_ext "[Step 0 sample_item_env, Abort 1, Join 1]" no_metrics] ms(2)
  show ?thesis by (auto simp: settled_alerts_def no_metrics_def)
qed

section \<open>A pass ends\<close>

text \<open>C15: a pass neither stalls nor runs forever.  As long as a task is left, some task can take its next
  step or be joined; and in any schedule the number of events that change anything is at most five per
  match, so a pass is over after at most that many.\<close>

theorem dispatch_pass_ends:
  assumes "find_pending_alert_matches now batch 60 d = Inr (pending, d0)"
    and "dispatch_once E now batch [] metrics d = Inr p0"
  shows "changes (pool_event (item_step E) tried_alert count_alert) script p0 \<le> 5 * length pending
     \<and> (\<forall>p. dispatch_once E now batch script metrics d = Inr p \<and> po_tasks p \<noteq> [] \<longrightarrow>
          pool_event (item_step E) tried_alert count_alert (Step 0 env) p \<noteq> p
          \<or> pool_event (item_step E) tried_alert count_alert (Join 0) p \<noteq> p)"
proof -
  let ?init = "\<lparr>po_queue = pending, po_tasks = [], po_metrics = metrics, po_db = d0\<rparr>"
  have p0: "p0 = (spawn_next tried_alert ^^ MAX_CONCURRENT_POSTS) ?init"
    using assms by (simp add: dispatch_once_def CLAIM_STALE_AFTER_SECS_def run_pool_def)
  have "work_left p0 \<le> work_left ?init" unfolding p0 by (rule pe.prime_work)
  also have "\<dots> = 5 * length pending" by (simp add: work_left_def)
  finally show ?thesis using pe.changes_bound [of E script p0] pe.event_enabled by fastforce
qed

theorem dispatch_pass_ends_witness:
  "\<exists>p0. dispatch_once sample_alert_ext 1000 100 [] no_metrics watched_db = Inr p0
     \<and> changes (pool_event (item_step sample_alert_ext) tried_alert count_alert) (replicate 99 (Join 0)) p0 \<le> 10"
proof -
  obtain ms where ms: "find_pending_alert_matches 1000 100 60 watched_db = Inr (ms, watched_db)" "length ms = 2"
    using watched_batch by blast
  obtain p0 where p0: "dispatch_once sample_alert_ext 1000 100 [] no_metrics watched_db = Inr p0"
    using ms by (simp add: dispatch_once_def CLAIM_STALE_AFTER_SECS_def)
  from dispatch_pass_ends [OF ms(1) p0, of "replicate 99 (Join 0)"] ms(2) p0 show ?thesis by auto
qed

end
