(* ===== verification/Startup.thy ===== *)
theory Startup
  imports Schema Cycle
begin

text \<open>
  The indexer's process (\<^verbatim>\<open>crates/indexer/src/config.rs\<close> and \<^verbatim>\<open>main.rs\<close>): configuration, the choice of the
  mode, the resume point of a fixed range, and the three modes as they run to an exit.  The parsed
  command line is given; everything else a process meets (environment variables, the database
  connection, lost queries, the node, the schedules) is its \<open>world\<close>.  The database is the migrated one, on
  which \<^verbatim>\<open>run_migrations\<close> changes nothing.
\<close>

section \<open>Configuration\<close>

record config =
  cfg_database_url :: string
  cfg_rpc_url :: string
  cfg_ws_url :: "string option"
  cfg_from_block :: u64
  cfg_to_block :: "u64 option"
  cfg_follow :: bool
  cfg_poll_interval_secs :: u64
  cfg_confirmations :: u64
  cfg_subscribe :: bool
  cfg_max_concurrent_blocks :: usize
  cfg_batch_size :: usize
  cfg_max_db_connections :: nat

text \<open>\<^verbatim>\<open>env::var(name).ok().and_then(|v| v.parse().ok()).unwrap_or(default)\<close>\<close>

definition env_number :: "(string \<Rightarrow> string option) \<Rightarrow> nat \<Rightarrow> string \<Rightarrow> nat \<Rightarrow> nat" where
  "env_number get bits name dflt = unwrap_or (Option.bind (get name) (from_str_radix bits 10)) dflt"

definition required :: "(string \<Rightarrow> string option) \<Rightarrow> string \<Rightarrow> string + string" where
  "required get name = (case get name of None \<Rightarrow> Inl (name @ '' environment variable is required'') | Some v \<Rightarrow> Inr v)"

definition config_from_env :: "(string \<Rightarrow> string option) \<Rightarrow> string + config" where
  "config_from_env get =
     bind_result (required get ''DATABASE_URL'') (\<lambda>database_url.
     bind_result (required get ''RPC_URL'') (\<lambda>rpc_url.
     Inr \<lparr>cfg_database_url = database_url, cfg_rpc_url = rpc_url, cfg_ws_url = get ''WS_URL'', cfg_from_block = 0,
       cfg_to_block = None, cfg_follow = False, cfg_poll_interval_secs = 12, cfg_confirmations = 12,
       cfg_subscribe = False, cfg_max_concurrent_blocks = env_number get 64 ''MAX_CONCURRENT_BLOCKS'' 10,
       cfg_batch_size = env_number get 64 ''BATCH_SIZE'' 100,
       cfg_max_db_connections = env_number get 32 ''MAX_DB_CONNECTIONS'' 10\<rparr>))"

definition with_block_range :: "u64 \<Rightarrow> u64 option \<Rightarrow> config \<Rightarrow> config" where
  "with_block_range from_block to_block c = c\<lparr>cfg_from_block := from_block, cfg_to_block := to_block\<rparr>"

definition with_follow_opts :: "bool \<Rightarrow> u64 \<Rightarrow> u64 \<Rightarrow> bool \<Rightarrow> config \<Rightarrow> config" where
  "with_follow_opts follow poll_interval_secs confirmations subscribe c =
     c\<lparr>cfg_follow := follow, cfg_poll_interval_secs := poll_interval_secs, cfg_confirmations := confirmations,
       cfg_subscribe := subscribe\<rparr>"

section \<open>The mode\<close>

record cli =
  cl_from_block :: "u64 option"
  cl_to_block :: "u64 option"
  cl_follow :: bool
  cl_poll_interval_secs :: u64
  cl_confirmations :: u64
  cl_subscribe :: bool
  cl_dispatch_alerts :: bool

datatype job =
    Dispatch_job string nat u64
  | Follow_job config trigger_mode
  | Range_job config

definition choose_job :: "cli \<Rightarrow> (string \<Rightarrow> string option) \<Rightarrow> string + job" where
  "choose_job cl get =
     (if cl_dispatch_alerts cl \<and> (cl_follow cl \<or> cl_from_block cl \<noteq> None)
      then Inl ''--dispatch-alerts is mutually exclusive with --follow / --from-block''
      else if \<not> cl_dispatch_alerts cl \<and> \<not> cl_follow cl \<and> cl_from_block cl = None
      then Inl ''specify one of: --from-block, --follow, --dispatch-alerts''
      else if cl_dispatch_alerts cl then
        bind_result (required get ''DATABASE_URL'') (\<lambda>database_url.
        Inr (Dispatch_job database_url (env_number get 32 ''MAX_DB_CONNECTIONS'' 10) (cl_poll_interval_secs cl)))
      else
        bind_result (config_from_env get) (\<lambda>c.
        let config = with_follow_opts (cl_follow cl) (cl_poll_interval_secs cl) (cl_confirmations cl) (cl_subscribe cl)
              (with_block_range (unwrap_or (cl_from_block cl) 0) (cl_to_block cl) c) in
        Inr (if cfg_follow config then Follow_job config (resolve_trigger_mode (cfg_subscribe config) (cfg_ws_url config))
             else Range_job config)))"

section \<open>Running it\<close>

datatype exit = Exit_ok | Exit_err | Exit_panic | Not_yet

record world =
  wo_get :: "string \<Rightarrow> string option"
  wo_connects :: bool
  wo_migrates :: bool
  wo_rpc_url_parses :: bool
  wo_checkpoint_lost :: bool
  wo_node :: node
  wo_chunks :: "chunk_env list"
  wo_cycles :: "cycle_env list"
  wo_turns :: "loop_env list"

text \<open>The start of a fixed range: \<^verbatim>\<open>(last + 1) as u64\<close> behind a checkpoint at or above
  \<^verbatim>\<open>from_block as i64\<close>.\<close>

definition resume_point :: "u64 \<Rightarrow> i64 option \<Rightarrow> u64" where
  "resume_point from_block last_checkpoint =
     (case last_checkpoint of
        Some l \<Rightarrow> if u64_as_i64 from_block \<le> l then i64_as_u64 (i64_wrap (l + 1)) else from_block
      | None \<Rightarrow> from_block)"

fun exit_of :: "run_result \<Rightarrow> exit" where
  "exit_of ROk = Exit_ok"
| "exit_of RErr = Exit_err"
| "exit_of RPanic = Exit_panic"
| "exit_of RPending = Not_yet"

text \<open>The flag a fixed range passes to \<^verbatim>\<open>index_range\<close> is never raised.\<close>

definition run_range :: "ext \<Rightarrow> config \<Rightarrow> world \<Rightarrow> db \<Rightarrow> exit \<times> db" where
  "run_range E config w d =
     (if wo_checkpoint_lost w then (Exit_err, d)
      else case get_last_checkpoint 1 d of
        Inl _ \<Rightarrow> (Exit_err, d)
      | Inr (last_checkpoint, d1) \<Rightarrow>
          let from_block = resume_point (cfg_from_block config) last_checkpoint;
              to_block = unwrap_or (cfg_to_block config) from_block in
          if to_block < from_block then (Exit_ok, d1)
          else if \<not> wo_rpc_url_parses w then (if cfg_batch_size config = 0 then Exit_panic else Exit_err, d1)
          else case index_range E (wo_node w) (cfg_batch_size config) from_block to_block
                      (map (\<lambda>c. c\<lparr>ce_cancel := False\<rparr>) (wo_chunks w)) d1 of
                 (r, d') \<Rightarrow> (exit_of r, d'))"

fun follow_loop :: "ext \<Rightarrow> usize \<Rightarrow> u64 \<Rightarrow> cycle_env list \<Rightarrow> follow_state \<Rightarrow> exit \<times> db" where
  "follow_loop E batch_size confirmations [] st = (Not_yet, fo_db st)"
| "follow_loop E batch_size confirmations (env # envs) st =
     (case follow_cycle E batch_size confirmations env st of
        Continue st' \<Rightarrow> follow_loop E batch_size confirmations envs st'
      | Stopped st' \<Rightarrow> (Exit_ok, fo_db st')
      | Errored st' \<Rightarrow> (Exit_err, fo_db st')
      | Panicked st' \<Rightarrow> (Exit_panic, fo_db st')
      | Unfinished st' \<Rightarrow> (Not_yet, fo_db st'))"

definition follow :: "ext \<Rightarrow> config \<Rightarrow> trigger_mode \<Rightarrow> world \<Rightarrow> db \<Rightarrow> exit \<times> db" where
  "follow E config trigger w d =
     (if \<not> wo_rpc_url_parses w then (Exit_err, d)
      else follow_loop E (cfg_batch_size config) (cfg_confirmations config) (wo_cycles w)
        \<lparr>fo_db = d, fo_metrics = \<lparr>fm_cycle = 0, fm_blocks_indexed = 0, fm_reorgs = 0, fm_last_reorg_depth = 0\<rparr>,
         fo_subscribed = (trigger \<noteq> Polling)\<rparr>)"

fun dispatch_loop :: "alert_ext \<Rightarrow> loop_env list \<Rightarrow> dispatch_metrics \<Rightarrow> db \<Rightarrow> exit \<times> db" where
  "dispatch_loop A [] m d = (Not_yet, d)"
| "dispatch_loop A (env # envs) m d =
     (case dispatch_turn A env m d of
        Next m' d' \<Rightarrow> dispatch_loop A envs m' d'
      | Quit m' d' \<Rightarrow> (Exit_ok, d')
      | Loop_error e d' \<Rightarrow> (Exit_err, d')
      | Still_running d' \<Rightarrow> (Not_yet, d'))"

definition no_metrics :: dispatch_metrics where
  "no_metrics = \<lparr>dm_cycles = 0, dm_attempted = 0, dm_delivered = 0, dm_failed = 0, dm_unsafe_url_skipped = 0,
     dm_claim_skipped = 0, dm_rate_attempted = 0, dm_rate_delivered = 0, dm_rate_failed = 0\<rparr>"

definition indexer_main :: "ext \<Rightarrow> alert_ext \<Rightarrow> cli \<Rightarrow> world \<Rightarrow> db \<Rightarrow> exit \<times> db" where
  "indexer_main E A cl w d =
     (case choose_job cl (wo_get w) of
        Inl _ \<Rightarrow> (Exit_err, d)
      | Inr job \<Rightarrow>
          if \<not> wo_connects w \<or> \<not> wo_migrates w then (Exit_err, d)
          else case job of
                 Dispatch_job _ _ _ \<Rightarrow> dispatch_loop A (wo_turns w) no_metrics d
               | Follow_job config trigger \<Rightarrow> follow E config trigger w d
               | Range_job config \<Rightarrow> run_range E config w d)"

section \<open>The schema under every mode\<close>

lemma spawn_next_db [simp]: "po_db (spawn_next tried p) = po_db p"
  by (simp add: spawn_next_def split: list.split)

lemma spawn_nexts_db [simp]: "po_db ((spawn_next tried ^^ k) p) = po_db p"
  by (induction k) simp_all

fun turn_db :: "loop_result \<Rightarrow> db" where
  "turn_db (Next m d) = d"
| "turn_db (Quit m d) = d"
| "turn_db (Loop_error e d) = d"
| "turn_db (Still_running d) = d"

text \<open>A property that the dispatcher's two ledgers have no part in is kept by the whole process.\<close>

locale process_invariant = table_invariant +
  assumes ledgers_keep: "P d \<Longrightarrow> P (d\<lparr>deliveries := x, rate_dispatches := y, seq_rate := z\<rparr>)"
begin

lemma delivery_keeps: "P d \<Longrightarrow> P (d\<lparr>deliveries := x\<rparr>)"
  using ledgers_keep [where d = d and x = x and y = "rate_dispatches d" and z = "seq_rate d"] by simp

lemma rate_keeps: "P d \<Longrightarrow> P (d\<lparr>rate_dispatches := y, seq_rate := z\<rparr>)"
  using ledgers_keep [where d = d and x = "deliveries d"] by simp

lemma with_fault_keeps:
  assumes "with_fault f s d = (r, d')" "P d" "\<And>x e. s d = Inr (x, e) \<Longrightarrow> P e"
  shows "P d'"
  using assms by (auto simp: with_fault_def split: fault.splits sum.splits)

lemma item_step_keeps: "P (snd sd) \<Longrightarrow> P (snd (item_step A m env sd))"
proof -
  assume p: "P (snd sd)"
  have "P d'" if "with_fault f (try_claim_alert_match t i h n) (snd sd) = (r, d')" for f t i h n r d'
    using with_fault_keeps [OF that p] claim_frame delivery_keeps p by blast
  moreover have "P d'" if "with_fault f (record_alert_delivery t i h dv e) (snd sd) = (r, d')" for f t i h dv e r d'
    using with_fault_keeps [OF that p] record_frame delivery_keeps p by blast
  ultimately show ?thesis using p
    by (auto simp: item_step_def split: prod.splits item_stage.splits sum.splits)
qed

lemma rate_item_step_keeps: "P (snd sd) \<Longrightarrow> P (snd (rate_item_step A m env sd))"
proof -
  assume p: "P (snd sd)"
  have "P d'" if "with_fault f (record_rate_alert_dispatch t i k dv e) (snd sd) = (r, d')" for f t i k dv e r d'
  proof (rule with_fault_keeps [OF that p])
    fix x e'
    assume "record_rate_alert_dispatch t i k dv e (snd sd) = Inr (x, e')"
    then show "P e'" using rate_keeps [OF p] by (auto simp: record_rate_alert_dispatch_def split: if_splits)
  qed
  then show ?thesis using p
    by (auto simp: rate_item_step_def split: prod.splits item_stage.splits sum.splits)
qed

lemma pool_event_keeps:
  assumes "\<And>m env sd. P (snd sd) \<Longrightarrow> P (snd (step m env sd))" "P (po_db p)"
  shows "P (po_db (pool_event step tried count mv p))"
proof (cases mv)
  case (Step i env)
  have "P d'" if "step m env (s, po_db p) = (s', d')" for m s s' d'
    using assms(1) [of "(s, po_db p)" m env] assms(2) that by simp
  with Step assms(2) show ?thesis by (auto split: prod.split option.split)
qed (use assms(2) in \<open>auto split: option.split\<close>)

lemma run_pool_keeps:
  assumes "\<And>m env sd. P (snd sd) \<Longrightarrow> P (snd (step m env sd))" "P d"
  shows "P (po_db (run_pool step tried count script pending metrics d))"
proof -
  have f: "P (po_db p) \<Longrightarrow> P (po_db (fold (pool_event step tried count) script p))" for p
    by (induction script arbitrary: p) (simp_all add: pool_event_keeps [OF assms(1)])
  show ?thesis unfolding run_pool_def by (rule f) (simp add: assms(2))
qed

lemma dispatch_once_keeps:
  assumes "P d"
  shows "dispatch_once A now batch script metrics d = Inr p \<Longrightarrow> P (po_db p)"
    and "dispatch_rate_once A now batch script metrics d = Inr q \<Longrightarrow> P (po_db q)"
  using run_pool_keeps [of "item_step A", OF item_step_keeps assms]
    run_pool_keeps [of "rate_item_step A", OF rate_item_step_keeps assms]
  by (auto simp: dispatch_once_def dispatch_rate_once_def find_pending_alert_matches_def
      find_pending_rate_alert_matches_def Let_def split: sum.splits if_splits)

lemma dispatch_turn_keeps: "P d \<Longrightarrow> P (turn_db (dispatch_turn A env m d))"
  using dispatch_once_keeps(1) [of d A] dispatch_once_keeps(2)
  by (fastforce simp: dispatch_turn_def Let_def split: sum.split)

lemma dispatch_loop_keeps: "P d \<Longrightarrow> P (snd (dispatch_loop A envs m d))"
proof (induction envs arbitrary: m d)
  case (Cons env envs)
  from dispatch_turn_keeps [OF Cons.prems, of A env m] Cons.IH show ?case by (auto split: loop_result.split)
qed simp

lemma follow_loop_keeps: "P (fo_db st) \<Longrightarrow> P (snd (follow_loop E batch conf envs st))"
proof (induction envs arbitrary: st)
  case (Cons env envs)
  from follow_cycle_keeps [OF Cons.prems, of E batch conf env] Cons.IH show ?case by (auto split: outcome.split)
qed simp

lemma run_range_keeps: "P d \<Longrightarrow> P (snd (run_range E config w d))"
  using index_range_keeps
  by (auto simp: run_range_def get_last_checkpoint_def Let_def split: prod.split)

lemma indexer_main_keeps: "P d \<Longrightarrow> P (snd (indexer_main E A cl w d))"
  by (auto simp: indexer_main_def follow_def dispatch_loop_keeps follow_loop_keeps run_range_keeps split: sum.split job.split)

end

interpretation sp: process_invariant schema_ok
  by unfold_locales (simp add: schema_ok_def rows_ok_def index_ok_defs tx_known_def block_known_def)

text \<open>C20: the stored rows conform to the schema whatever happens to the process.  Any process, in any mode, under
  any command line, environment, node, schedule of the tasks, lost query and exit (success, error, panic, or
  still running), leaves a database in which every row of the indexing tables satisfies its column types and
  row checks, the keys are unique and the references resolve; so does any succession of processes.\<close>

theorem indexer_keeps_schema:
  assumes "schema_ok d"
  shows "schema_ok (fold (\<lambda>(E, A, cl, w) d. snd (indexer_main E A cl w d)) ps d)"
  using assms by (induction ps arbitrary: d) (auto intro: sp.indexer_main_keeps)

section \<open>Restarting a fixed range\<close>

lemma get_checkpoint [simp]: "get_last_checkpoint 1 d = Inr (checkpoint d, d)"
  by (simp add: get_last_checkpoint_def checkpoint_def)

lemma resume_point_small:
  assumes "a < 2 ^ 63" "\<forall>l. cp = Some l \<longrightarrow> - 1 \<le> l \<and> l < 2 ^ 63 - 1"
  shows "resume_point a cp = (case cp of None \<Rightarrow> a | Some l \<Rightarrow> max a (nat (l + 1)))"
proof (cases cp)
  case (Some l)
  with assms(2) have l: "- 1 \<le> l" "l < 2 ^ 63 - 1" by auto
  then have "i64_as_u64 (i64_wrap (l + 1)) = nat (l + 1)"
    using i64_as_u64_of_nat [of "nat (l + 1)"] by simp
  moreover have "\<not> int a \<le> l \<longleftrightarrow> nat (l + 1) \<le> a" using l by linarith
  ultimately show ?thesis using Some assms(1) by (simp add: resume_point_def max_def) linarith
qed (simp add: resume_point_def)

definition calm :: "usize \<Rightarrow> u64 \<Rightarrow> u64 \<Rightarrow> world \<Rightarrow> bool" where
  "calm batch a b w \<longleftrightarrow> wo_connects w \<and> wo_migrates w \<and> wo_rpc_url_parses w \<and> \<not> wo_checkpoint_lost w
     \<and> list_all (fair_round batch) (wo_chunks w) \<and> b < a + length (wo_chunks w) * batch"

lemma index_range_run:
  assumes "index_range E N batch a b (map (\<lambda>c. c\<lparr>ce_cancel := False\<rparr>) envs) d = (r, d')" "a \<le> b" "b + batch < 2 ^ 63"
  shows "range_safe E N a b d d'"
    and "r = ROk \<Longrightarrow> checkpoint d' = Some (int b) \<and> (\<forall>n. a \<le> n \<and> n \<le> b \<longrightarrow> stored E N n d')"
    and "\<lbrakk>\<And>n. a \<le> n \<Longrightarrow> n \<le> b \<Longrightarrow> good_block E N n; list_all (fair_round batch) envs; b < a + length envs * batch\<rbrakk>
      \<Longrightarrow> r = ROk"
proof -
  let ?envs = "map (\<lambda>c. c\<lparr>ce_cancel := False\<rparr>) envs"
  have calm: "list_all (\<lambda>e. \<not> ce_cancel e) ?envs" by (simp add: list_all_iff)
  show "range_safe E N a b d d'" "r = ROk \<Longrightarrow> checkpoint d' = Some (int b) \<and> (\<forall>n. a \<le> n \<and> n \<le> b \<longrightarrow> stored E N n d')"
    using assms index_loop_safe [of E N batch a b ?envs d r d'] calm
    by (auto simp: index_range_def split: if_splits)
  assume good: "\<And>n. a \<le> n \<Longrightarrow> n \<le> b \<Longrightarrow> good_block E N n" and fair: "list_all (fair_round batch) envs"
    and len: "b < a + length envs * batch"
  have batch: "0 < batch" using len assms(2) by (cases batch) auto
  have "list_all (fair_round batch) ?envs" using fair by (auto simp: list_all_iff fair_round_def)
  then show "r = ROk"
    using index_loop_completes [of a b E N batch ?envs d] good len batch assms by (simp add: index_range_def)
qed

lemma range_safe_trans:
  assumes "range_safe E N a b d0 d" "range_safe E N s b d d'" "a \<le> s" "\<And>n. a \<le> n \<Longrightarrow> n < s \<Longrightarrow> stored E N n d'"
  shows "range_safe E N a b d0 d'"
proof -
  have g: "grows d d'" using assms(2) by (simp add: range_safe_def)
  have "checkpoint d' = checkpoint d0 \<or> (\<exists>e. a \<le> e \<and> e \<le> b \<and> checkpoint d' = Some (int e) \<and> (\<forall>n. a \<le> n \<and> n \<le> e \<longrightarrow> stored E N n d'))"
  proof (cases "checkpoint d' = checkpoint d")
    case True
    with assms(1) stored_grows [OF _ g] show ?thesis unfolding range_safe_def by metis
  next
    case False
    then obtain e where "s \<le> e" "e \<le> b" "checkpoint d' = Some (int e)" "\<forall>n. s \<le> n \<and> n \<le> e \<longrightarrow> stored E N n d'"
      using assms(2) unfolding range_safe_def by blast
    with assms(3,4) show ?thesis by (intro disjI2 exI [of _ e]) (meson le_trans not_le)
  qed
  with assms(1,2) show ?thesis using grows_trans unfolding range_safe_def by blast
qed

text \<open>One run, from a database that earlier runs over the same range have left.\<close>

lemma run_range_step:
  assumes cfg: "cfg_from_block c = a" "cfg_to_block c = Some b" "a \<le> b" "b + cfg_batch_size c < 2 ^ 63" "0 < cfg_batch_size c"
    and start: "\<forall>l. checkpoint d0 = Some l \<longrightarrow> l < int a"
    and d: "range_safe E (wo_node w) a b d0 d" and run: "run_range E c w d = (x, d')"
  shows "range_safe E (wo_node w) a b d0 d'"
    and "x = Exit_ok \<Longrightarrow> checkpoint d' = Some (int b) \<and> (\<forall>n. a \<le> n \<and> n \<le> b \<longrightarrow> stored E (wo_node w) n d')"
    and "\<lbrakk>\<And>n. a \<le> n \<Longrightarrow> n \<le> b \<Longrightarrow> good_block E (wo_node w) n; calm (cfg_batch_size c) a b w\<rbrakk> \<Longrightarrow> x = Exit_ok"
proof -
  let ?N = "wo_node w" and ?envs = "map (\<lambda>c. c\<lparr>ce_cancel := False\<rparr>) (wo_chunks w)"
  obtain s where s: "a \<le> s" "resume_point a (checkpoint d) = s" "s \<le> b \<or> (s = b + 1 \<and> checkpoint d = Some (int b))"
    "\<forall>n. a \<le> n \<and> n < s \<longrightarrow> stored E ?N n d" "checkpoint d = checkpoint d0 \<or> (a < s \<and> checkpoint d = Some (int s - 1))"
  proof (cases "checkpoint d = checkpoint d0")
    case True
    have "resume_point a (checkpoint d) = a"
      using start True cfg(3,4) by (auto simp: resume_point_def split: option.split)
    with True cfg(3) show thesis by (intro that [of a]) auto
  next
    case False
    then obtain e where e: "a \<le> e" "e \<le> b" "checkpoint d = Some (int e)" "\<forall>n. a \<le> n \<and> n \<le> e \<longrightarrow> stored E ?N n d"
      using d by (auto simp: range_safe_def)
    then have "resume_point a (checkpoint d) = e + 1"
      using cfg(3-5) resume_point_small [of a "Some (int e)"] by (simp add: max_def nat_add_distrib)
    with e show thesis by (intro that [of "e + 1"]) auto
  qed
  have g: "grows d0 d" "index_ok d0 \<Longrightarrow> index_ok d" using d by (auto simp: range_safe_def)
  have "range_safe E ?N a b d0 d' \<and> (x = Exit_ok \<longrightarrow> checkpoint d' = Some (int b) \<and> (\<forall>n. a \<le> n \<and> n \<le> b \<longrightarrow> stored E ?N n d'))
      \<and> ((\<forall>n. a \<le> n \<and> n \<le> b \<longrightarrow> good_block E ?N n) \<and> calm (cfg_batch_size c) a b w \<longrightarrow> x = Exit_ok)"
  proof (cases "\<not> wo_checkpoint_lost w \<and> wo_rpc_url_parses w \<and> s \<le> b")
    case True
    obtain r e where r: "index_range E ?N (cfg_batch_size c) s b ?envs d = (r, e)" by fastforce
    have x: "x = exit_of r" "d' = e" using run True r cfg s(2) by (auto simp: run_range_def)
    note i = index_range_run [OF r _ cfg(4)]
    have safe: "range_safe E ?N s b d e" using i(1) True by blast
    have up: "stored E ?N n e" if "a \<le> n" "n < s" for n
      using that s(4) safe stored_grows unfolding range_safe_def by blast
    have "range_safe E ?N a b d0 e" by (rule range_safe_trans [OF d safe s(1)]) (use up in blast)
    moreover have "r = ROk \<Longrightarrow> checkpoint e = Some (int b) \<and> (\<forall>n. a \<le> n \<and> n \<le> b \<longrightarrow> stored E ?N n e)"
      using i(2) True up by (meson linorder_not_le)
    moreover have "r = ROk" if "\<forall>n. a \<le> n \<and> n \<le> b \<longrightarrow> good_block E ?N n" "calm (cfg_batch_size c) a b w"
      using that True s(1) by (intro i(3)) (auto simp: calm_def)
    ultimately show ?thesis using x by (cases r) auto
  next
    case False
    then show ?thesis using run s cfg d by (auto simp: run_range_def calm_def split: if_splits)
  qed
  then show "range_safe E ?N a b d0 d'"
    and "x = Exit_ok \<Longrightarrow> checkpoint d' = Some (int b) \<and> (\<forall>n. a \<le> n \<and> n \<le> b \<longrightarrow> stored E ?N n d')"
    and "\<lbrakk>\<And>n. a \<le> n \<Longrightarrow> n \<le> b \<Longrightarrow> good_block E ?N n; calm (cfg_batch_size c) a b w\<rbrakk> \<Longrightarrow> x = Exit_ok"
    by blast+
qed


definition sample_cli :: "u64 \<Rightarrow> u64 option \<Rightarrow> cli" where
  "sample_cli a b = \<lparr>cl_from_block = Some a, cl_to_block = b, cl_follow = False, cl_poll_interval_secs = 12,
     cl_confirmations = 12, cl_subscribe = False, cl_dispatch_alerts = False\<rparr>"

definition sample_env :: "string \<Rightarrow> string option" where
  "sample_env = [''DATABASE_URL'' \<mapsto> ''postgres://db'', ''RPC_URL'' \<mapsto> ''http://node'', ''BATCH_SIZE'' \<mapsto> ''2'']"

definition sample_world :: "chunk_env list \<Rightarrow> world" where
  "sample_world chunks = \<lparr>wo_get = sample_env, wo_connects = True, wo_migrates = True, wo_rpc_url_parses = True,
     wo_checkpoint_lost = False, wo_node = sample_node, wo_chunks = chunks, wo_cycles = [], wo_turns = []\<rparr>"

lemma sample_job:
  "\<exists>c. choose_job (sample_cli a b) sample_env = Inr (Range_job c) \<and> cfg_from_block c = a \<and> cfg_to_block c = b \<and> cfg_batch_size c = 2"
  by (simp add: choose_job_def sample_cli_def config_from_env_def required_def sample_env_def env_number_def
      from_str_radix_def digit_value_def with_block_range_def with_follow_opts_def Let_def)


text \<open>C30: what a fixed-range run leaves out.  The checkpoint of earlier runs decides where the range starts: when it
  lies at or above the end of the requested range, the process exits with success and has indexed nothing,
  whether or not the blocks are stored; and without an end, a single block is indexed, not the chain up to its
  head.\<close>

theorem range_below_checkpoint_is_skipped:
  assumes cfg: "choose_job cl (wo_get w) = Inr (Range_job c)" "cfg_from_block c = a" "a < 2 ^ 63"
    and w: "wo_connects w" "wo_migrates w" "wo_rpc_url_parses w" "\<not> wo_checkpoint_lost w"
    and cp: "\<forall>l. checkpoint d = Some l \<longrightarrow> - 1 \<le> l \<and> l < 2 ^ 63 - 1"
  shows "(\<forall>b l. cfg_to_block c = Some b \<and> a \<le> b \<and> checkpoint d = Some l \<and> int b \<le> l \<longrightarrow>
          indexer_main E A cl w d = (Exit_ok, d))
     \<and> (cfg_to_block c = None \<longrightarrow>
          (let s = (case checkpoint d of None \<Rightarrow> a | Some l \<Rightarrow> max a (nat (l + 1)));
               (r, d') = index_range E (wo_node w) (cfg_batch_size c) s s (map (\<lambda>c. c\<lparr>ce_cancel := False\<rparr>) (wo_chunks w)) d in
           indexer_main E A cl w d = (exit_of r, d')))"
proof (intro conjI allI impI)
  have main: "indexer_main E A cl w d = run_range E c w d" using cfg(1) w by (simp add: indexer_main_def)
  note s = resume_point_small [OF cfg(3) cp]
  show "indexer_main E A cl w d = (Exit_ok, d)"
    if "cfg_to_block c = Some b \<and> a \<le> b \<and> checkpoint d = Some l \<and> int b \<le> l" for b l
  proof -
    have "b < nat (l + 1)" using that by linarith
    with that s cfg(2) w show ?thesis by (auto simp: main run_range_def Let_def)
  qed
  assume "cfg_to_block c = None"
  then show "let s = (case checkpoint d of None \<Rightarrow> a | Some l \<Rightarrow> max a (nat (l + 1)));
      (r, d') = index_range E (wo_node w) (cfg_batch_size c) s s (map (\<lambda>c. c\<lparr>ce_cancel := False\<rparr>) (wo_chunks w)) d in
    indexer_main E A cl w d = (exit_of r, d')"
    using s cfg(2) w by (simp add: main run_range_def Let_def split: prod.split)
qed

text \<open>A request for the blocks 5 to 7 after blocks 10 and 11 were indexed.\<close>

theorem range_below_checkpoint_is_skipped_witness:
  "indexer_main sample_ext sample_alert_ext (sample_cli 5 (Some 7)) (sample_world [fair_env]) sample_db = (Exit_ok, sample_db)
   \<and> \<not> block_known sample_db 6"
proof -
  obtain c where c: "choose_job (sample_cli 5 (Some 7)) (wo_get (sample_world [fair_env])) = Inr (Range_job c)" "cfg_from_block c = 5"
      "cfg_to_block c = Some 7"
    using sample_job by (fastforce simp: sample_world_def)
  have cp: "checkpoint sample_db = Some 11" by (simp add: checkpoint_def sample_db_def)
  have "indexer_main sample_ext sample_alert_ext (sample_cli 5 (Some 7)) (sample_world [fair_env]) sample_db = (Exit_ok, sample_db)"
    using range_below_checkpoint_is_skipped [OF c(1,2), of sample_db sample_ext sample_alert_ext] c(3) cp by (simp add: sample_world_def)
  then show ?thesis by (simp add: block_known_def sample_db_def empty_db_def sample_block_def)
qed

theorem indexer_keeps_schema_witness:
  "schema_ok (snd (indexer_main sample_ext sample_alert_ext (sample_cli 18 (Some 18)) (sample_world [fair_env]) sample_db))"
proof -
  have "schema_ok sample_db"
    using sample_db_ok by (simp add: schema_ok_def rows_ok_def sample_db_def empty_db_def sample_block_def sample_tx_def sample_failed_def
        row_defs opt_ok_def varchar_ok_def text_ok_def char_len_def numeric_ok_def)
  from indexer_keeps_schema [OF this, of "[(sample_ext, sample_alert_ext, sample_cli 18 (Some 18), sample_world [fair_env])]"]
  show ?thesis by simp
qed

end
