(* ===== verification/Dispatchers.thy ===== *)
theory Dispatchers
  imports Cycle
begin

text \<open>
  Any number of dispatchers on one database.  The steps of their alerts (claim, post, record) interleave
  freely; a dispatcher can crash anywhere, connections can be lost, and the rest of the system may change
  every table but the delivery ledger.  Time passes, but not beyond the sixty seconds a claimed alert has
  to finish or crash: the request timeout of ten seconds is the code's margin for that.
\<close>

section \<open>The system\<close>

record job =
  j_match :: alert_match
  j_stage :: item_stage
  j_since :: instant

record dispatchers =
  ds_db :: db
  ds_now :: instant
  ds_jobs :: "job list"
  ds_posts :: "(alert_match \<times> http_request \<times> bool) list"
  ds_lost :: "(i64 \<times> string) list"

definition match_key :: "alert_match \<Rightarrow> i64 \<times> string" where
  "match_key m = (m_subscription_id m, m_tx_hash m)"

definition claimed_job :: "job \<Rightarrow> bool" where
  "claimed_job j \<longleftrightarrow> j_stage j \<noteq> Start"

fun acked :: "item_stage \<Rightarrow> bool" where
  "acked (Record delivered _ _) = delivered"
| "acked _ = False"

fun finished :: "item_stage \<Rightarrow> bool" where
  "finished (Done _) = True"
| "finished _ = False"

fun recorded :: "item_stage \<Rightarrow> bool" where
  "recorded (Done (Inr _)) = True"
| "recorded _ = False"

definition log_of :: "job \<Rightarrow> item_stage \<Rightarrow> (alert_match \<times> http_request \<times> bool) list" where
  "log_of j s' = (case j_stage j of Post rq \<Rightarrow> [(j_match j, rq, acked s')] | _ \<Rightarrow> [])"

text \<open>An acknowledged alert whose result does not reach the ledger is lost.\<close>

inductive dispatch_step :: "alert_ext \<Rightarrow> dispatchers \<Rightarrow> dispatchers \<Rightarrow> bool" for E where
  begins: "dispatch_step E st (st\<lparr>ds_jobs := ds_jobs st @ [\<lparr>j_match = m, j_stage = Start, j_since = ds_now st\<rparr>]\<rparr>)"
| works: "\<lbrakk>ds_jobs st = js @ j # js'; ie_claim_at env = ds_now st; ie_record_at env = ds_now st;
     item_step E (j_match j) env (j_stage j, ds_db st) = (s', d')\<rbrakk>
   \<Longrightarrow> dispatch_step E st (st\<lparr>ds_db := d',
        ds_jobs := js @ (if finished s' then []
           else [j\<lparr>j_stage := s', j_since := (if j_stage j = Start then ds_now st else j_since j)\<rparr>]) @ js',
        ds_posts := ds_posts st @ log_of j s',
        ds_lost := ds_lost st @ (if acked (j_stage j) \<and> \<not> recorded s' then [match_key (j_match j)] else [])\<rparr>)"
| crashes: "ds_jobs st = js @ j # js'
   \<Longrightarrow> dispatch_step E st (st\<lparr>ds_jobs := js @ js',
        ds_lost := ds_lost st @ (if acked (j_stage j) then [match_key (j_match j)] else [])\<rparr>)"
| passes: "\<lbrakk>ds_now st \<le> t; \<forall>j \<in> set (ds_jobs st). claimed_job j \<longrightarrow> t \<le> j_since j + interval_secs CLAIM_STALE_AFTER_SECS\<rbrakk>
   \<Longrightarrow> dispatch_step E st (st\<lparr>ds_now := t\<rparr>)"
| others: "deliveries d' = deliveries (ds_db st) \<Longrightarrow> dispatch_step E st (st\<lparr>ds_db := d'\<rparr>)"

inductive_cases dispatch_stepE: "dispatch_step E st st'"

section \<open>The invariant\<close>

definition acks :: "i64 \<times> string \<Rightarrow> (alert_match \<times> http_request \<times> bool) list \<Rightarrow> nat" where
  "acks k posts = length (filter (\<lambda>(m, rq, a). a \<and> match_key m = k) posts)"

definition acked_jobs :: "i64 \<times> string \<Rightarrow> job list \<Rightarrow> nat" where
  "acked_jobs k js = length (filter (\<lambda>j. acked (j_stage j) \<and> match_key (j_match j) = k) js)"

definition jobs_held :: "instant \<Rightarrow> (i64 \<times> string \<rightharpoonup> ledger_entry) \<Rightarrow> job list \<Rightarrow> bool" where
  "jobs_held now L js \<longleftrightarrow>
     (\<forall>j \<in> set js. claimed_job j \<longrightarrow>
        L (match_key (j_match j)) = Some (Held (j_since j)) \<and> now \<le> j_since j + interval_secs CLAIM_STALE_AFTER_SECS)
     \<and> distinct (map (match_key \<circ> j_match) (filter claimed_job js))"

definition acks_covered ::
    "(i64 \<times> string \<rightharpoonup> ledger_entry) \<Rightarrow> job list \<Rightarrow> (alert_match \<times> http_request \<times> bool) list \<Rightarrow> (i64 \<times> string) list \<Rightarrow> bool" where
  "acks_covered L js posts lost \<longleftrightarrow>
     (\<forall>k. acks k posts \<le> count_list lost k + (if L k = Some Sent then 1 else 0) + acked_jobs k js)"

text \<open>A request carries the alert's payload, signed with the subscription's key, to an accepted URL.\<close>

definition good_request :: "alert_ext \<Rightarrow> alert_match \<Rightarrow> http_request \<Rightarrow> bool" where
  "good_request E m rq \<longleftrightarrow>
     webhook_url_is_safe (ae_url E) (rq_url rq) = Inr ()
     \<and> (\<exists>key. ae_hex_decode E (m_signing_secret m) = Inr key
          \<and> rq = signed_request (m_webhook_url m) (sign_payload E key (as_bytes (build_payload E m))) (build_payload E m))"

definition requests_good :: "alert_ext \<Rightarrow> job list \<Rightarrow> (alert_match \<times> http_request \<times> bool) list \<Rightarrow> bool" where
  "requests_good E js posts \<longleftrightarrow>
     (\<forall>j \<in> set js. \<forall>rq. j_stage j = Post rq \<longrightarrow> good_request E (j_match j) rq)
     \<and> (\<forall>(m, rq, a) \<in> set posts. good_request E m rq)"

definition dispatch_inv :: "alert_ext \<Rightarrow> dispatchers \<Rightarrow> bool" where
  "dispatch_inv E st \<longleftrightarrow>
     ledger_ok (ds_db st) \<and> jobs_held (ds_now st) (ledger (ds_db st)) (ds_jobs st)
     \<and> acks_covered (ledger (ds_db st)) (ds_jobs st) (ds_posts st) (ds_lost st)
     \<and> requests_good E (ds_jobs st) (ds_posts st)"

lemmas dispatch_inv_defs = dispatch_inv_def jobs_held_def acks_covered_def requests_good_def

lemma acks_coveredI:
  assumes "\<And>k. acks k ps \<le> count_list lost k + (if L k = Some Sent then 1 else 0) + acked_jobs k js"
  shows "acks_covered L js ps lost"
  unfolding acks_covered_def using assms by blast

lemma acks_coveredD:
  "acks_covered L js ps lost \<Longrightarrow> acks k ps \<le> count_list lost k + (if L k = Some Sent then 1 else 0) + acked_jobs k js"
  unfolding acks_covered_def by blast

lemma ledger_deliveries:
  "deliveries d' = deliveries d \<Longrightarrow> ledger d' = ledger d \<and> (ledger_ok d' \<longleftrightarrow> ledger_ok d)"
  by (auto simp: ledger_def find_delivery_def ledger_ok_def intro!: HOL.ext)

lemma acks_simps [simp]:
  "acks k (ps @ qs) = acks k ps + acks k qs"
  "acks k [] = 0"
  "acks k [(m, rq, a)] = (if a \<and> match_key m = k then 1 else 0)"
  by (simp_all add: acks_def)

lemma acked_jobs_simps [simp]:
  "acked_jobs k (js @ js') = acked_jobs k js + acked_jobs k js'"
  "acked_jobs k [] = 0"
  "acked_jobs k (j # js) = (if acked (j_stage j) \<and> match_key (j_match j) = k then 1 else 0) + acked_jobs k js"
  by (simp_all add: acked_jobs_def)

lemma with_fault_cases:
  assumes "with_fault f s d = (r, d')"
  shows "(\<exists>e. r = Inl e \<and> d' = d) \<or> (\<exists>x. s d = Inr (x, d') \<and> (r = Inr x \<or> (\<exists>e. r = Inl e)))"
  using assms by (auto simp: with_fault_def split: fault.splits sum.splits)

lemma jobs_held_insert:
  "jobs_held now L (js @ j # js') \<longleftrightarrow>
     jobs_held now L (js @ js')
     \<and> (claimed_job j \<longrightarrow> L (match_key (j_match j)) = Some (Held (j_since j))
          \<and> now \<le> j_since j + interval_secs CLAIM_STALE_AFTER_SECS
          \<and> (\<forall>i \<in> set (js @ js'). claimed_job i \<longrightarrow> match_key (j_match i) \<noteq> match_key (j_match j)))"
proof (cases "claimed_job j")
  case True
  have "match_key (j_match j) \<notin> (match_key \<circ> j_match) ` {i \<in> set (js @ js'). claimed_job i} \<longleftrightarrow>
      (\<forall>i \<in> set (js @ js'). claimed_job i \<longrightarrow> match_key (j_match i) \<noteq> match_key (j_match j))"
    unfolding image_iff comp_def by (simp only: mem_Collect_eq bex_simps Bex_def Ball_def) metis
  then show ?thesis using True by (auto simp: jobs_held_def)
qed (auto simp: jobs_held_def)

lemma requests_good_insert:
  "requests_good E (js @ j # js') ps \<longleftrightarrow>
     requests_good E (js @ js') ps \<and> (\<forall>rq. j_stage j = Post rq \<longrightarrow> good_request E (j_match j) rq)"
  by (auto simp: requests_good_def)

text \<open>A granted pair is held by nobody, so handing it out or settling it leaves the other jobs alone.\<close>

lemma jobs_held_update:
  assumes "jobs_held now L js" "\<And>i. i \<in> set js \<Longrightarrow> claimed_job i \<Longrightarrow> match_key (j_match i) \<noteq> k"
  shows "jobs_held now (L(k \<mapsto> e)) js"
  using assms by (auto simp: jobs_held_def)

lemma granted_unheld:
  assumes "jobs_held now L js" "granted now (interval_secs CLAIM_STALE_AFTER_SECS) (L k)" "i \<in> set js" "claimed_job i"
  shows "match_key (j_match i) \<noteq> k"
  using assms by (fastforce simp: jobs_held_def)

lemma prepare_good:
  "prepare E (m_webhook_url m) (m_signing_secret m) (build_payload E m) = Post rq \<Longrightarrow> good_request E m rq"
  by (auto simp: prepare_def good_request_def signed_request_def split: sum.splits)

lemma prepare_simps [simp]:
  "\<not> acked (prepare E u s b)" "\<not> finished (prepare E u s b)" "prepare E u s b \<noteq> Start"
  by (auto simp: prepare_def split: sum.splits)

lemma after_post_simps [simp]:
  "\<not> finished (after_post r)" "after_post r \<noteq> Start" "after_post r \<noteq> Post rq"
  by (auto simp: after_post_def split: sum.splits)

lemma claim_step_inv:
  assumes inv: "dispatch_inv E st" and jobs: "ds_jobs st = js @ j # js'" and stage: "j_stage j = Start"
    and now: "ie_claim_at env = ds_now st"
    and step: "item_step E (j_match j) env (Start, ds_db st) = (s', d')"
  shows "dispatch_inv E (st\<lparr>ds_db := d', ds_jobs := js @ (if finished s' then [] else [j\<lparr>j_stage := s', j_since := ds_now st\<rparr>]) @ js'\<rparr>)"
proof -
  let ?m = "j_match j" and ?L = "ledger (ds_db st)" and ?k = "match_key (j_match j)"
  obtain r where r: "with_fault (ie_claim_fault env)
      (try_claim_alert_match (ds_now st) (m_subscription_id ?m) (m_tx_hash ?m) CLAIM_STALE_AFTER_SECS) (ds_db st) = (r, d')"
    and s': "s' = (case r of Inl e \<Rightarrow> Done (Inl e)
      | Inr b \<Rightarrow> if b then prepare E (m_webhook_url ?m) (m_signing_secret ?m) (build_payload E ?m) else Done (Inr ClaimSkipped))"
    using step now by (auto simp: item_step_def split: prod.splits sum.splits)
  have unclaimed: "\<not> claimed_job j" "\<not> acked (j_stage j)" using stage by (simp_all add: claimed_job_def)
  have ok: "ledger_ok (ds_db st)" and held: "jobs_held (ds_now st) ?L (js @ js')"
    and good: "requests_good E (js @ js') (ds_posts st)"
    and cov: "acks_covered ?L (js @ js') (ds_posts st) (ds_lost st)"
    using inv unclaimed by (auto simp: dispatch_inv_def jobs jobs_held_insert requests_good_insert acks_covered_def)
  consider (same) "d' = ds_db st" "finished s'"
    | (refused) "ledger_ok d'" "ledger d' = ?L" "finished s'"
    | (granted) "ledger_ok d'" "ledger d' = ?L(?k \<mapsto> Held (ds_now st))" "granted (ds_now st) (interval_secs CLAIM_STALE_AFTER_SECS) (?L ?k)"
        "finished s' \<or> s' = prepare E (m_webhook_url ?m) (m_signing_secret ?m) (build_payload E ?m)"
    using with_fault_cases [OF r]
  proof (elim disjE exE conjE)
    fix b
    assume b: "try_claim_alert_match (ds_now st) (m_subscription_id ?m) (m_tx_hash ?m) CLAIM_STALE_AFTER_SECS (ds_db st) = Inr (b, d')"
      and "r = Inr b"
    then show thesis using try_claim_spec [OF ok b] s' refused granted
      by (cases b) (auto simp: spec_claim_def match_key_def split: if_splits)
  next
    fix b e
    assume b: "try_claim_alert_match (ds_now st) (m_subscription_id ?m) (m_tx_hash ?m) CLAIM_STALE_AFTER_SECS (ds_db st) = Inr (b, d')"
      and "r = Inl e"
    then show thesis using try_claim_spec [OF ok b] s' refused granted
      by (cases b) (auto simp: spec_claim_def match_key_def split: if_splits)
  qed (use s' same in simp)
  then show ?thesis
  proof cases
    case granted
    have free: "match_key (j_match i) \<noteq> ?k" if "i \<in> set (js @ js')" "claimed_job i" for i
      using granted_unheld [OF held granted(3) that] .
    have fresh: "?L ?k \<noteq> Some Sent" using granted(3) by auto
    have cov': "acks_covered (ledger d') (js @ js') (ds_posts st) (ds_lost st)"
    proof (rule acks_coveredI)
      fix k
      show "acks k (ds_posts st) \<le> count_list (ds_lost st) k + (if ledger d' k = Some Sent then 1 else 0) + acked_jobs k (js @ js')"
        using acks_coveredD [OF cov, of k] fresh granted(2) by (cases "k = ?k") auto
    qed
    have held': "jobs_held (ds_now st) (ledger d') (js @ js')"
      unfolding granted(2) using held free by (rule jobs_held_update)
    show ?thesis
    proof (cases "finished s'")
      case True
      with granted(1) held' cov' good show ?thesis by (simp add: dispatch_inv_def)
    next
      case False
      with granted(4) have s: "s' = prepare E (m_webhook_url ?m) (m_signing_secret ?m) (build_payload E ?m)" by simp
      have "jobs_held (ds_now st) (ledger d') (js @ j\<lparr>j_stage := s', j_since := ds_now st\<rparr> # js')"
        unfolding jobs_held_insert using held' free granted(2) by (simp add: interval_secs_def CLAIM_STALE_AFTER_SECS_def)
      moreover have "requests_good E (js @ j\<lparr>j_stage := s', j_since := ds_now st\<rparr> # js') (ds_posts st)"
        unfolding requests_good_insert using good prepare_good s by simp
      moreover have "acks_covered (ledger d') (js @ j\<lparr>j_stage := s', j_since := ds_now st\<rparr> # js') (ds_posts st) (ds_lost st)"
        using cov' s by (simp add: acks_covered_def)
      ultimately show ?thesis using False granted(1) by (simp add: dispatch_inv_def)
    qed
  qed (use ok held good cov in \<open>simp_all add: dispatch_inv_def\<close>)
qed

lemma post_step_inv:
  assumes inv: "dispatch_inv E st" and jobs: "ds_jobs st = js @ j # js'" and stage: "j_stage j = Post rq"
  shows "dispatch_inv E (st\<lparr>ds_jobs := js @ j\<lparr>j_stage := after_post r\<rparr> # js',
     ds_posts := ds_posts st @ [(j_match j, rq, acked (after_post r))]\<rparr>)"
proof -
  let ?j = "j\<lparr>j_stage := after_post r\<rparr>"
  have c: "claimed_job j" "claimed_job ?j" "\<not> acked (j_stage j)" using stage by (simp_all add: claimed_job_def)
  have "jobs_held (ds_now st) (ledger (ds_db st)) (js @ ?j # js')"
    using inv c by (simp add: dispatch_inv_def jobs jobs_held_insert)
  moreover have "requests_good E (js @ ?j # js') (ds_posts st @ [(j_match j, rq, acked (after_post r))])"
    using inv stage by (auto simp: dispatch_inv_def jobs requests_good_insert) (simp add: requests_good_def)
  moreover have "acks_covered (ledger (ds_db st)) (js @ ?j # js') (ds_posts st @ [(j_match j, rq, acked (after_post r))]) (ds_lost st)"
  proof (rule acks_coveredI)
    fix k
    have "acks_covered (ledger (ds_db st)) (js @ j # js') (ds_posts st) (ds_lost st)"
      using inv by (simp add: dispatch_inv_def jobs)
    from acks_coveredD [OF this, of k] c(3)
    show "acks k (ds_posts st @ [(j_match j, rq, acked (after_post r))]) \<le>
        count_list (ds_lost st) k + (if ledger (ds_db st) k = Some Sent then 1 else 0) + acked_jobs k (js @ ?j # js')"
      by auto
  qed
  ultimately show ?thesis using inv by (simp add: dispatch_inv_def)
qed

text \<open>Removing a job that was not acknowledged, or that is counted as lost or whose pair is now sent.\<close>

lemma settle_step_inv:
  assumes inv: "dispatch_inv E st" and jobs: "ds_jobs st = js @ j # js'"
    and ok: "ledger_ok d'"
    and L': "ledger d' = ledger (ds_db st) \<or> claimed_job j \<and> (\<exists>e. ledger d' = (ledger (ds_db st))(match_key (j_match j) \<mapsto> e))"
    and paid: "acked (j_stage j) \<longrightarrow> match_key (j_match j) \<in> set new \<or> ledger d' (match_key (j_match j)) = Some Sent"
  shows "dispatch_inv E (st\<lparr>ds_db := d', ds_jobs := js @ js', ds_lost := ds_lost st @ new\<rparr>)"
proof -
  let ?k = "match_key (j_match j)" and ?L = "ledger (ds_db st)"
  have held: "jobs_held (ds_now st) ?L (js @ j # js')" and good: "requests_good E (js @ js') (ds_posts st)"
    using inv by (auto simp: dispatch_inv_def jobs requests_good_insert)
  have "jobs_held (ds_now st) (ledger d') (js @ js')"
    using L' held unfolding jobs_held_insert by (auto intro!: jobs_held_update)
  moreover have "acks_covered (ledger d') (js @ js') (ds_posts st) (ds_lost st @ new)"
  proof (rule acks_coveredI)
    fix k
    have old: "acks k (ds_posts st) \<le> count_list (ds_lost st) k + (if ?L k = Some Sent then 1 else 0) + acked_jobs k (js @ j # js')"
      using inv by (intro acks_coveredD) (simp add: dispatch_inv_def jobs)
    have "claimed_job j \<Longrightarrow> ?L ?k \<noteq> Some Sent" using held by (simp add: jobs_held_insert)
    moreover have "acked (j_stage j) \<Longrightarrow> claimed_job j" by (auto simp: claimed_job_def)
    moreover have "?k \<in> set new \<Longrightarrow> 1 \<le> count_list new ?k" by (metis count_list_0_iff leI less_one)
    ultimately show "acks k (ds_posts st) \<le> count_list (ds_lost st @ new) k + (if ledger d' k = Some Sent then 1 else 0) + acked_jobs k (js @ js')"
      using old L' paid by (cases "k = ?k") (auto split: if_splits)
  qed
  ultimately show ?thesis using ok good by (simp add: dispatch_inv_def)
qed

lemma record_step_inv:
  assumes inv: "dispatch_inv E st" and jobs: "ds_jobs st = js @ j # js'" and stage: "j_stage j = Record dv err out"
    and step: "item_step E (j_match j) env (Record dv err out, ds_db st) = (s', d')"
  shows "finished s' \<and> dispatch_inv E (st\<lparr>ds_db := d', ds_jobs := js @ js',
     ds_lost := ds_lost st @ (if dv \<and> \<not> recorded s' then [match_key (j_match j)] else [])\<rparr>)"
proof
  let ?m = "j_match j" and ?k = "match_key (j_match j)"
  have ok: "ledger_ok (ds_db st)" using inv by (simp add: dispatch_inv_def)
  have claimed: "claimed_job j" using stage by (simp add: claimed_job_def)
  obtain r where r: "with_fault (ie_record_fault env)
      (record_alert_delivery (ie_record_at env) (m_subscription_id ?m) (m_tx_hash ?m) dv err) (ds_db st) = (r, d')"
    and s': "s' = (case r of Inl e \<Rightarrow> Done (Inl e) | Inr _ \<Rightarrow> Done (Inr out))"
    using step by (auto simp: item_step_def split: prod.splits sum.splits)
  then show "finished s'" by (auto split: sum.splits)
  from with_fault_cases [OF r] show "dispatch_inv E (st\<lparr>ds_db := d', ds_jobs := js @ js',
     ds_lost := ds_lost st @ (if dv \<and> \<not> recorded s' then [?k] else [])\<rparr>)"
  proof (elim disjE exE conjE)
    fix e
    assume "r = Inl e" "d' = ds_db st"
    then show ?thesis using s' stage ok by (intro settle_step_inv [OF inv jobs]) simp_all
  next
    fix x
    assume x: "record_alert_delivery (ie_record_at env) (m_subscription_id ?m) (m_tx_hash ?m) dv err (ds_db st) = Inr (x, d')"
    note sp = record_spec [OF ok x]
    show ?thesis
      using sp stage claimed by (intro settle_step_inv [OF inv jobs]) (auto simp: spec_settle_def match_key_def)
  next
    fix x e
    assume x: "record_alert_delivery (ie_record_at env) (m_subscription_id ?m) (m_tx_hash ?m) dv err (ds_db st) = Inr (x, d')"
    note sp = record_spec [OF ok x]
    show ?thesis
      using sp stage claimed by (intro settle_step_inv [OF inv jobs]) (auto simp: spec_settle_def match_key_def)
  qed
qed

lemma crash_step_inv:
  assumes "dispatch_inv E st" "ds_jobs st = js @ j # js'"
  shows "dispatch_inv E (st\<lparr>ds_jobs := js @ js', ds_lost := ds_lost st @ (if acked (j_stage j) then [match_key (j_match j)] else [])\<rparr>)"
  using settle_step_inv [OF assms, of "ds_db st" "if acked (j_stage j) then [match_key (j_match j)] else []"] assms(1)
  by (simp add: dispatch_inv_def)

lemma begin_step_inv:
  assumes "dispatch_inv E st"
  shows "dispatch_inv E (st\<lparr>ds_jobs := ds_jobs st @ [\<lparr>j_match = m, j_stage = Start, j_since = t\<rparr>]\<rparr>)"
  using assms jobs_held_insert [of "ds_now st" "ledger (ds_db st)" "ds_jobs st" "\<lparr>j_match = m, j_stage = Start, j_since = t\<rparr>" "[]"]
    requests_good_insert [of E "ds_jobs st" "\<lparr>j_match = m, j_stage = Start, j_since = t\<rparr>" "[]" "ds_posts st"]
  by (simp add: dispatch_inv_def acks_covered_def claimed_job_def)

lemma work_step_inv:
  assumes inv: "dispatch_inv E st" and jobs: "ds_jobs st = js @ j # js'"
    and now: "ie_claim_at env = ds_now st"
    and step: "item_step E (j_match j) env (j_stage j, ds_db st) = (s', d')"
  shows "dispatch_inv E (st\<lparr>ds_db := d',
     ds_jobs := js @ (if finished s' then []
        else [j\<lparr>j_stage := s', j_since := (if j_stage j = Start then ds_now st else j_since j)\<rparr>]) @ js',
     ds_posts := ds_posts st @ log_of j s',
     ds_lost := ds_lost st @ (if acked (j_stage j) \<and> \<not> recorded s' then [match_key (j_match j)] else [])\<rparr>)"
proof (cases "j_stage j")
  case Start
  with claim_step_inv [OF inv jobs Start now] step show ?thesis by (cases "finished s'") (simp_all add: log_of_def)
next
  case (Post rq)
  have "s' = after_post (ie_reply env)" "d' = ds_db st" using step Post by (auto simp: item_step_def)
  with post_step_inv [OF inv jobs Post, of "ie_reply env"] Post show ?thesis by (simp add: log_of_def)
next
  case (Record dv err out)
  with record_step_inv [OF inv jobs Record] step show ?thesis by (simp add: log_of_def)
next
  case (Done r)
  with step have "s' = Done r" "d' = ds_db st" by simp_all
  with crash_step_inv [OF inv jobs] Done show ?thesis by (simp add: log_of_def)
qed

interpretation dp: invariant_system "dispatch_step E" "dispatch_inv E"
proof
  fix st st'
  assume inv: "dispatch_inv E st" and "dispatch_step E st st'"
  from this(2) show "dispatch_inv E st'"
  proof cases
    case begins
    then show ?thesis using begin_step_inv [OF inv] by simp
  next
    case works
    then show ?thesis using work_step_inv [OF inv works(2,3,5)] by simp
  next
    case crashes
    then show ?thesis using crash_step_inv [OF inv crashes(2)] by simp
  next
    case passes
    then show ?thesis using inv by (auto simp: dispatch_inv_def jobs_held_def)
  next
    case others
    then show ?thesis using inv ledger_deliveries [OF others(2)] by (simp add: dispatch_inv_def)
  qed
qed

section \<open>At most once\<close>

definition system_start :: "db \<Rightarrow> instant \<Rightarrow> dispatchers" where
  "system_start d t = \<lparr>ds_db = d, ds_now = t, ds_jobs = [], ds_posts = [], ds_lost = []\<rparr>"

lemma system_start_inv: "ledger_ok d \<Longrightarrow> dispatch_inv E (system_start d t)"
  by (simp add: system_start_def dispatch_inv_defs acks_def)

lemma count_acked_jobs:
  assumes "jobs_held now L js"
  shows "acked_jobs k js + (if L k = Some Sent then 1 else 0) \<le> 1"
  using assms
proof (induction js)
  case (Cons j js)
  have held: "jobs_held now L js" using jobs_held_insert [of now L "[]" j js] Cons.prems by simp
  show ?case
  proof (cases "acked (j_stage j) \<and> match_key (j_match j) = k")
    case True
    then have c: "claimed_job j" by (auto simp: claimed_job_def)
    with True have "L k \<noteq> Some Sent" "\<forall>i \<in> set js. claimed_job i \<longrightarrow> match_key (j_match i) \<noteq> k"
      using jobs_held_insert [of now L "[]" j js] Cons.prems by auto
    moreover from this(2) have "acked_jobs k js = 0" by (auto simp: acked_jobs_def filter_empty_conv claimed_job_def)
    ultimately show ?thesis using True by simp
  qed (use Cons.IH [OF held] in auto)
qed auto


text \<open>C14: every request is legitimate.  In every run, each request that was sent went to a URL the policy
  accepts, carries the JSON payload of its alert, and is signed with the key of its subscription.\<close>

theorem requests_are_signed_and_safe:
  assumes "(dispatch_step E)\<^sup>*\<^sup>* (system_start d t) st" "ledger_ok d" "(m, rq, a) \<in> set (ds_posts st)"
  shows "webhook_url_is_safe (ae_url E) (rq_url rq) = Inr () \<and> rq_url rq = m_webhook_url m
     \<and> rq_body rq = build_payload E m
     \<and> (\<exists>key. ae_hex_decode E (m_signing_secret m) = Inr key
          \<and> map_of (rq_headers rq) ''X-Amarillo-Signature'' =
              Some (''sha256='' @ ae_hex_encode E (ae_hmac_sha256 E key (as_bytes (rq_body rq)))))"
proof -
  have "dispatch_inv E st" using dp.reachable [OF assms(1)] assms(2) by (simp add: system_start_inv)
  then have "good_request E m rq" using assms(3) by (auto simp: dispatch_inv_def requests_good_def)
  then show ?thesis by (auto simp: good_request_def signed_request_def sign_payload_def SIGNATURE_HEADER_def)
qed

subsection \<open>A run with a crash\<close>

definition sample_request :: http_request where
  "sample_request = signed_request (m_webhook_url sample_match)
     (sign_payload sample_alert_ext [0, 255] (as_bytes (build_payload sample_alert_ext sample_match)))
     (build_payload sample_alert_ext sample_match)"

lemma delivery_run:
  assumes "try_claim_alert_match (ds_now st) 7 ''a'' 60 (ds_db st) = Inr (True, d')" "ds_jobs st = []"
  shows "(dispatch_step sample_alert_ext)\<^sup>*\<^sup>* st
     (st\<lparr>ds_db := d', ds_jobs := [\<lparr>j_match = sample_match, j_stage = Record True None Delivered, j_since = ds_now st\<rparr>],
         ds_posts := ds_posts st @ [(sample_match, sample_request, True)]\<rparr>)"
proof -
  let ?E = sample_alert_ext and ?m = sample_match
  let ?env = "sample_item_env\<lparr>ie_claim_at := ds_now st, ie_record_at := ds_now st\<rparr>"
  let ?j = "\<lambda>s. \<lparr>j_match = ?m, j_stage = s, j_since = ds_now st\<rparr>"
  let ?s1 = "st\<lparr>ds_jobs := [?j Start]\<rparr>" and ?s2 = "st\<lparr>ds_db := d', ds_jobs := [?j (Post sample_request)]\<rparr>"
  have m: "m_subscription_id ?m = 7" "m_tx_hash ?m = ''a''" by (simp_all add: sample_match_def)
  have prep: "prepare ?E (m_webhook_url ?m) (m_signing_secret ?m) (build_payload ?E ?m) = Post sample_request"
    by (simp add: prepare_def sample_url_safe sample_request_def) (simp add: sample_alert_ext_def)
  have c: "item_step ?E ?m ?env (Start, ds_db st) = (Post sample_request, d')"
    using assms(1) by (simp add: item_step_def with_fault_def m prep CLAIM_STALE_AFTER_SECS_def sample_item_env_def)
  have p: "item_step ?E ?m ?env (Post sample_request, d') = (Record True None Delivered, d')"
    by (simp add: item_step_def after_post_def post_signed_def sample_item_env_def)
  have "dispatch_step ?E st ?s1" using dispatch_step.begins [of ?E st ?m] assms(2) by simp
  moreover have "dispatch_step ?E ?s1 ?s2"
    using dispatch_step.works [of ?s1 "[]" "?j Start" "[]" ?env ?E] c by (simp add: log_of_def)
  moreover have "dispatch_step ?E ?s2 (st\<lparr>ds_db := d', ds_jobs := [?j (Record True None Delivered)],
      ds_posts := ds_posts st @ [(?m, sample_request, True)]\<rparr>)"
    using dispatch_step.works [of ?s2 "[]" "?j (Post sample_request)" "[]" ?env ?E] p by (simp add: log_of_def)
  ultimately show ?thesis by (meson converse_rtranclp_into_rtranclp r_into_rtranclp)
qed

lemma crash_resends:
  "\<exists>st. (dispatch_step sample_alert_ext)\<^sup>*\<^sup>* (system_start watched_db 1000) st \<and> ds_lost st = [(7, ''a'')]
     \<and> ds_posts st = [(sample_match, sample_request, True), (sample_match, sample_request, True)]"
proof -
  let ?E = sample_alert_ext and ?s0 = "system_start watched_db 1000"
  define d1 where "d1 = watched_db\<lparr>deliveries := [\<lparr>d_subscription_id = 7, d_tx_hash = ''a'', d_status = ''claimed'',
     d_attempts = 1, d_last_error = None, d_delivered_at = None, d_created_at = 1000\<rparr>]\<rparr>"
  have c1: "try_claim_alert_match 1000 7 ''a'' 60 watched_db = Inr (True, d1)"
    by (simp add: d1_def try_claim_alert_match_def int4_ok_def find_delivery_def watched_db_def sample_db_def empty_db_def
        add_delivery_def text_ok_def opt_ok_def subscription_known_def)
  obtain d2 where c2: "try_claim_alert_match 60001001 7 ''a'' 60 d1 = Inr (True, d2)"
    by (simp add: d1_def try_claim_alert_match_def int4_ok_def find_delivery_def delivery_key_def claimable_def interval_secs_def)
  let ?j = "\<lambda>t. \<lparr>j_match = sample_match, j_stage = Record True None Delivered, j_since = t\<rparr>"
  let ?p = "(sample_match, sample_request, True)"
  let ?s1 = "?s0\<lparr>ds_db := d1, ds_jobs := [?j 1000], ds_posts := [?p]\<rparr>"
  let ?s2 = "?s1\<lparr>ds_jobs := [], ds_lost := [(7, ''a'')]\<rparr>" and ?s3 = "?s1\<lparr>ds_jobs := [], ds_lost := [(7, ''a'')], ds_now := 60001001\<rparr>"
  have r1: "(dispatch_step ?E)\<^sup>*\<^sup>* ?s0 ?s1" using delivery_run [of ?s0 d1] c1 by (simp add: system_start_def)
  have r2: "dispatch_step ?E ?s1 ?s2"
    using dispatch_step.crashes [of ?s1 "[]" "?j 1000" "[]" ?E] by (simp add: system_start_def match_key_def sample_match_def)
  have r3: "dispatch_step ?E ?s2 ?s3"
    using dispatch_step.passes [of ?s2 60001001 ?E] by (simp add: system_start_def)
  have r4: "(dispatch_step ?E)\<^sup>*\<^sup>* ?s3 (?s3\<lparr>ds_db := d2, ds_jobs := [?j 60001001], ds_posts := [?p, ?p]\<rparr>)"
    using delivery_run [of ?s3 d2] c2 by (simp add: system_start_def)
  have "(dispatch_step ?E)\<^sup>*\<^sup>* ?s0 (?s3\<lparr>ds_db := d2, ds_jobs := [?j 60001001], ds_posts := [?p, ?p]\<rparr>)"
    using r1 r2 r3 r4 by (meson rtranclp.rtrancl_into_rtrancl rtranclp_trans)
  moreover have "ds_lost (?s3\<lparr>ds_db := d2, ds_jobs := [?j 60001001], ds_posts := [?p, ?p]\<rparr>) = [(7, ''a'')]"
    "ds_posts (?s3\<lparr>ds_db := d2, ds_jobs := [?j 60001001], ds_posts := [?p, ?p]\<rparr>) = [?p, ?p]" by simp_all
  ultimately show ?thesis by blast
qed


theorem requests_are_signed_and_safe_witness:
  "\<exists>st. (dispatch_step sample_alert_ext)\<^sup>*\<^sup>* (system_start watched_db 1000) st
     \<and> (sample_match, sample_request, True) \<in> set (ds_posts st)
     \<and> webhook_url_is_safe (ae_url sample_alert_ext) (rq_url sample_request) = Inr ()"
proof -
  obtain st where st: "(dispatch_step sample_alert_ext)\<^sup>*\<^sup>* (system_start watched_db 1000) st"
    "ds_posts st = [(sample_match, sample_request, True), (sample_match, sample_request, True)]"
    using crash_resends by blast
  then have p: "(sample_match, sample_request, True) \<in> set (ds_posts st)" by simp
  from requests_are_signed_and_safe [OF st(1) watched_ledger_ok p] st(1) p show ?thesis by blast
qed

end
