(* ===== verification/Reads.thy ===== *)
theory Reads
  imports Rollback "HOL-Library.Product_Lexorder"
begin

text \<open>
  The read queries behind the API and the contract labels (\<^verbatim>\<open>crates/db/src/queries.rs\<close>).  Rows that a
  query leaves unordered keep their insertion order here; \<^verbatim>\<open>date_trunc\<close> is the one of a session in UTC.
  Instants count microseconds.
\<close>

section \<open>Order of the category enum\<close>

text \<open>PostgreSQL orders an enum by its declaration: the six values of the initial schema, then the four
  that a later migration appended.\<close>

fun enum_rank :: "error_category \<Rightarrow> nat" where
  "enum_rank InsufficientBalance = 0"
| "enum_rank SlippageExceeded = 1"
| "enum_rank DeadlineExpired = 2"
| "enum_rank Unauthorized = 3"
| "enum_rank TransferFailed = 4"
| "enum_rank Unknown = 5"
| "enum_rank SlippageAmountOut = 6"
| "enum_rank SlippageAmountIn = 7"
| "enum_rank SlippagePriceImpact = 8"
| "enum_rank InsufficientAllowance = 9"

lemma enum_rank_inj: "enum_rank x = enum_rank y \<longleftrightarrow> x = y"
  by (cases x; cases y) simp_all

instantiation error_category :: linorder
begin

definition less_eq_error_category :: "error_category \<Rightarrow> error_category \<Rightarrow> bool" where
  "less_eq_error_category x y \<longleftrightarrow> enum_rank x \<le> enum_rank y"

definition less_error_category :: "error_category \<Rightarrow> error_category \<Rightarrow> bool" where
  "less_error_category x y \<longleftrightarrow> enum_rank x < enum_rank y"

instance
  by standard (auto simp: less_eq_error_category_def less_error_category_def enum_rank_inj)

end

section \<open>Paging\<close>

definition pg_page :: "i64 \<Rightarrow> i64 \<Rightarrow> 'r list \<Rightarrow> db_error + 'r list" where
  "pg_page limit offset rows =
     (if limit < 0 then Inl (Sqlx ''LIMIT must not be negative'')
      else if offset < 0 then Inl (Sqlx ''OFFSET must not be negative'')
      else Inr (take (nat limit) (drop (nat offset) rows)))"

definition select :: "(db \<Rightarrow> db_error + 'a) \<Rightarrow> 'a stmt" where
  "select q d = (case q d of Inl e \<Rightarrow> Inl e | Inr x \<Rightarrow> Inr (x, d))"

definition opt_filter :: "('b \<Rightarrow> bool) \<Rightarrow> 'b option \<Rightarrow> bool" where
  "opt_filter P x \<longleftrightarrow> (case x of None \<Rightarrow> True | Some y \<Rightarrow> P y)"

definition row_or_not_found :: "string \<Rightarrow> 'r option \<Rightarrow> db_error + 'r" where
  "row_or_not_found what r = (case r of None \<Rightarrow> Inl (NotFound what) | Some x \<Rightarrow> Inr x)"

section \<open>Pools, tokens and swaps\<close>

definition list_pools :: "i64 \<Rightarrow> i64 \<Rightarrow> pool_row list stmt" where
  "list_pools limit offset = select (\<lambda>d. pg_page limit offset (sort_key (\<lambda>p. - p_created_at p) (pools d)))"

definition get_pool_by_address :: "string \<Rightarrow> pool_row stmt" where
  "get_pool_by_address address =
     select (\<lambda>d. row_or_not_found (''pool '' @ address) (find (\<lambda>p. p_pool_address p = address) (pools d)))"

definition list_tokens :: "i64 \<Rightarrow> i64 \<Rightarrow> token_row list stmt" where
  "list_tokens limit offset = select (\<lambda>d. pg_page limit offset (sort_key k_symbol (tokens d)))"

definition get_token_by_address :: "string \<Rightarrow> token_row stmt" where
  "get_token_by_address address =
     select (\<lambda>d. row_or_not_found (''token '' @ address) (find (\<lambda>t. k_token_address t = address) (tokens d)))"

definition list_swap_events :: "string option \<Rightarrow> i64 \<Rightarrow> i64 \<Rightarrow> swap_event list stmt" where
  "list_swap_events pool_address limit offset =
     select (\<lambda>d. pg_page limit offset (sort_key (\<lambda>s. - s_timestamp s)
       (filter (\<lambda>s. opt_filter (\<lambda>a. s_pool_address s = a) pool_address) (swap_events d))))"

definition get_swap_events_by_block :: "i64 \<Rightarrow> swap_event list stmt" where
  "get_swap_events_by_block block_number =
     select (\<lambda>d. Inr (sort_key s_event_id
       (filter (\<lambda>s. list_ex (\<lambda>t. t_tx_hash t = s_tx_hash s \<and> t_block_number t = block_number) (transactions d)) (swap_events d))))"

section \<open>Failed transactions\<close>

definition get_failed_transaction :: "string \<Rightarrow> failed_transaction stmt" where
  "get_failed_transaction tx_hash =
     select (\<lambda>d. row_or_not_found (''failed transaction '' @ tx_hash)
       (find (\<lambda>f. f_tx_hash f = tx_hash) (failed_transactions d)))"

definition list_trace_logs_by_tx :: "string \<Rightarrow> i64 \<Rightarrow> trace_log list stmt" where
  "list_trace_logs_by_tx tx_hash limit =
     select (\<lambda>d. pg_limit limit (sort_key g_trace_id (filter (\<lambda>g. g_tx_hash g = tx_hash) (trace_logs d))))"

definition get_first_error_frame :: "string \<Rightarrow> trace_log option stmt" where
  "get_first_error_frame tx_hash =
     select (\<lambda>d. Inr (case sort_key g_trace_id
         (filter (\<lambda>g. g_tx_hash g = tx_hash \<and> g_error g \<noteq> None) (trace_logs d)) of
       [] \<Rightarrow> None | g # _ \<Rightarrow> Some g))"

definition failed_filter ::
    "error_category option \<Rightarrow> instant option \<Rightarrow> instant option \<Rightarrow> failed_transaction \<Rightarrow> bool" where
  "failed_filter category from_t to_t f \<longleftrightarrow>
     opt_filter (\<lambda>c. f_error_category f = c) category
     \<and> opt_filter (\<lambda>t. t \<le> f_timestamp f) from_t \<and> opt_filter (\<lambda>t. f_timestamp f \<le> t) to_t"

definition list_failed_transactions ::
    "error_category option \<Rightarrow> instant option \<Rightarrow> instant option \<Rightarrow> i64 \<Rightarrow> i64 \<Rightarrow> failed_transaction list stmt" where
  "list_failed_transactions category from_t to_t limit offset =
     select (\<lambda>d. pg_page limit offset (sort_key (\<lambda>f. - f_timestamp f)
       (filter (failed_filter category from_t to_t) (failed_transactions d))))"

definition count_failed_transactions ::
    "error_category option \<Rightarrow> instant option \<Rightarrow> instant option \<Rightarrow> i64 stmt" where
  "count_failed_transactions category from_t to_t =
     select (\<lambda>d. Inr (int (length (filter (failed_filter category from_t to_t) (failed_transactions d)))))"

text \<open>Weeks start on Monday; day 0 of the epoch was a Thursday.\<close>

fun date_trunc :: "time_bucket \<Rightarrow> instant \<Rightarrow> instant" where
  "date_trunc Hour t = t - t mod 3600000000"
| "date_trunc Day t = t - t mod 86400000000"
| "date_trunc Week t = t - (t + 3 * 86400000000) mod (7 * 86400000000)"

text \<open>\<^verbatim>\<open>GROUP BY\<close> with \<^verbatim>\<open>COUNT(*)\<close>: the distinct keys with their multiplicities.\<close>

definition group_count :: "'k list \<Rightarrow> ('k \<times> i64) list" where
  "group_count ks = map (\<lambda>k. (k, int (count_list ks k))) (remdups ks)"

record failed_tx_trend_point =
  tp_bucket :: instant
  tp_error_category :: error_category
  tp_failure_count :: i64

definition failed_tx_timeseries ::
    "time_bucket \<Rightarrow> instant option \<Rightarrow> instant option \<Rightarrow> failed_tx_trend_point list stmt" where
  "failed_tx_timeseries bucket from_t to_t =
     select (\<lambda>d. Inr (map (\<lambda>((b, c), n). \<lparr>tp_bucket = b, tp_error_category = c, tp_failure_count = n\<rparr>)
       (sort_key fst (group_count (map (\<lambda>f. (date_trunc bucket (f_timestamp f), f_error_category f))
         (filter (failed_filter None from_t to_t) (failed_transactions d)))))))"

section \<open>Labels, diagnoses and signatures\<close>

definition insert_contract_label :: "instant \<Rightarrow> string \<Rightarrow> string \<Rightarrow> string option \<Rightarrow> unit stmt" where
  "insert_contract_label now address label owner_id d =
     (if \<not> (text_ok address \<and> text_ok label \<and> opt_ok text_ok owner_id) then Inl (Sqlx ''invalid text'')
      else Inr ((), d\<lparr>contract_labels := insert_new c_address (contract_labels d)
             [\<lparr>c_address = to_lowercase address, c_label = label, c_owner_id = owner_id, c_created_at = now\<rparr>]\<rparr>))"

definition upsert_contract_label :: "instant \<Rightarrow> string \<Rightarrow> string \<Rightarrow> string option \<Rightarrow> contract_label stmt" where
  "upsert_contract_label now address label owner_id d =
     (if \<not> (text_ok address \<and> text_ok label \<and> opt_ok text_ok owner_id) then Inl (Sqlx ''invalid text'')
      else
        let a = to_lowercase address;
            rows = map (\<lambda>c. if c_address c = a then c\<lparr>c_label := label, c_owner_id := owner_id\<rparr> else c) (contract_labels d)
        in case find (\<lambda>c. c_address c = a) rows of
             Some c \<Rightarrow> Inr (c, d\<lparr>contract_labels := rows\<rparr>)
           | None \<Rightarrow>
               let c = \<lparr>c_address = a, c_label = label, c_owner_id = owner_id, c_created_at = now\<rparr>
               in Inr (c, d\<lparr>contract_labels := contract_labels d @ [c]\<rparr>))"

definition delete_contract_label :: "string \<Rightarrow> nat stmt" where
  "delete_contract_label address d =
     Inr (length (filter (\<lambda>c. c_address c = to_lowercase address) (contract_labels d)),
          d\<lparr>contract_labels := filter (\<lambda>c. c_address c \<noteq> to_lowercase address) (contract_labels d)\<rparr>)"

definition list_contract_labels :: "string option \<Rightarrow> i64 \<Rightarrow> contract_label list stmt" where
  "list_contract_labels owner_id limit =
     select (\<lambda>d. pg_limit limit (sort_key (\<lambda>c. - c_created_at c)
       (filter (\<lambda>c. opt_filter (\<lambda>w. c_owner_id c = Some w) owner_id) (contract_labels d))))"

definition get_category_diagnosis :: "string \<Rightarrow> category_diagnosis option stmt" where
  "get_category_diagnosis wire = select (\<lambda>d. Inr (find (\<lambda>c. cd_error_category c = wire) (category_diagnoses d)))"

definition get_function_signature :: "string \<Rightarrow> function_signature option stmt" where
  "get_function_signature selector =
     select (\<lambda>d. Inr (find (\<lambda>s. fs_selector s = to_lowercase selector) (function_signatures d)))"

subsection \<open>Failures by label\<close>

definition label_joins ::
    "string option \<Rightarrow> instant option \<Rightarrow> instant option \<Rightarrow> db \<Rightarrow> ((string \<times> string) \<times> string) list" where
  "label_joins owner_id from_t to_t d =
     [((c_label cl, c_address cl), error_category_to_sql (f_error_category f)).
        cl \<leftarrow> contract_labels d, opt_filter (\<lambda>w. c_owner_id cl = Some w) owner_id,
        t \<leftarrow> transactions d, t_to_addr t = Some (c_address cl),
        f \<leftarrow> failed_transactions d, f_tx_hash f = t_tx_hash t \<and> failed_filter None from_t to_t f]"

type_synonym label_groups = "((string \<times> string) \<times> (i64 \<times> (string \<times> i64) list)) list"

definition pivot_row :: "((string \<times> string) \<times> string) \<times> i64 \<Rightarrow> label_groups \<Rightarrow> label_groups" where
  "pivot_row r groups =
     (case r of
        ((key, cat), cnt) \<Rightarrow>
          (case map_of groups key of
             None \<Rightarrow> upsert key (0 + cnt, upsert cat cnt []) groups
           | Some (tot, by_cat) \<Rightarrow> upsert key (tot + cnt, upsert cat cnt by_cat) groups))"

definition failed_tx_by_label_aggregate ::
    "string option \<Rightarrow> instant option \<Rightarrow> instant option \<Rightarrow> i64 \<Rightarrow> failed_tx_by_label_point list stmt" where
  "failed_tx_by_label_aggregate owner_id from_t to_t limit =
     select (\<lambda>d.
       let raw = group_count (label_joins owner_id from_t to_t d);
           groups = fold pivot_row raw [];
           out = sort_key (\<lambda>p. (- bl_total_failures p, bl_label p, bl_address p))
             (map (\<lambda>((label, address), (tot, by_cat)).
                \<lparr>bl_label = label, bl_address = address, bl_total_failures = tot, bl_by_category = by_cat\<rparr>) groups)
       in Inr (if 0 < limit then take (nat limit) out else out))"

section \<open>Pages\<close>

lemma select_Inr [simp]: "select (\<lambda>d. Inr (q d)) d = Inr (q d, d)"
  by (simp add: select_def)

lemma concat_pages: "concat (map (\<lambda>i. take n (drop (n * i) xs)) [0 ..< k]) = take (n * k) xs"
  by (induction k) (simp_all add: take_add [symmetric] add.commute)

definition failed_page ::
    "error_category option \<Rightarrow> instant option \<Rightarrow> instant option \<Rightarrow> nat \<Rightarrow> db \<Rightarrow> nat \<Rightarrow> failed_transaction list" where
  "failed_page c from_t to_t n d i =
     (case list_failed_transactions c from_t to_t (int n) (int n * int i) d of Inl _ \<Rightarrow> [] | Inr (rows, _) \<Rightarrow> rows)"

lemma failed_page_eq:
  "list_failed_transactions c from_t to_t (int n) (int n * int i) d = Inr (failed_page c from_t to_t n d i, d)"
  "failed_page c from_t to_t n d i =
     take n (drop (n * i) (sort_key (\<lambda>f. - f_timestamp f) (filter (failed_filter c from_t to_t) (failed_transactions d))))"
proof -
  have "nat (int n * int i) = n * i" "\<not> int n * int i < 0" by (metis nat_int of_nat_mult) (simp add: not_less)
  then show "failed_page c from_t to_t n d i =
     take n (drop (n * i) (sort_key (\<lambda>f. - f_timestamp f) (filter (failed_filter c from_t to_t) (failed_transactions d))))"
    and "list_failed_transactions c from_t to_t (int n) (int n * int i) d = Inr (failed_page c from_t to_t n d i, d)"
    by (simp_all add: failed_page_def list_failed_transactions_def select_def pg_page_def)
qed



section \<open>Traces come back in call order\<close>

lemma sort_key_sorted: "sorted (map f xs) \<Longrightarrow> sort_key f xs = xs"
  by (induction xs) (auto intro: insort_is_Cons)

lemma find_first: "find P xs = (case filter P xs of [] \<Rightarrow> None | x # _ \<Rightarrow> Some x)"
  by (induction xs) auto

lemma map_option_first:
  "map_option f (case xs of [] \<Rightarrow> None | x # _ \<Rightarrow> Some x) = (case map f xs of [] \<Rightarrow> None | y # _ \<Rightarrow> Some y)"
  by (cases xs) auto

lemma number_rows_sorted:
  assumes "\<And>i r. key (put i r) = i"
  shows "sorted (map key (number_rows put start rows))"
proof -
  have "map key (number_rows put start rows) = map (\<lambda>i. start + int i) [0 ..< length rows]"
    by (rule nth_equalityI) (simp_all add: number_rows_def nth_enumerate_eq assms)
  then show ?thesis by (simp add: sorted_map sorted_wrt_upt [THEN sorted_wrt_mono_rel [rotated]])
qed

text \<open>A stored trace is read back in call order.  When rows of a transaction that had none are
  inserted, listing them gives the same rows in the order of insertion, which is the preorder of the
  call tree, cut at the limit; and the first error frame is the first of them that carries an error.\<close>

lemma stored_trace_in_call_order:
  assumes "insert_trace_logs rows d = Inr (n, d')" "\<forall>g \<in> set (trace_logs d). g_tx_hash g \<noteq> h" "0 \<le> limit"
  shows "\<exists>ls e. list_trace_logs_by_tx h limit d' = Inr (ls, d') \<and> get_first_error_frame h d' = Inr (e, d')
     \<and> map (\<lambda>g. g\<lparr>g_trace_id := 0\<rparr>) ls =
         take (nat limit) (map (\<lambda>g. g\<lparr>g_trace_id := 0\<rparr>) (filter (\<lambda>g. g_tx_hash g = h) rows))
     \<and> map_option (\<lambda>g. g\<lparr>g_trace_id := 0\<rparr>) e =
         map_option (\<lambda>g. g\<lparr>g_trace_id := 0\<rparr>) (find (\<lambda>g. g_tx_hash g = h \<and> g_error g \<noteq> None) rows)"
proof -
  let ?put = "\<lambda>i g. g\<lparr>g_trace_id := i\<rparr>" and ?z = "\<lambda>g. g\<lparr>g_trace_id := 0\<rparr>"
  define new where "new = number_rows ?put (seq_trace d) rows"
  have d': "trace_logs d' = trace_logs d @ new"
    using assms(1) by (auto simp: insert_trace_logs_def new_def split: if_splits)
  have s: "sort_key g_trace_id (filter P new) = filter P new" for P
    unfolding new_def by (intro sort_key_sorted sorted_filter number_rows_sorted) simp
  have f: "map ?z (filter P new) = map ?z (filter P rows)" if "\<And>g i. P (g\<lparr>g_trace_id := i\<rparr>) = P g" for P
  proof -
    have "map ?z (filter P xs) = filter P (map ?z xs)" for xs by (induction xs) (simp_all add: that)
    moreover have "map ?z new = map ?z rows" unfolding new_def by (rule map_number_rows) simp
    ultimately show ?thesis by metis
  qed
  have old: "filter (\<lambda>g. g_tx_hash g = h) (trace_logs d) = []" "filter (\<lambda>g. g_tx_hash g = h \<and> g_error g \<noteq> None) (trace_logs d) = []"
    using assms(2) by (auto simp: filter_empty_conv)
  have l: "list_trace_logs_by_tx h limit d' = Inr (take (nat limit) (filter (\<lambda>g. g_tx_hash g = h) new), d')"
    using assms(3) old(1) by (simp add: list_trace_logs_by_tx_def select_def pg_limit_def d' s)
  have e: "get_first_error_frame h d' = Inr (find (\<lambda>g. g_tx_hash g = h \<and> g_error g \<noteq> None) new, d')"
    using old(2) s [of "\<lambda>g. g_tx_hash g = h \<and> g_error g \<noteq> None"]
    by (simp add: get_first_error_frame_def d' find_first)
  have "map ?z (filter (\<lambda>g. g_tx_hash g = h) new) = map ?z (filter (\<lambda>g. g_tx_hash g = h) rows)" by (rule f) simp
  moreover have "map_option ?z (find (\<lambda>g. g_tx_hash g = h \<and> g_error g \<noteq> None) new) =
      map_option ?z (find (\<lambda>g. g_tx_hash g = h \<and> g_error g \<noteq> None) rows)"
    unfolding find_first map_option_first by (subst f) simp_all
  ultimately show ?thesis using l e by (simp add: take_map [symmetric])
qed

definition sample_frame :: "string option \<Rightarrow> trace_log" where
  "sample_frame err = \<lparr>g_tx_hash = ''a'', g_call_depth = 0, g_call_type = ''CALL'', g_from_addr = ''0xaa'', g_to_addr = None,
     g_value = 0, g_gas_used = 1, g_input = None, g_output = None, g_error = err, g_trace_id = 0\<rparr>"

section \<open>The time series accounts for every failure\<close>

lemma group_count_set: "set (group_count ks) = (\<lambda>k. (k, int (count_list ks k))) ` set ks"
  by (simp add: group_count_def)

lemma group_count_distinct: "distinct (map fst (group_count ks))"
  by (simp add: group_count_def comp_def)

lemma map_of_group_count: "map_of (group_count ks) k = (if k \<in> set ks then Some (int (count_list ks k)) else None)"
  by (simp add: group_count_def map_of_map_restrict restrict_map_def)

lemma count_list_filter: "P k \<Longrightarrow> count_list (filter P ks) k = count_list ks k"
  by (induction ks) auto

lemma sum_group_count: "(\<Sum>r \<leftarrow> filter (\<lambda>r. P (fst r)) (group_count ks). snd r) = int (length (filter P ks))"
proof -
  have "(\<Sum>r \<leftarrow> filter (\<lambda>r. P (fst r)) (group_count ks). snd r) = (\<Sum>k \<leftarrow> remdups (filter P ks). int (count_list ks k))"
    by (simp add: group_count_def filter_map comp_def remdups_filter)
  also have "\<dots> = (\<Sum>k \<leftarrow> remdups (filter P ks). int (count_list (filter P ks) k))"
    by (intro arg_cong [where f = sum_list] map_cong) (simp_all add: count_list_filter)
  also have "\<dots> = int (length (filter P ks))"
    using sum_count_set [of "filter P ks" "set (filter P ks)"]
    by (simp add: sum_list_distinct_conv_sum_set flip: of_nat_sum)
  finally show ?thesis .
qed

lemma sum_list_sort_key: "(\<Sum>r \<leftarrow> sort_key f xs. g r) = (\<Sum>r \<leftarrow> xs. g r :: 'b::comm_monoid_add)"
proof -
  have "(\<Sum>r \<leftarrow> insort_key f x ys. g r) = g x + (\<Sum>r \<leftarrow> ys. g r)" for x ys
    by (induction ys) (auto simp: add.left_commute)
  then show ?thesis by (induction xs) simp_all
qed

lemma distinct_map_sort_key: "distinct (map f (sort_key g xs)) \<longleftrightarrow> distinct (map f xs)"
  by (simp add: distinct_map)

lemma date_trunc_idem [simp]: "date_trunc b (date_trunc b t) = date_trunc b t"
proof (cases b)
  case Week
  have "(t - (t + c) mod m + c) mod m = 0" for c m :: int
    by (metis add_diff_eq diff_add_eq minus_mod_self1 mod_diff_right_eq mod_mod_trivial cancel_comm_monoid_add_class.diff_cancel mod_0 add.commute mod_diff_left_eq)
  then show ?thesis using Week by simp
qed (simp_all add: minus_mod_eq_mult_div)

text \<open>The time series accounts for every failure in its range.  Its points are strictly ordered by
  bucket and category, each bucket is a start of an interval, each point counts exactly the failures
  whose time falls into its bucket with its category, and the counts add up to the total that the count
  query reports for the range.\<close>

lemma failed_tx_timeseries_accounts:
  "\<exists>pts. failed_tx_timeseries b from_t to_t d = Inr (pts, d)
     \<and> sorted_wrt (<) (map (\<lambda>p. (tp_bucket p, tp_error_category p)) pts)
     \<and> (\<forall>p \<in> set pts. date_trunc b (tp_bucket p) = tp_bucket p \<and> 0 < tp_failure_count p
          \<and> tp_failure_count p = int (length (filter (\<lambda>f. failed_filter None from_t to_t f
              \<and> date_trunc b (f_timestamp f) = tp_bucket p \<and> f_error_category f = tp_error_category p) (failed_transactions d))))
     \<and> count_failed_transactions None from_t to_t d = Inr (\<Sum>p \<leftarrow> pts. tp_failure_count p, d)"
proof -
  let ?fs = "filter (failed_filter None from_t to_t) (failed_transactions d)"
  let ?key = "\<lambda>f. (date_trunc b (f_timestamp f), f_error_category f)"
  let ?pt = "\<lambda>((b, c), n). \<lparr>tp_bucket = b, tp_error_category = c, tp_failure_count = n\<rparr>"
  define gs where "gs = group_count (map ?key ?fs)"
  define pts where "pts = map ?pt (sort_key fst gs)"
  have r: "failed_tx_timeseries b from_t to_t d = Inr (pts, d)"
    by (simp add: failed_tx_timeseries_def pts_def gs_def)
  have keys: "map (\<lambda>p. (tp_bucket p, tp_error_category p)) pts = map fst (sort_key fst gs)"
    by (auto simp: pts_def)
  have "distinct (map fst (sort_key fst gs))"
    using group_count_distinct by (simp add: distinct_map gs_def)
  then have ord: "sorted_wrt (<) (map (\<lambda>p. (tp_bucket p, tp_error_category p)) pts)"
    unfolding keys strict_sorted_iff by simp
  have pt: "date_trunc b (tp_bucket p) = tp_bucket p \<and> 0 < tp_failure_count p
      \<and> tp_failure_count p = int (length (filter (\<lambda>f. failed_filter None from_t to_t f
          \<and> date_trunc b (f_timestamp f) = tp_bucket p \<and> f_error_category f = tp_error_category p) (failed_transactions d)))"
    if q: "p \<in> set pts" for p
  proof -
    obtain f where f: "f \<in> set ?fs" and p: "p = ?pt (?key f, int (count_list (map ?key ?fs) (?key f)))"
      using q by (auto simp: pts_def gs_def group_count_set)
    have "count_list (map ?key ?fs) (?key f) = length (filter (\<lambda>g. ?key f = ?key g) ?fs)"
      by (simp add: count_list_eq_length_filter filter_map comp_def)
    also have "\<dots> = length (filter (\<lambda>g. failed_filter None from_t to_t g \<and> ?key g = ?key f) (failed_transactions d))"
      unfolding filter_filter by (rule arg_cong [where f = length], rule filter_cong) auto
    finally have c: "count_list (map ?key ?fs) (?key f) =
        length (filter (\<lambda>g. failed_filter None from_t to_t g \<and> ?key g = ?key f) (failed_transactions d))" .
    moreover have "?key f \<in> set (map ?key ?fs)" using f unfolding set_map by (rule imageI)
    then have "0 < count_list (map ?key ?fs) (?key f)" unfolding neq0_conv [symmetric] count_list_0_iff by blast
    ultimately show ?thesis using p by simp
  qed
  have "(\<Sum>p \<leftarrow> pts. tp_failure_count p) = (\<Sum>g \<leftarrow> sort_key fst gs. snd g)"
    by (simp add: pts_def comp_def case_prod_unfold)
  also have "\<dots> = int (length ?fs)"
    using sum_group_count [of "\<lambda>_. True" "map ?key ?fs"] by (simp add: sum_list_sort_key gs_def)
  finally have "count_failed_transactions None from_t to_t d = Inr (\<Sum>p \<leftarrow> pts. tp_failure_count p, d)"
    by (simp add: count_failed_transactions_def)
  with r ord pt show ?thesis by blast
qed

section \<open>Failures by label\<close>

text \<open>What the pivot has collected after a prefix of the grouped rows.\<close>

definition pivoted :: "(((string \<times> string) \<times> string) \<times> i64) list \<Rightarrow> label_groups \<Rightarrow> bool" where
  "pivoted rs gs \<longleftrightarrow> distinct (map fst gs)
     \<and> (\<forall>key. map_of gs key = None \<longleftrightarrow> key \<notin> fst ` fst ` set rs)
     \<and> (\<forall>key tot by_cat. map_of gs key = Some (tot, by_cat) \<longrightarrow>
          tot = (\<Sum>r \<leftarrow> filter (\<lambda>r. fst (fst r) = key) rs. snd r) \<and> (\<forall>c. map_of by_cat c = map_of rs (key, c)))"

lemma pivotedD:
  assumes "pivoted rs gs" "map_of gs key = Some (tot, m)"
  shows "tot = (\<Sum>r \<leftarrow> filter (\<lambda>r. fst (fst r) = key) rs. snd r)" and "map_of m c = map_of rs (key, c)"
  using assms unfolding pivoted_def by blast+

lemma map_of_snoc: "k \<notin> fst ` set rs \<Longrightarrow> map_of (rs @ [(k, v)]) = (map_of rs)(k \<mapsto> v)"
  by (induction rs) (auto simp: fun_upd_twist)

lemma pivot_step:
  assumes inv: "pivoted rs gs" and new: "(key, cat) \<notin> fst ` set rs"
  shows "pivoted (rs @ [((key, cat), n)]) (pivot_row ((key, cat), n) gs)"
proof -
  obtain tot m where tm: "(tot, m) = (case map_of gs key of None \<Rightarrow> (0, []) | Some p \<Rightarrow> p)" by (metis surj_pair)
  have row: "pivot_row ((key, cat), n) gs = upsert key (tot + n, upsert cat n m) gs"
    using tm by (auto simp: pivot_row_def split: option.splits)
  have old: "tot = (\<Sum>r \<leftarrow> filter (\<lambda>r. fst (fst r) = key) rs. snd r)" "map_of m c = map_of rs (key, c)" for c
  proof -
    show "tot = (\<Sum>r \<leftarrow> filter (\<lambda>r. fst (fst r) = key) rs. snd r)"
    proof (cases "map_of gs key")
      case None
      then have "key \<notin> fst ` fst ` set rs" using inv unfolding pivoted_def by blast
      then have "filter (\<lambda>r. fst (fst r) = key) rs = []" by (intro filter_False) blast
      with None tm show ?thesis by simp
    next
      case (Some p)
      with tm have "map_of gs key = Some (tot, m)" by simp
      then show ?thesis by (rule pivotedD(1) [OF inv])
    qed
    show "map_of m c = map_of rs (key, c)"
    proof (cases "map_of gs key")
      case None
      then have "key \<notin> fst ` fst ` set rs" using inv unfolding pivoted_def by blast
      then have "(key, c) \<notin> fst ` set rs" by force
      with None tm show ?thesis by (simp add: map_of_eq_None_iff [THEN iffD2])
    next
      case (Some p)
      with tm have "map_of gs key = Some (tot, m)" by simp
      then show ?thesis by (rule pivotedD(2) [OF inv])
    qed
  qed
  let ?rs = "rs @ [((key, cat), n)]"
  have look: "map_of (pivot_row ((key, cat), n) gs) k = (if k = key then Some (tot + n, upsert cat n m) else map_of gs k)" for k
    by (simp add: row map_of_upsert)
  have rs: "map_of ?rs k = (if k = (key, cat) then Some n else map_of rs k)" for k
    unfolding map_of_snoc [OF new] by simp
  show ?thesis
    unfolding pivoted_def
  proof (intro conjI allI impI)
    show "distinct (map fst (pivot_row ((key, cat), n) gs))"
      unfolding row by (rule distinct_upsert) (use inv in \<open>unfold pivoted_def, blast\<close>)
    fix k
    have "map_of gs k = None \<longleftrightarrow> k \<notin> fst ` fst ` set rs" using inv unfolding pivoted_def by blast
    then show "map_of (pivot_row ((key, cat), n) gs) k = None \<longleftrightarrow> k \<notin> fst ` fst ` set ?rs" by (simp add: look)
    fix t bc
    assume k: "map_of (pivot_row ((key, cat), n) gs) k = Some (t, bc)"
    show "t = (\<Sum>r \<leftarrow> filter (\<lambda>r. fst (fst r) = k) ?rs. snd r)"
      using k old(1) pivotedD(1) [OF inv, of k] by (auto simp: look split: if_splits)
    show "map_of bc c = map_of ?rs (k, c)" for c
      using k old(2) pivotedD(2) [OF inv, of k t bc c] unfolding rs look by (auto simp: map_of_upsert split: if_splits)
  qed
qed

lemma pivoted_fold:
  assumes "distinct (map fst rs)"
  shows "pivoted rs (fold pivot_row rs [])"
  using assms
proof (induction rs rule: rev_induct)
  case (snoc r rs)
  obtain key cat n where r: "r = ((key, cat), n)" by (metis surj_pair)
  from snoc have "(key, cat) \<notin> fst ` set rs" "pivoted rs (fold pivot_row rs [])" by (auto simp: r)
  then show ?case using pivot_step [of rs "fold pivot_row rs []" key cat n] by (simp add: r)
qed (simp add: pivoted_def)

text \<open>The failures by label are a pivot of the join.  Without a limit the result has exactly one point
  for every label and address that occurs in the join of labels, transactions and failures; its total is
  the number of its joined rows, its map gives for every category that occurs the number of those rows
  and nothing for the others; and the points are ordered by falling total, then label and address.\<close>

lemma label_aggregate_is_pivot:
  fixes owner_id :: "string option" and from_t to_t :: "instant option" and d :: db
  assumes "limit \<le> 0"
  defines "joins \<equiv> label_joins owner_id from_t to_t d"
  shows "\<exists>pts. failed_tx_by_label_aggregate owner_id from_t to_t limit d = Inr (pts, d)
     \<and> distinct (map (\<lambda>p. (bl_label p, bl_address p)) pts)
     \<and> (\<lambda>p. (bl_label p, bl_address p)) ` set pts = fst ` set joins
     \<and> (\<forall>p \<in> set pts. bl_total_failures p = int (length (filter (\<lambda>j. fst j = (bl_label p, bl_address p)) joins))
          \<and> (\<forall>c. map_of (bl_by_category p) c =
               (let n = count_list joins ((bl_label p, bl_address p), c) in if n = 0 then None else Some (int n))))
     \<and> sorted (map (\<lambda>p. (- bl_total_failures p, bl_label p, bl_address p)) pts)"
proof -
  define raw where "raw = group_count joins"
  define groups where "groups = fold pivot_row raw []"
  let ?pt = "\<lambda>((label, address), (tot, by_cat)).
     \<lparr>bl_label = label, bl_address = address, bl_total_failures = tot, bl_by_category = by_cat\<rparr>"
  define pts where "pts = sort_key (\<lambda>p. (- bl_total_failures p, bl_label p, bl_address p)) (map ?pt groups)"
  have r: "failed_tx_by_label_aggregate owner_id from_t to_t limit d = Inr (pts, d)"
    using assms(1) by (simp add: failed_tx_by_label_aggregate_def Let_def pts_def groups_def raw_def joins_def)
  have inv: "pivoted raw groups"
    unfolding groups_def raw_def by (rule pivoted_fold) (rule group_count_distinct)
  have keys: "(\<lambda>p. (bl_label p, bl_address p)) ` set pts = fst ` set groups"
    by (auto simp: pts_def image_image case_prod_unfold)
  have grp: "fst ` set groups = fst ` set joins"
  proof -
    have "k \<in> fst ` set groups \<longleftrightarrow> k \<in> fst ` fst ` set raw" for k
      using inv unfolding pivoted_def by (metis map_of_eq_None_iff)
    then have "fst ` set groups = fst ` fst ` set raw" by blast
    then show ?thesis by (simp add: raw_def group_count_set image_image)
  qed
  have dist: "distinct (map (\<lambda>p. (bl_label p, bl_address p)) pts)"
  proof -
    have "distinct (map (\<lambda>p. (bl_label p, bl_address p)) (map ?pt groups))"
      using inv by (simp add: pivoted_def comp_def case_prod_unfold)
    then show ?thesis unfolding pts_def distinct_map_sort_key .
  qed
  have pt: "bl_total_failures p = int (length (filter (\<lambda>j. fst j = (bl_label p, bl_address p)) joins))
      \<and> (\<forall>c. map_of (bl_by_category p) c =
           (let n = count_list joins ((bl_label p, bl_address p), c) in if n = 0 then None else Some (int n)))"
    if q: "p \<in> set pts" for p
  proof -
    obtain l a tot m where g: "((l, a), (tot, m)) \<in> set groups" "p = ?pt ((l, a), (tot, m))"
      using q by (auto simp: pts_def)
    then have "map_of groups (l, a) = Some (tot, m)" using inv by (simp add: pivoted_def)
    then have "tot = (\<Sum>r \<leftarrow> filter (\<lambda>r. fst (fst r) = (l, a)) raw. snd r)" "map_of m c = map_of raw ((l, a), c)" for c
      using pivotedD [OF inv] by blast+
    with g(2) sum_group_count [of "\<lambda>k. fst k = (l, a)" joins] show ?thesis
      by (simp add: raw_def map_of_group_count Let_def count_list_0_iff)
  qed
  have srt: "sorted (map (\<lambda>p. (- bl_total_failures p, bl_label p, bl_address p)) pts)"
    unfolding pts_def by (rule sorted_sort_key)
  show ?thesis
    by (rule exI [of _ pts], intro conjI r dist srt ballI) (simp_all only: keys grp pt simp_thms)
qed

definition labelled_db :: db where
  "labelled_db = sample_db\<lparr>contract_labels := [\<lparr>c_address = ''0xbb'', c_label = ''Router'', c_owner_id = None, c_created_at = 0\<rparr>]\<rparr>"

section \<open>Labels\<close>

lemma find_None_key: "find (\<lambda>x. g x = a) xs = None \<Longrightarrow> a \<notin> set (map g xs)"
  by (auto simp: find_None_iff)

lemma find_Some_key: "find (\<lambda>x. g x = a) xs = Some x \<Longrightarrow> x \<in> set xs \<and> g x = a"
  by (auto simp: find_Some_iff)

lemma filter_unique: "distinct (map f xs) \<Longrightarrow> x \<in> set xs \<Longrightarrow> filter (\<lambda>y. f y = f x) xs = [x]"
proof (induction xs)
  case (Cons y ys)
  show ?case
  proof (cases "y = x")
    case True
    with Cons.prems have "filter (\<lambda>z. f z = f x) ys = []" by (auto simp: filter_empty_conv image_iff)
    with True show ?thesis by simp
  next
    case False
    with Cons.prems have "f y \<noteq> f x" by auto
    with Cons False show ?thesis by simp
  qed
qed simp

lemma upsert_contract_label_effect:
  assumes "distinct (map c_address (contract_labels d))"
    and "upsert_contract_label now address label owner d = Inr (c, d1)"
  defines "a \<equiv> to_lowercase address"
  shows "distinct (map c_address (contract_labels d1))
     \<and> filter (\<lambda>x. c_address x = a) (contract_labels d1) = [c]
     \<and> c_address c = a \<and> c_label c = label \<and> c_owner_id c = owner
     \<and> (\<forall>x \<in> set (contract_labels d). c_address x = a \<longrightarrow> c_created_at c = c_created_at x)
     \<and> filter (\<lambda>x. c_address x \<noteq> a) (contract_labels d1) = filter (\<lambda>x. c_address x \<noteq> a) (contract_labels d)
     \<and> d1 = d\<lparr>contract_labels := contract_labels d1\<rparr>"
proof (cases "find (\<lambda>c. c_address c = a) (map (\<lambda>c. if c_address c = a then c\<lparr>c_label := label, c_owner_id := owner\<rparr> else c) (contract_labels d))")
  let ?rows = "map (\<lambda>c. if c_address c = a then c\<lparr>c_label := label, c_owner_id := owner\<rparr> else c) (contract_labels d)"
  have keys: "map c_address ?rows = map c_address (contract_labels d)" by auto
  {
    case None
    from find_None_key [OF this] have new: "a \<notin> set (map c_address (contract_labels d))" unfolding keys .
    moreover have "d1 = d\<lparr>contract_labels := contract_labels d @ [c]\<rparr>" "c = \<lparr>c_address = a, c_label = label, c_owner_id = owner, c_created_at = now\<rparr>"
      using assms(2) None by (auto simp: upsert_contract_label_def Let_def a_def split: if_splits)
    moreover have "filter (\<lambda>x. c_address x = a) (contract_labels d) = []" using new by (auto simp: filter_empty_conv)
    ultimately show ?thesis using assms(1) by (auto simp: image_iff)
  next
    case (Some x)
    then have c: "x = c" "d1 = d\<lparr>contract_labels := ?rows\<rparr>"
      using assms(2) by (auto simp: upsert_contract_label_def Let_def a_def split: if_splits)
    have mem: "c \<in> set ?rows" "c_address c = a" using find_Some_key [OF Some] unfolding c(1) by blast+
    then obtain x0 where x0: "x0 \<in> set (contract_labels d)" "c_address x0 = a" "c = x0\<lparr>c_label := label, c_owner_id := owner\<rparr>"
      by (auto split: if_splits)
    have "x = x0" if "x \<in> set (contract_labels d)" "c_address x = a" for x
      by (rule inj_onD [of c_address "set (contract_labels d)"]) (use assms(1) that x0(1,2) in \<open>simp_all add: distinct_map\<close>)
    then have created: "\<forall>x \<in> set (contract_labels d). c_address x = a \<longrightarrow> c_created_at c = c_created_at x"
      by (auto simp: x0(3))
    have rest: "filter (\<lambda>x. c_address x \<noteq> a) ?rows = filter (\<lambda>x. c_address x \<noteq> a) (contract_labels d)"
      by (simp add: filter_map comp_def if_distrib cong: if_cong filter_cong) (rule map_idI, simp)
    have dist: "distinct (map c_address ?rows)" unfolding keys by (rule assms(1))
    have l: "c_label c = label" "c_owner_id c = owner" by (simp_all add: x0(3))
    have only: "filter (\<lambda>x. c_address x = a) ?rows = [c]"
      using filter_unique [OF dist mem(1)] unfolding mem(2) .
    have d1: "contract_labels d1 = ?rows" using c(2) by simp
    show ?thesis
      unfolding d1 by (intro conjI dist only mem(2) l created rest c(2))
  }
qed

text \<open>Label registration.  Registering a label keeps addresses unique and stores the address in lower
  case; the plain insert leaves an existing label alone, the upsert replaces it and keeps its creation
  time, and after a delete, in any letter case, no label of the address is left and the others are
  unchanged.\<close>

lemma contract_label_lifecycle:
  assumes "distinct (map c_address (contract_labels d))"
    and "upsert_contract_label now address label owner d = Inr (c, d1)"
  shows "distinct (map c_address (contract_labels d1))
     \<and> filter (\<lambda>x. c_address x = to_lowercase address) (contract_labels d1) = [c]
     \<and> c_address c = to_lowercase address \<and> c_label c = label \<and> c_owner_id c = owner
     \<and> (\<forall>x \<in> set (contract_labels d). c_address x = to_lowercase address \<longrightarrow> c_created_at c = c_created_at x)
     \<and> (\<forall>t l w d2. insert_contract_label t address l w d1 = Inr ((), d2) \<longrightarrow> d2 = d1)
     \<and> (\<forall>a n d2. to_lowercase a = to_lowercase address \<and> delete_contract_label a d1 = Inr (n, d2) \<longrightarrow>
          n = 1 \<and> contract_labels d2 = filter (\<lambda>x. c_address x \<noteq> to_lowercase address) (contract_labels d))"
proof -
  let ?a = "to_lowercase address"
  note e = upsert_contract_label_effect [OF assms]
  have mem: "c \<in> set (contract_labels d1)" using e by (metis filter_is_subset list.set_intros(1) subsetD)
  have ins: "d2 = d1" if "insert_contract_label t address l w d1 = Inr ((), d2)" for t l w d2
    using that mem e by (auto simp: insert_contract_label_def image_iff split: if_splits)
  show ?thesis using e ins by (auto simp: delete_contract_label_def)
qed

end
