(* ===== verification/Abi.thy ===== *)
theory Abi
  imports Events
begin

text \<open>
  The argument decoder (\<^verbatim>\<open>crates/decoder/src/abi.rs\<close>): the parameter list of a signature, its
  top-level types, and the lowering of decoded Solidity values to JSON.  The dynamic ABI decoder
  and the hex codec are code of the \<^verbatim>\<open>alloy\<close> crate; the record \<open>dyn_abi\<close> holds them and is an
  argument of the definitions that call them.
\<close>

section \<open>Data\<close>

datatype abi_decode_error =
    InvalidSignature string
  | InvalidHex string
  | InputTooShort
  | Decode string

text \<open>\<^verbatim>\<open>DynSolValue\<close>: the integers are kept as integers with their width, \<open>Other\<close> stands for the
  variants the lowering maps to null.\<close>

datatype dynsol_value =
    Address "byte list"
  | Uint nat nat
  | DInt int nat
  | DBool bool
  | Bytes "byte list"
  | FixedBytes "byte list" nat
  | DString string
  | Array "dynsol_value list"
  | FixedArray "dynsol_value list"
  | Tuple "dynsol_value list"
  | Other

record 'ty dyn_abi =
  hex_decode :: "string \<Rightarrow> string + byte list"
  hex_encode :: "byte list \<Rightarrow> string"
  parse_type :: "string \<Rightarrow> string + 'ty"
  abi_decode_params :: "'ty \<Rightarrow> byte list \<Rightarrow> string + dynsol_value"

record decoded_arg =
  da_ty :: string
  da_value :: json

section \<open>Signatures\<close>

definition rfind_char :: "char \<Rightarrow> string \<Rightarrow> nat option" where
  "rfind_char c s = map_option (\<lambda>i. length s - 1 - i) (find_str (rev s) [c])"

definition extract_param_list :: "string \<Rightarrow> string option" where
  "extract_param_list signature =
     (case find_str signature [CHR 0x28] of
        None \<Rightarrow> None
      | Some open \<Rightarrow>
          (case rfind_char (CHR 0x29) signature of
             None \<Rightarrow> None
           | Some close \<Rightarrow>
               if close \<le> open then None
               else Some (take (close - (open + 1)) (drop (open + 1) signature))))"

text \<open>The loop over the bytes carries the index, the nesting depth, the start of the current type
  and the types found so far.\<close>

fun split_loop :: "string \<Rightarrow> string \<Rightarrow> nat \<Rightarrow> i32 \<Rightarrow> nat \<Rightarrow> string list \<Rightarrow> string list" where
  "split_loop s [] i depth start out = out @ [trim (drop start s)]"
| "split_loop s (b # bs) i depth start out =
     (if b = CHR 0x28 then split_loop s bs (i + 1) (depth + 1) start out
      else if b = CHR 0x29 then split_loop s bs (i + 1) (depth - 1) start out
      else if b = CHR 0x2C \<and> depth = 0
      then split_loop s bs (i + 1) depth (i + 1) (out @ [trim (take (i - start) (drop start s))])
      else split_loop s bs (i + 1) depth start out)"

definition split_top_level :: "string \<Rightarrow> string list" where
  "split_top_level types_str =
     (if types_str = [] then [] else split_loop types_str types_str 0 0 0 [])"

section \<open>Values and arguments\<close>

fun dynsol_to_json :: "'ty dyn_abi \<Rightarrow> dynsol_value \<Rightarrow> json" where
  "dynsol_to_json A (Address a) = JString (''0x'' @ hex_encode A a)"
| "dynsol_to_json A (Uint n _) = JString (show_nat n)"
| "dynsol_to_json A (DInt n _) = JString (show_int n)"
| "dynsol_to_json A (DBool b) = JBool b"
| "dynsol_to_json A (Bytes b) = JString (''0x'' @ hex_encode A b)"
| "dynsol_to_json A (FixedBytes w _) = JString (''0x'' @ hex_encode A w)"
| "dynsol_to_json A (DString s) = JString s"
| "dynsol_to_json A (Array vs) = JArray (map (dynsol_to_json A) vs)"
| "dynsol_to_json A (FixedArray vs) = JArray (map (dynsol_to_json A) vs)"
| "dynsol_to_json A (Tuple vs) = JArray (map (dynsol_to_json A) vs)"
| "dynsol_to_json A Other = JNull"

definition decode_args :: "'ty dyn_abi \<Rightarrow> string \<Rightarrow> string \<Rightarrow> abi_decode_error + decoded_arg list" where
  "decode_args A signature input_hex =
     (case extract_param_list signature of
        None \<Rightarrow> Inl (InvalidSignature signature)
      | Some types_str \<Rightarrow>
     (case hex_decode A (strip_0x input_hex) of
        Inl e \<Rightarrow> Inl (InvalidHex e)
      | Inr bytes \<Rightarrow>
     if length bytes < 4 then Inl InputTooShort
     else
       let args_bytes = drop 4 bytes; wrapped = ''('' @ types_str @ '')'' in
       (case parse_type A wrapped of
          Inl e \<Rightarrow> Inl (Decode (''signature parse: '' @ e))
        | Inr seq_ty \<Rightarrow>
       (case abi_decode_params A seq_ty args_bytes of
          Inl e \<Rightarrow> Inl (Decode e)
        | Inr decoded \<Rightarrow>
            let values = (case decoded of Tuple vs \<Rightarrow> vs | other \<Rightarrow> [other]);
                top_types = split_top_level types_str
            in Inr (map (\<lambda>(v, ty). \<lparr>da_ty = ty, da_value = dynsol_to_json A v\<rparr>) (zip values top_types))))))"

section \<open>Well-formed signatures\<close>

text \<open>The depth after a text, \<^const>\<open>None\<close> if it has a comma at depth 0.\<close>

fun nesting :: "i32 \<Rightarrow> string \<Rightarrow> i32 option" where
  "nesting d [] = Some d"
| "nesting d (b # bs) =
     (if b = CHR 0x28 then nesting (d + 1) bs
      else if b = CHR 0x29 then nesting (d - 1) bs
      else if b = CHR 0x2C \<and> d = 0 then None
      else nesting d bs)"

definition type_text :: "string \<Rightarrow> bool" where
  "type_text t \<longleftrightarrow> t \<noteq> [] \<and> trim t = t \<and> nesting 0 t = Some 0"

fun join_types :: "string list \<Rightarrow> string" where
  "join_types [] = []"
| "join_types [t] = t"
| "join_types (t # ts) = t @ CHR 0x2C # join_types ts"

lemma split_loop_nesting:
  "nesting d t = Some d' \<Longrightarrow>
     split_loop s (t @ rest) i d start out = split_loop s rest (i + length t) d' start out"
  by (induction d t arbitrary: i rule: nesting.induct) (auto split: if_splits)

lemma split_loop_join:
  assumes "ts \<noteq> []" "\<forall>t \<in> set ts. nesting 0 t = Some 0"
  shows "split_loop (pre @ join_types ts) (join_types ts) (length pre) 0 (length pre) out
       = out @ map trim ts"
  using assms
proof (induction ts arbitrary: pre out rule: join_types.induct)
  case (2 t)
  then show ?case using split_loop_nesting [of 0 t 0 "pre @ t" "[]"] by simp
next
  case (3 t u us)
  from "3.prems" have t: "nesting 0 t = Some 0" by simp
  have "split_loop (pre @ join_types (t # u # us)) (join_types (t # u # us)) (length pre) 0 (length pre) out
      = split_loop ((pre @ t @ [CHR 0x2C]) @ join_types (u # us)) (join_types (u # us))
          (length (pre @ t @ [CHR 0x2C])) 0 (length (pre @ t @ [CHR 0x2C])) (out @ [trim t])"
    using split_loop_nesting [OF t] by simp
  also have "\<dots> = (out @ [trim t]) @ map trim (u # us)"
    using "3.prems" by (intro "3.IH") auto
  finally show ?case by simp
qed simp

lemma join_types_eq_Nil: "(\<forall>t \<in> set ts. t \<noteq> []) \<Longrightarrow> join_types ts = [] \<longleftrightarrow> ts = []"
  by (cases ts rule: join_types.cases) auto

lemma split_top_level_join:
  assumes "\<forall>t \<in> set ts. type_text t"
  shows "split_top_level (join_types ts) = ts"
proof (cases "ts = []")
  case True
  then show ?thesis by (simp add: split_top_level_def)
next
  case False
  have "map trim ts = ts" using assms by (simp add: type_text_def map_idI)
  moreover have "join_types ts \<noteq> []" using assms False join_types_eq_Nil [of ts] by (auto simp: type_text_def)
  ultimately show ?thesis
    using split_loop_join [OF False, of "[]" "[]"] assms
    by (simp add: split_top_level_def type_text_def)
qed

lemma find_str_single:
  "c \<notin> set u \<Longrightarrow> find_str (u @ c # v) [c] = Some (length u)"
  by (induction u) auto

lemma extract_param_list_signature:
  assumes "CHR 0x28 \<notin> set name"
  shows "extract_param_list (name @ ''('' @ types @ '')'') = Some types"
  using find_str_single [OF assms, of "types @ '')''"]
  by (simp add: extract_param_list_def rfind_char_def)

text \<open>The arguments are labelled with the types of the signature.  For a signature
  \<^verbatim>\<open>name(t1,...,tn)\<close> of balanced types, nested tuples included, and call data the ABI decoder
  accepts with one value per parameter, the result pairs each type text, character for character,
  with its own value in order.  A missing parameter list, bad hex, call data shorter than the
  selector and a rejected payload are the four errors.\<close>

lemma decode_args_signature:
  assumes "CHR 0x28 \<notin> set name" "\<forall>t \<in> set ts. type_text t"
    and "hex_decode A (strip_0x input) = Inr bytes"
    and "parse_type A (''('' @ join_types ts @ '')'') = Inr ty"
  defines "sig \<equiv> name @ ''('' @ join_types ts @ '')''"
  shows "(length bytes < 4 \<longrightarrow> decode_args A sig input = Inl InputTooShort)
     \<and> (4 \<le> length bytes \<longrightarrow> (\<forall>e. abi_decode_params A ty (drop 4 bytes) = Inl e \<longrightarrow>
          decode_args A sig input = Inl (Decode e)))
     \<and> (4 \<le> length bytes \<longrightarrow> (\<forall>vs. abi_decode_params A ty (drop 4 bytes) = Inr (Tuple vs) \<longrightarrow>
          length vs = length ts \<longrightarrow>
          (\<exists>args. decode_args A sig input = Inr args \<and> length args = length ts
             \<and> map da_ty args = ts \<and> map da_value args = map (dynsol_to_json A) vs)))
     \<and> (\<forall>e. hex_decode A (strip_0x other) = Inl e \<longrightarrow> decode_args A sig other = Inl (InvalidHex e))"
proof -
  have sig: "extract_param_list sig = Some (join_types ts)"
    unfolding sig_def using assms(1) by (rule extract_param_list_signature)
  have "map da_ty (map (\<lambda>(v, ty). \<lparr>da_ty = ty, da_value = dynsol_to_json A v\<rparr>) (zip vs ts)) = ts
      \<and> map da_value (map (\<lambda>(v, ty). \<lparr>da_ty = ty, da_value = dynsol_to_json A v\<rparr>) (zip vs ts))
        = map (dynsol_to_json A) vs" if "length vs = length ts" for vs
    using that by (induction vs ts rule: list_induct2) auto
  then show ?thesis
    using assms(3,4) split_top_level_join [OF assms(2)] by (simp add: decode_args_def sig)
qed

definition sample_abi :: "unit dyn_abi" where
  "sample_abi = \<lparr>hex_decode = (\<lambda>s. if s = ''zz'' then Inl ''bad'' else Inr (replicate (length s div 2) 0)),
     hex_encode = bytes_to_hex, parse_type = (\<lambda>_. Inr ()),
     abi_decode_params = (\<lambda>_ _. Inr (Tuple [Uint 7 256, DBool True]))\<rparr>"

end
