(* ===== verification/Api.thy ===== *)
theory Api
  imports Alerts Reads Abi Validators
begin

text \<open>
  The HTTP API (\<^verbatim>\<open>crates/api/src\<close>): configuration, authentication, error mapping, pagination and the
  handlers.  A handler maps the database to its answer (an error or a value) and the new database.  The
  extractors of the web framework have run: a handler gets its decoded parameters.  The header and
  constant-time comparison crates, the random generator, the hexadecimal codec, the URL parser, the
  timestamp parser and the ABI decoder are parameters.
\<close>

section \<open>Errors and responses\<close>

datatype api_error = ApiNotFound string | ApiBadRequest string | ApiUnauthorized | ApiInternal string

fun from_db_error :: "db_error \<Rightarrow> api_error" where
  "from_db_error (NotFound msg) = ApiNotFound msg"
| "from_db_error (Duplicate msg) = ApiBadRequest msg"
| "from_db_error (Sqlx e) = ApiInternal ''database error''"
| "from_db_error (Migration e) = ApiInternal ''internal error''"

fun into_response :: "api_error \<Rightarrow> nat \<times> json" where
  "into_response (ApiNotFound msg) = (404, JObject [(''error'', JString msg)])"
| "into_response (ApiBadRequest msg) = (400, JObject [(''error'', JString msg)])"
| "into_response ApiUnauthorized = (401, JObject [(''error'', JString ''unauthorized'')])"
| "into_response (ApiInternal msg) = (500, JObject [(''error'', JString msg)])"

type_synonym 'a handler = "db \<Rightarrow> (api_error + 'a) \<times> db"

definition answer :: "api_error + 'a \<Rightarrow> 'a handler" where
  "answer r d = (r, d)"

definition ask :: "'a stmt \<Rightarrow> 'a handler" where
  "ask s d = (case s d of Inl e \<Rightarrow> (Inl (from_db_error e), d) | Inr (x, d') \<Rightarrow> (Inr x, d'))"

definition and_then :: "'a handler \<Rightarrow> ('a \<Rightarrow> 'b handler) \<Rightarrow> 'b handler" where
  "and_then h f d = (case h d of (Inl e, d') \<Rightarrow> (Inl e, d') | (Inr x, d') \<Rightarrow> f x d')"

record pagination_info =
  pi_limit :: i64
  pi_offset :: i64
  pi_count :: i64

record pagination_meta =
  pm_limit :: i64
  pm_offset :: i64
  pm_count :: i64
  pm_total :: i64

type_synonym 'a paginated = "'a list \<times> pagination_info"
type_synonym 'a total_paginated = "'a list \<times> pagination_meta"

section \<open>Configuration\<close>

record api_config =
  ac_database_url :: string
  ac_host :: string
  ac_port :: nat
  ac_max_db_connections :: nat
  ac_admin_api_key :: string

definition parse_unsigned :: "nat \<Rightarrow> string \<Rightarrow> nat option" where
  "parse_unsigned bits s = from_str_radix bits 10 s"

definition from_env_with :: "(string \<Rightarrow> string option) \<Rightarrow> string + api_config" where
  "from_env_with get =
     (case get ''DATABASE_URL'' of
        Some url \<Rightarrow>
          if trim url = [] then Inl ''DATABASE_URL environment variable is required''
          else (case get ''AMARILLO_ADMIN_API_KEY'' of
             Some v \<Rightarrow>
               if trim v = [] then Inl ''AMARILLO_ADMIN_API_KEY environment variable is required (S16/M006/D023, no silent default)''
               else Inr \<lparr>ac_database_url = url, ac_host = unwrap_or (get ''API_HOST'') ''0.0.0.0'',
                 ac_port = unwrap_or (Option.bind (get ''API_PORT'') (parse_unsigned 16)) 3000,
                 ac_max_db_connections = unwrap_or (Option.bind (get ''MAX_DB_CONNECTIONS'') (parse_unsigned 32)) 10,
                 ac_admin_api_key = trim v\<rparr>
           | None \<Rightarrow> Inl ''AMARILLO_ADMIN_API_KEY environment variable is required (S16/M006/D023, no silent default)'')
      | None \<Rightarrow> Inl ''DATABASE_URL environment variable is required'')"

text \<open>The masked debug form, field by field.\<close>

definition debug_fields :: "api_config \<Rightarrow> (string \<times> string) list" where
  "debug_fields c =
     [(''database_url'', ''***''), (''host'', ac_host c), (''port'', show_nat (ac_port c)),
      (''max_db_connections'', show_nat (ac_max_db_connections c)), (''admin_api_key'', ''***'')]"

section \<open>Authentication\<close>

record auth_ext =
  header_to_str :: "string \<Rightarrow> string option"
  ct_eq :: "string \<Rightarrow> string \<Rightarrow> bool"

definition BEARER_PREFIX :: string where
  "BEARER_PREFIX = ''Bearer ''"

definition admin_auth :: "auth_ext \<Rightarrow> string \<Rightarrow> string option \<Rightarrow> api_error + unit" where
  "admin_auth A admin_api_key authorization =
     (case authorization of
        None \<Rightarrow> Inl ApiUnauthorized
      | Some header \<Rightarrow>
          (case header_to_str A header of
             None \<Rightarrow> Inl ApiUnauthorized
           | Some value \<Rightarrow>
               (case strip_prefix BEARER_PREFIX value of
                  None \<Rightarrow> Inl ApiUnauthorized
                | Some token \<Rightarrow> if ct_eq A token admin_api_key then Inr () else Inl ApiUnauthorized)))"

text \<open>A handler with an \<^verbatim>\<open>AdminAuth\<close> parameter runs only after the extractor succeeded.\<close>

definition guarded :: "auth_ext \<Rightarrow> string \<Rightarrow> string option \<Rightarrow> 'a handler \<Rightarrow> 'a handler" where
  "guarded A key authorization h =
     (case admin_auth A key authorization of Inl e \<Rightarrow> answer (Inl e) | Inr _ \<Rightarrow> h)"

section \<open>Pagination\<close>

definition page_limit :: "i64 option \<Rightarrow> i64" where
  "page_limit limit = clamp (unwrap_or limit 20) 1 100"

definition page_offset :: "i64 option \<Rightarrow> i64" where
  "page_offset offset = max (unwrap_or offset 0) 0"

definition paginated :: "i64 \<Rightarrow> i64 \<Rightarrow> 'a list stmt \<Rightarrow> 'a paginated handler" where
  "paginated limit offset q =
     and_then (ask q) (\<lambda>rows. answer (Inr (rows, \<lparr>pi_limit = limit, pi_offset = offset, pi_count = int (length rows)\<rparr>)))"

section \<open>Blocks, pools, tokens and swaps\<close>

definition get_latest_block :: "i64 option handler" where
  "get_latest_block = ask get_latest_block_number"

definition get_block :: "i64 \<Rightarrow> block_row handler" where
  "get_block number = ask (get_block_by_number number)"

definition api_list_pools :: "i64 option \<Rightarrow> i64 option \<Rightarrow> pool_row paginated handler" where
  "api_list_pools limit offset =
     paginated (page_limit limit) (page_offset offset) (list_pools (page_limit limit) (page_offset offset))"

definition get_pool :: "string \<Rightarrow> pool_row handler" where
  "get_pool address = ask (get_pool_by_address address)"

definition api_list_tokens :: "i64 option \<Rightarrow> i64 option \<Rightarrow> token_row paginated handler" where
  "api_list_tokens limit offset =
     paginated (page_limit limit) (page_offset offset) (list_tokens (page_limit limit) (page_offset offset))"

definition get_token :: "string \<Rightarrow> token_row handler" where
  "get_token address = ask (get_token_by_address address)"

definition list_swaps :: "string option \<Rightarrow> i64 option \<Rightarrow> i64 option \<Rightarrow> swap_event paginated handler" where
  "list_swaps pool_address limit offset =
     paginated (page_limit limit) (page_offset offset)
       (list_swap_events pool_address (page_limit limit) (page_offset offset))"

section \<open>Failed transactions\<close>

definition MAX_CALL_TREE_FRAMES :: i64 where
  "MAX_CALL_TREE_FRAMES = 2000"

definition is_tx_hash :: "string \<Rightarrow> bool" where
  "is_tx_hash s = (case strip_prefix ''0x'' s of Some h \<Rightarrow> length h = 64 \<and> list_all is_ascii_hexdigit h | None \<Rightarrow> False)"

record decoded_function =
  df_selector :: string
  df_name :: string
  df_signature :: string
  df_source :: "string option"
  df_args :: "decoded_arg list option"

definition decoded_function_from :: "function_signature \<Rightarrow> decoded_function" where
  "decoded_function_from fs = \<lparr>df_selector = fs_selector fs, df_name = fs_name fs, df_signature = fs_signature fs,
     df_source = fs_source fs, df_args = None\<rparr>"

record diagnosis =
  di_message :: string
  di_recommended_action :: "string option"
  di_source :: "string option"

definition diagnosis_from :: "category_diagnosis \<Rightarrow> diagnosis" where
  "diagnosis_from c = \<lparr>di_message = cd_message c, di_recommended_action = cd_recommended_action c, di_source = cd_source c\<rparr>"

record failed_tx_detail =
  fd_failed :: failed_transaction
  fd_call_tree :: "trace_log list"
  fd_call_tree_truncated :: bool
  fd_root_cause :: "trace_log option"
  fd_failing_function_decoded :: "decoded_function option"
  fd_root_cause_decoded :: "decoded_function option"
  fd_diagnosis :: "diagnosis option"

definition extract_selector :: "string \<Rightarrow> (string option) rust" where
  "extract_selector input_hex =
     (let stripped = strip_0x input_hex in
      if length stripped < 8 then Return None
      else if is_char_boundary stripped 8 then Return (Some (''0x'' @ to_lowercase (take 8 stripped)))
      else Panic)"

definition with_args :: "'ty dyn_abi \<Rightarrow> function_signature \<Rightarrow> string option \<Rightarrow> decoded_function" where
  "with_args A fs input =
     (case input of
        None \<Rightarrow> decoded_function_from fs
      | Some i \<Rightarrow> (case decode_args A (fs_signature fs) i of
          Inr args \<Rightarrow> (decoded_function_from fs)\<lparr>df_args := Some args\<rparr>
        | Inl _ \<Rightarrow> decoded_function_from fs))"

definition failing_function_of :: "'ty dyn_abi \<Rightarrow> failed_transaction \<Rightarrow> trace_log list \<Rightarrow> decoded_function option handler" where
  "failing_function_of A failed call_tree =
     (case f_failing_function failed of
        None \<Rightarrow> answer (Inr None)
      | Some selector \<Rightarrow>
          and_then (ask (get_function_signature selector)) (\<lambda>r. answer (Inr (map_option (\<lambda>fs.
            with_args A fs (Option.bind (find (\<lambda>f. g_call_depth f = 0) call_tree) g_input)) r))))"

text \<open>A selector that would be cut inside a character panics; the panic answers nothing.\<close>

definition root_cause_of :: "'ty dyn_abi \<Rightarrow> trace_log option \<Rightarrow> (decoded_function option handler) rust" where
  "root_cause_of A root_cause =
     (case Option.bind root_cause g_input of
        None \<Rightarrow> Return (answer (Inr None))
      | Some input_hex \<Rightarrow>
          (case extract_selector input_hex of
             Panic \<Rightarrow> Panic
           | Return None \<Rightarrow> Return (answer (Inr None))
           | Return (Some selector) \<Rightarrow>
               Return (and_then (ask (get_function_signature selector))
                 (\<lambda>r. answer (Inr (map_option (\<lambda>fs. with_args A fs (Some input_hex)) r))))))"

definition get_failed_tx :: "'ty dyn_abi \<Rightarrow> string \<Rightarrow> db \<Rightarrow> ((api_error + failed_tx_detail) \<times> db) rust" where
  "get_failed_tx A tx_hash d =
     (if \<not> is_tx_hash tx_hash then
        Return (answer (Inl (ApiBadRequest (''invalid tx_hash (expected 0x + 64 hex): '' @ tx_hash))) d)
      else case ask (get_failed_transaction tx_hash) d of
        (Inl e, d1) \<Rightarrow> Return (Inl e, d1)
      | (Inr failed, d1) \<Rightarrow>
     (case ask (list_trace_logs_by_tx tx_hash (MAX_CALL_TREE_FRAMES + 1)) d1 of
        (Inl e, d2) \<Rightarrow> Return (Inl e, d2)
      | (Inr frames, d2) \<Rightarrow>
     (let truncated = MAX_CALL_TREE_FRAMES < int (length frames);
          call_tree = (if truncated then take (nat MAX_CALL_TREE_FRAMES) frames else frames) in
      case ask (get_first_error_frame tx_hash) d2 of
        (Inl e, d3) \<Rightarrow> Return (Inl e, d3)
      | (Inr root_cause, d3) \<Rightarrow>
     (case failing_function_of A failed call_tree d3 of
        (Inl e, d4) \<Rightarrow> Return (Inl e, d4)
      | (Inr failing, d4) \<Rightarrow>
     (case root_cause_of A root_cause of
        Panic \<Rightarrow> Panic
      | Return h \<Rightarrow>
     (case h d4 of
        (Inl e, d5) \<Rightarrow> Return (Inl e, d5)
      | (Inr cause, d5) \<Rightarrow>
          Return (and_then (ask (get_category_diagnosis (as_wire (f_error_category failed)))) (\<lambda>c. answer (Inr
            \<lparr>fd_failed = failed, fd_call_tree = call_tree, fd_call_tree_truncated = truncated,
             fd_root_cause = root_cause, fd_failing_function_decoded = failing, fd_root_cause_decoded = cause,
             fd_diagnosis = map_option diagnosis_from c\<rparr>)) d5)))))))"

definition parse_ts :: "(string \<Rightarrow> instant option) \<Rightarrow> string option \<Rightarrow> string \<Rightarrow> api_error + instant option" where
  "parse_ts rfc3339 value field =
     (case value of
        None \<Rightarrow> Inr None
      | Some s \<Rightarrow>
          if s = [] then Inr None
          else (case rfc3339 s of
             Some t \<Rightarrow> Inr (Some t)
           | None \<Rightarrow> Inl (ApiBadRequest (''invalid `'' @ field @ ''` timestamp (expected RFC3339): '' @ s))))"

definition parse_category :: "string \<Rightarrow> string option \<Rightarrow> api_error + error_category option" where
  "parse_category field value =
     (case value of
        None \<Rightarrow> Inr None
      | Some s \<Rightarrow>
          if s = [] then Inr None
          else (case ErrorCategory_from_str s of
             Inr c \<Rightarrow> Inr (Some c)
           | Inl _ \<Rightarrow> Inl (ApiBadRequest (''invalid `'' @ field @ ''`: '' @ s))))"

definition list_failed_tx ::
    "(string \<Rightarrow> instant option) \<Rightarrow> string option \<Rightarrow> string option \<Rightarrow> string option \<Rightarrow> i64 option \<Rightarrow> i64 option
     \<Rightarrow> failed_transaction total_paginated handler" where
  "list_failed_tx rfc3339 category from_q to_q limit_q offset_q =
     and_then (answer (parse_category ''category'' category)) (\<lambda>cat.
     and_then (answer (parse_ts rfc3339 from_q ''from'')) (\<lambda>from_t.
     and_then (answer (parse_ts rfc3339 to_q ''to'')) (\<lambda>to_t.
     let limit = clamp (unwrap_or limit_q 20) 1 100; offset = max (unwrap_or offset_q 0) 0 in
     and_then (ask (list_failed_transactions cat from_t to_t limit offset)) (\<lambda>rows.
     and_then (ask (count_failed_transactions cat from_t to_t)) (\<lambda>n.
     answer (Inr (rows, \<lparr>pm_limit = limit, pm_offset = offset, pm_count = int (length rows), pm_total = n\<rparr>)))))))"

definition api_failed_tx_timeseries ::
    "(string \<Rightarrow> instant option) \<Rightarrow> string option \<Rightarrow> string option \<Rightarrow> string option \<Rightarrow> failed_tx_trend_point list handler" where
  "api_failed_tx_timeseries rfc3339 interval from_q to_q =
     and_then (answer (case interval of
         None \<Rightarrow> Inr Day
       | Some s \<Rightarrow> if s = [] then Inr Day
           else (case TimeBucket_from_str s of
             Inr b \<Rightarrow> Inr b | Inl _ \<Rightarrow> Inl (ApiBadRequest (''invalid `interval` (hour|day|week): '' @ s))))) (\<lambda>bucket.
     and_then (answer (parse_ts rfc3339 from_q ''from'')) (\<lambda>from_t.
     and_then (answer (parse_ts rfc3339 to_q ''to'')) (\<lambda>to_t.
     ask (failed_tx_timeseries bucket from_t to_t))))"

definition failed_tx_by_label ::
    "(string \<Rightarrow> instant option) \<Rightarrow> string option \<Rightarrow> string option \<Rightarrow> string option \<Rightarrow> i64 option
     \<Rightarrow> failed_tx_by_label_point list handler" where
  "failed_tx_by_label rfc3339 from_q to_q owner limit_q =
     and_then (answer (parse_ts rfc3339 from_q ''from'')) (\<lambda>from_t.
     and_then (answer (parse_ts rfc3339 to_q ''to'')) (\<lambda>to_t.
     ask (failed_tx_by_label_aggregate (if owner = Some [] then None else owner) from_t to_t
       (clamp (unwrap_or limit_q 50) 1 200))))"

section \<open>Handlers that only read\<close>

definition reads :: "'a handler \<Rightarrow> bool" where
  "reads h \<longleftrightarrow> (\<forall>d. snd (h d) = d)"

named_theorems read_only

lemma readsD: "reads h \<Longrightarrow> h d = (r, d') \<Longrightarrow> d' = d"
  unfolding reads_def by (metis snd_conv)

lemma reads_answer [read_only]: "reads (answer r)"
  by (simp add: reads_def answer_def)

lemma reads_ask_select [read_only]: "reads (ask (select q))"
  by (simp add: reads_def ask_def select_def split: sum.split)

lemma reads_and_then [read_only]: "reads h \<Longrightarrow> (\<And>x. reads (f x)) \<Longrightarrow> reads (and_then h f)"
  unfolding reads_def and_then_def by (auto split: sum.splits prod.splits) (metis snd_conv)+

lemma reads_paginated [read_only]: "reads (ask q) \<Longrightarrow> reads (paginated l k q)"
  unfolding paginated_def by (intro read_only)

lemma reads_option [read_only]: "reads a \<Longrightarrow> (\<And>x. reads (b x)) \<Longrightarrow> reads (case_option a b x)"
  by (cases x) auto

lemmas select_query_defs = list_pools_def get_pool_by_address_def list_tokens_def get_token_by_address_def list_swap_events_def
  get_failed_transaction_def list_trace_logs_by_tx_def get_first_error_frame_def list_failed_transactions_def
  count_failed_transactions_def failed_tx_timeseries_def get_category_diagnosis_def get_function_signature_def
  failed_tx_by_label_aggregate_def

lemma reads_block_queries [read_only]: "reads (ask get_latest_block_number)" "reads (ask (get_block_by_number n))"
  by (auto simp: reads_def ask_def get_latest_block_number_def get_block_by_number_def split: option.splits)

lemma reads_queries [read_only]:
  "reads (ask (list_pools l k))" "reads (ask (get_pool_by_address s))" "reads (ask (list_tokens l k))"
  "reads (ask (get_token_by_address s))" "reads (ask (list_swap_events w l k))" "reads (ask (get_failed_transaction s))"
  "reads (ask (list_trace_logs_by_tx s l))" "reads (ask (get_first_error_frame s))"
  "reads (ask (list_failed_transactions c f t l k))" "reads (ask (count_failed_transactions c f t))"
  "reads (ask (failed_tx_timeseries b f t))" "reads (ask (get_category_diagnosis s))"
  "reads (ask (get_function_signature s))" "reads (ask (failed_tx_by_label_aggregate w f t l))"
  unfolding select_query_defs by (rule reads_ask_select)+

lemma reads_public_handlers [read_only]:
  "reads get_latest_block" "reads (get_block n)" "reads (api_list_pools l k)" "reads (get_pool s)"
  "reads (api_list_tokens l k)" "reads (get_token s)" "reads (list_swaps w l k)"
  "reads (list_failed_tx p c f t l k)" "reads (api_failed_tx_timeseries p i f t)" "reads (failed_tx_by_label p f t w l)"
  unfolding get_latest_block_def get_block_def api_list_pools_def get_pool_def api_list_tokens_def get_token_def
    list_swaps_def list_failed_tx_def api_failed_tx_timeseries_def failed_tx_by_label_def Let_def
  by (intro read_only)+

lemma reads_failing_function_of [read_only]: "reads (failing_function_of A f t)"
  unfolding failing_function_of_def by (intro read_only)

lemma reads_root_cause_of: "root_cause_of A c = Return h \<Longrightarrow> reads h"
  unfolding root_cause_of_def by (auto split: option.splits rust.splits intro!: read_only)

lemma get_failed_tx_reads:
  assumes "get_failed_tx A tx d = Return (r, d')"
  shows "d' = d"
proof -
  note reads = readsD [OF reads_queries(6)] readsD [OF reads_queries(7)] readsD [OF reads_queries(8)]
    readsD [OF reads_failing_function_of] readsD [OF reads_root_cause_of]
  have diag: "reads (and_then (ask (get_category_diagnosis w)) (\<lambda>c. answer (f c)))" for w f
    by (intro read_only)
  show ?thesis
    using assms unfolding get_failed_tx_def
    by (auto simp: answer_def Let_def split: if_splits prod.splits sum.splits rust.splits
        dest!: reads dest: readsD [OF diag])
qed

section \<open>The detail page\<close>

text \<open>The frames of a transaction in the order they were stored.\<close>

definition frames_of :: "string \<Rightarrow> db \<Rightarrow> trace_log list" where
  "frames_of tx d = sort_key g_trace_id (filter (\<lambda>g. g_tx_hash g = tx) (trace_logs d))"

definition signature_for :: "string \<Rightarrow> db \<Rightarrow> function_signature option" where
  "signature_for sel d = find (\<lambda>s. fs_selector s = to_lowercase sel) (function_signatures d)"

lemma ask_select [simp]: "ask (select (\<lambda>d. Inr (q d))) d = (Inr (q d), d)"
  by (simp add: ask_def)

lemma ask_frames: "ask (list_trace_logs_by_tx tx 2001) d = (Inr (take 2001 (frames_of tx d)), d)"
  by (simp add: ask_def list_trace_logs_by_tx_def select_def pg_limit_def frames_of_def)

lemma ask_first_error:
  "ask (get_first_error_frame tx) d = (Inr (find (\<lambda>g. g_error g \<noteq> None) (frames_of tx d)), d)"
proof -
  have "sort_key g_trace_id (filter (\<lambda>g. g_tx_hash g = tx \<and> g_error g \<noteq> None) (trace_logs d)) =
      filter (\<lambda>g. g_error g \<noteq> None) (frames_of tx d)"
    by (simp add: frames_of_def filter_sort conj_commute)
  then show ?thesis by (simp add: get_first_error_frame_def find_first)
qed

lemma ask_signature: "ask (get_function_signature sel) d = (Inr (signature_for sel d), d)"
  by (simp add: get_function_signature_def signature_for_def)

lemma failing_function_of_eq:
  "failing_function_of A f t d =
     (Inr (Option.bind (f_failing_function f) (\<lambda>sel. map_option (\<lambda>fs.
        with_args A fs (Option.bind (find (\<lambda>g. g_call_depth g = 0) t) g_input)) (signature_for sel d))), d)"
  by (simp add: failing_function_of_def and_then_def ask_signature answer_def split: option.split)

lemma root_cause_of_eq:
  assumes "\<forall>g i. c = Some g \<and> g_input g = Some i \<longrightarrow> extract_selector i \<noteq> Panic"
  shows "\<exists>h. root_cause_of A c = Return h \<and> h d =
     (Inr (Option.bind (Option.bind c g_input) (\<lambda>i. if length (strip_0x i) < 8 then None
        else map_option (\<lambda>fs. with_args A fs (Some i)) (signature_for (''0x'' @ take 8 (strip_0x i)) d))), d)"
proof (cases "Option.bind c g_input")
  case None
  then show ?thesis by (simp add: root_cause_of_def answer_def)
next
  case (Some i)
  then obtain g where g: "c = Some g" "g_input g = Some i" by (auto simp: bind_eq_Some_conv)
  have "to_lowercase (''0x'' @ to_lowercase s) = to_lowercase (''0x'' @ s)" for s
    unfolding to_lowercase_append to_lowercase_idem ..
  then have low: "signature_for (''0x'' @ to_lowercase s) d = signature_for (''0x'' @ s) d" for s
    unfolding signature_for_def by metis
  have "extract_selector i = Return (if length (strip_0x i) < 8 then None else Some (''0x'' @ to_lowercase (take 8 (strip_0x i))))"
    using assms g by (auto simp: extract_selector_def Let_def split: if_splits)
  then show ?thesis using Some low [of "take 8 (strip_0x i)"]
    by (simp add: root_cause_of_def and_then_def ask_signature answer_def)
qed

lemma find_in_set: "find P xs = Some x \<Longrightarrow> x \<in> set xs \<and> P x"
  by (auto simp: find_Some_iff)

lemma extract_selector_ascii: "list_all (\<lambda>c. (of_char c :: nat) < 128) i \<Longrightarrow> extract_selector i \<noteq> Panic"
proof -
  assume "list_all (\<lambda>c. (of_char c :: nat) < 128) i"
  then have "list_all (\<lambda>c. (of_char c :: nat) < 128) (strip_0x i)"
    by (auto simp: strip_0x_def strip_prefix_def list_all_iff split: option.splits if_splits dest: in_set_dropD)
  then have "8 < length (strip_0x i) \<longrightarrow> (of_char (strip_0x i ! 8) :: nat) < 128" by (simp add: list_all_length)
  then show ?thesis by (auto simp: extract_selector_def is_char_boundary_def Let_def)
qed

lemma df_signature_with_args [simp]: "df_signature (with_args A fs i) = fs_signature fs"
  by (simp add: with_args_def decoded_function_from_def split: option.split sum.split)

lemma df_signature_bind:
  "map_option df_signature (Option.bind x (\<lambda>s. map_option (\<lambda>fs. with_args A fs (i s)) (g s))) = Option.bind x (\<lambda>s. map_option fs_signature (g s))"
  "map_option df_signature (Option.bind x (\<lambda>s. if P s then None else map_option (\<lambda>fs. with_args A fs (i s)) (g s))) =
     Option.bind x (\<lambda>s. if P s then None else map_option fs_signature (g s))"
  by (cases x; simp add: option.map_comp comp_def)+

lemma get_failed_tx_found:
  assumes "is_tx_hash tx" "ask (get_failed_transaction tx) d = (Inr f, d)"
    and "cause = find (\<lambda>g. g_error g \<noteq> None) (frames_of tx d)"
    and "root_cause_of A cause = Return h" "h d = (Inr dc, d)"
  shows "get_failed_tx A tx d = Return (Inr \<lparr>fd_failed = f, fd_call_tree = take 2000 (frames_of tx d),
     fd_call_tree_truncated = (2000 < length (frames_of tx d)), fd_root_cause = cause,
     fd_failing_function_decoded = Option.bind (f_failing_function f) (\<lambda>sel. map_option (\<lambda>fs.
        with_args A fs (Option.bind (find (\<lambda>g. g_call_depth g = 0) (take 2000 (frames_of tx d))) g_input)) (signature_for sel d)),
     fd_root_cause_decoded = dc,
     fd_diagnosis = map_option diagnosis_from
       (find (\<lambda>c. cd_error_category c = as_wire (f_error_category f)) (category_diagnoses d))\<rparr>, d)"
proof -
  have t: "MAX_CALL_TREE_FRAMES < int (length (take 2001 fs)) \<longleftrightarrow> 2000 < length fs"
    "(if 2000 < length fs then take (nat MAX_CALL_TREE_FRAMES) (take 2001 fs) else take 2001 fs) = take 2000 fs" for fs :: "trace_log list"
    by (auto simp: MAX_CALL_TREE_FRAMES_def)
  note first = ask_first_error [of tx d, folded assms(3)]
  have q: "ask (list_trace_logs_by_tx tx (MAX_CALL_TREE_FRAMES + 1)) d = (Inr (take 2001 (frames_of tx d)), d)"
    using ask_frames by (simp add: MAX_CALL_TREE_FRAMES_def)
  show ?thesis
    unfolding get_failed_tx_def Let_def
    by (simp only: assms(1,2,4,5) q t first prod.case sum.case rust.case failing_function_of_eq
        not_True_eq_False if_False and_then_def get_category_diagnosis_def ask_select answer_def)
qed

text \<open>C40: the detail page of a failed transaction.  A malformed hash answers 400 and an unknown one 404.
  For a stored failure whose recorded inputs are ASCII (they are hexadecimal) the page is always produced:
  it holds the first 2000 frames in call order and says whether frames were left out; the root cause is the
  first frame with an error even when it lies behind the cut; the functions come from the registered
  signatures of the failing selector and of the first four bytes of the root cause's input, looked up in
  any letter case; the diagnosis is the one of the failure's category.  Nothing is written.\<close>

theorem failed_tx_detail_complete:
  assumes "\<forall>g \<in> set (trace_logs d). opt_ok (list_all (\<lambda>c. (of_char c :: nat) < 128)) (g_input g)"
  shows "(\<not> is_tx_hash tx \<longrightarrow>
       get_failed_tx A tx d = Return (Inl (ApiBadRequest (''invalid tx_hash (expected 0x + 64 hex): '' @ tx)), d))
   \<and> (is_tx_hash tx \<and> (\<forall>f \<in> set (failed_transactions d). f_tx_hash f \<noteq> tx) \<longrightarrow>
       get_failed_tx A tx d = Return (Inl (ApiNotFound (''failed transaction '' @ tx)), d))
   \<and> (is_tx_hash tx \<and> (\<exists>f \<in> set (failed_transactions d). f_tx_hash f = tx) \<longrightarrow>
       (\<exists>det. get_failed_tx A tx d = Return (Inr det, d)
          \<and> fd_failed det \<in> set (failed_transactions d) \<and> f_tx_hash (fd_failed det) = tx
          \<and> fd_call_tree det = take 2000 (frames_of tx d)
          \<and> (fd_call_tree_truncated det \<longleftrightarrow> 2000 < length (frames_of tx d))
          \<and> fd_root_cause det = find (\<lambda>g. g_error g \<noteq> None) (frames_of tx d)
          \<and> map_option df_signature (fd_failing_function_decoded det) =
              Option.bind (f_failing_function (fd_failed det)) (\<lambda>sel. map_option fs_signature (signature_for sel d))
          \<and> map_option df_signature (fd_root_cause_decoded det) =
              Option.bind (Option.bind (fd_root_cause det) g_input) (\<lambda>i. if length (strip_0x i) < 8 then None
                else map_option fs_signature (signature_for (''0x'' @ take 8 (strip_0x i)) d))
          \<and> fd_diagnosis det = map_option diagnosis_from
              (find (\<lambda>c. cd_error_category c = as_wire (f_error_category (fd_failed det))) (category_diagnoses d))))"
proof (cases "is_tx_hash tx")
  case False
  then show ?thesis by (simp add: get_failed_tx_def answer_def)
next
  case hash: True
  let ?page = "\<lambda>det. fd_failed det \<in> set (failed_transactions d) \<and> f_tx_hash (fd_failed det) = tx
          \<and> fd_call_tree det = take 2000 (frames_of tx d)
          \<and> (fd_call_tree_truncated det \<longleftrightarrow> 2000 < length (frames_of tx d))
          \<and> fd_root_cause det = find (\<lambda>g. g_error g \<noteq> None) (frames_of tx d)
          \<and> map_option df_signature (fd_failing_function_decoded det) =
              Option.bind (f_failing_function (fd_failed det)) (\<lambda>sel. map_option fs_signature (signature_for sel d))
          \<and> map_option df_signature (fd_root_cause_decoded det) =
              Option.bind (Option.bind (fd_root_cause det) g_input) (\<lambda>i. if length (strip_0x i) < 8 then None
                else map_option fs_signature (signature_for (''0x'' @ take 8 (strip_0x i)) d))
          \<and> fd_diagnosis det = map_option diagnosis_from
              (find (\<lambda>c. cd_error_category c = as_wire (f_error_category (fd_failed det))) (category_diagnoses d))"
  show ?thesis
  proof (cases "find (\<lambda>f. f_tx_hash f = tx) (failed_transactions d)")
    case None
    then have none: "\<forall>f \<in> set (failed_transactions d). f_tx_hash f \<noteq> tx" by (auto simp: find_None_iff)
    have "get_failed_tx A tx d = Return (Inl (ApiNotFound (''failed transaction '' @ tx)), d)"
      using hash None by (simp add: get_failed_tx_def ask_def get_failed_transaction_def select_def row_or_not_found_def)
    with hash none show ?thesis by blast
  next
    case (Some f)
    then have f: "f \<in> set (failed_transactions d)" "f_tx_hash f = tx" by (auto simp: find_Some_iff)
    have row: "ask (get_failed_transaction tx) d = (Inr f, d)"
      using Some by (simp add: ask_def get_failed_transaction_def select_def row_or_not_found_def)
    define cause where "cause = find (\<lambda>g. g_error g \<noteq> None) (frames_of tx d)"
    have "extract_selector i \<noteq> Panic" if "cause = Some g" "g_input g = Some i" for g i
    proof -
      have "g \<in> set (trace_logs d)" using find_in_set [OF that(1) [unfolded cause_def]] by (simp add: frames_of_def)
      then show ?thesis using assms that(2) by (auto simp: opt_ok_def intro!: extract_selector_ascii)
    qed
    then have "\<forall>g i. cause = Some g \<and> g_input g = Some i \<longrightarrow> extract_selector i \<noteq> Panic" by blast
    from root_cause_of_eq [OF this, of A d] obtain h where h: "root_cause_of A cause = Return h" and hd: "h d =
        (Inr (Option.bind (Option.bind cause g_input) (\<lambda>i. if length (strip_0x i) < 8 then None
           else map_option (\<lambda>fs. with_args A fs (Some i)) (signature_for (''0x'' @ take 8 (strip_0x i)) d))), d)" by blast
    have "\<exists>det. get_failed_tx A tx d = Return (Inr det, d) \<and> ?page det"
      by (rule exI, rule conjI, rule get_failed_tx_found [OF hash row cause_def h hd]) (simp add: f cause_def df_signature_bind del: bind_assoc)
    with f hash show ?thesis by blast
  qed
qed

definition detail_hash :: string where
  "detail_hash = ''0x'' @ replicate 64 (CHR ''1'')"

definition detail_db :: db where
  "detail_db = empty_db\<lparr>failed_transactions := [(sample_failed detail_hash)\<lparr>f_failing_function := Some ''0xABCDEF01''\<rparr>],
     trace_logs := map (\<lambda>g. g\<lparr>g_tx_hash := detail_hash, g_input := Some ''0xabcdef0100''\<rparr>) [sample_frame None, sample_frame (Some ''reverted'')],
     function_signatures := [\<lparr>fs_selector = ''0xabcdef01'', fs_name = ''f'', fs_signature = ''f()'', fs_source = None, fs_created_at = 0\<rparr>]\<rparr>"

theorem failed_tx_detail_complete_witness:
  "\<exists>det. get_failed_tx sample_abi detail_hash detail_db = Return (Inr det, detail_db) \<and> \<not> fd_call_tree_truncated det
     \<and> map_option df_signature (fd_failing_function_decoded det) = Some ''f()''"
proof -
  have a: "\<forall>g \<in> set (trace_logs detail_db). opt_ok (list_all (\<lambda>c. (of_char c :: nat) < 128)) (g_input g)"
    by (simp add: detail_db_def opt_ok_def)
  have h: "is_tx_hash detail_hash" by (simp add: is_tx_hash_def detail_hash_def strip_prefix_def list_all_iff is_ascii_hexdigit_def digit_value_def)
  have s: "to_lowercase ''0xABCDEF01'' = ''0xabcdef01''" by code_simp
  have f: "\<exists>f \<in> set (failed_transactions detail_db). f_tx_hash f = detail_hash"
    by (simp add: detail_db_def sample_failed_def)
  have l: "\<not> 2000 < length (frames_of detail_hash detail_db)" by (simp add: frames_of_def detail_db_def)
  have g: "f \<in> set (failed_transactions detail_db) \<Longrightarrow>
      Option.bind (f_failing_function f) (\<lambda>sel. map_option fs_signature (signature_for sel detail_db)) = Some ''f()''" for f
    by (simp add: detail_db_def signature_for_def s)
  show ?thesis
    using failed_tx_detail_complete [OF a, of detail_hash sample_abi] h f l g by auto
qed

end
