(* ===== verification/Admin.thy ===== *)
theory Admin
  imports Api Dispatch
begin

text \<open>
  The administrative routes (\<^verbatim>\<open>crates/api/src/routes/alerts.rs\<close> and \<^verbatim>\<open>contract_labels.rs\<close>):
  creating, listing, deactivating and re-keying alert subscriptions, and registering and deleting contract
  labels.  The handlers that write sit behind the key check.  Each call of the operating system's random
  generator is an argument: the bytes it filled the buffer with, or \<open>None\<close> when it failed.
\<close>

section \<open>Alert subscriptions\<close>

definition MAX_WEBHOOK_URL_LEN :: nat where
  "MAX_WEBHOOK_URL_LEN = 2048"

definition DEFAULT_LIST_LIMIT :: i64 where
  "DEFAULT_LIST_LIMIT = 100"

definition MAX_LIST_LIMIT :: i64 where
  "MAX_LIST_LIMIT = 500"

definition SECRET_BYTES :: nat where
  "SECRET_BYTES = 32"

definition ADDR_HEX_LEN :: nat where
  "ADDR_HEX_LEN = 40"

record create_body =
  cb_webhook_url :: string
  cb_error_category :: "string option"
  cb_to_addr :: "string option"
  cb_sub_type :: "string option"
  cb_threshold_count :: "i32 option"
  cb_threshold_window_secs :: "i32 option"
  cb_debounce_secs :: "i32 option"

record alert_subscription_created =
  sc_subscription_id :: i64
  sc_error_category :: "error_category option"
  sc_to_addr :: "string option"
  sc_webhook_url :: string
  sc_signing_secret :: string
  sc_active :: bool
  sc_created_at :: instant
  sc_sub_type :: string
  sc_threshold_count :: "i32 option"
  sc_threshold_window_secs :: "i32 option"
  sc_debounce_secs :: "i32 option"

definition created_from :: "alert_subscription \<Rightarrow> alert_subscription_created" where
  "created_from s = \<lparr>sc_subscription_id = a_subscription_id s, sc_error_category = a_error_category s,
     sc_to_addr = a_to_addr s, sc_webhook_url = a_webhook_url s, sc_signing_secret = a_signing_secret s,
     sc_active = a_active s, sc_created_at = a_created_at s, sc_sub_type = a_sub_type s,
     sc_threshold_count = a_threshold_count s, sc_threshold_window_secs = a_threshold_window_secs s,
     sc_debounce_secs = a_debounce_secs s\<rparr>"

text \<open>What the derived serialisation writes of a listed subscription: every field but the secret.  The
  category has its constructor's name, the time the form the \<^verbatim>\<open>chrono\<close> crate gives it.\<close>

definition json_opt :: "('a \<Rightarrow> json) \<Rightarrow> 'a option \<Rightarrow> json" where
  "json_opt f x = (case x of None \<Rightarrow> JNull | Some y \<Rightarrow> f y)"

definition json_int :: "int \<Rightarrow> json" where
  "json_int n = JNumber (show_int n)"

fun variant_name :: "error_category \<Rightarrow> string" where
  "variant_name InsufficientBalance = ''InsufficientBalance''"
| "variant_name InsufficientAllowance = ''InsufficientAllowance''"
| "variant_name SlippageExceeded = ''SlippageExceeded''"
| "variant_name SlippageAmountOut = ''SlippageAmountOut''"
| "variant_name SlippageAmountIn = ''SlippageAmountIn''"
| "variant_name SlippagePriceImpact = ''SlippagePriceImpact''"
| "variant_name DeadlineExpired = ''DeadlineExpired''"
| "variant_name Unauthorized = ''Unauthorized''"
| "variant_name TransferFailed = ''TransferFailed''"
| "variant_name Unknown = ''Unknown''"

definition subscription_json :: "(instant \<Rightarrow> string) \<Rightarrow> alert_subscription \<Rightarrow> json" where
  "subscription_json chrono s = JObject
     [(''subscription_id'', json_int (a_subscription_id s)),
      (''error_category'', json_opt (\<lambda>c. JString (variant_name c)) (a_error_category s)),
      (''to_addr'', json_opt JString (a_to_addr s)), (''webhook_url'', JString (a_webhook_url s)),
      (''active'', JBool (a_active s)), (''created_at'', JString (chrono (a_created_at s))),
      (''sub_type'', JString (a_sub_type s)), (''threshold_count'', json_opt json_int (a_threshold_count s)),
      (''threshold_window_secs'', json_opt json_int (a_threshold_window_secs s)),
      (''debounce_secs'', json_opt json_int (a_debounce_secs s))]"

definition api_response :: "json \<Rightarrow> json" where
  "api_response data = JObject [(''data'', data)]"

definition generate_signing_secret :: "(byte list \<Rightarrow> string) \<Rightarrow> byte list option \<Rightarrow> api_error + string" where
  "generate_signing_secret hex random =
     (case random of None \<Rightarrow> Inl (ApiInternal ''rng unavailable'') | Some buf \<Rightarrow> Inr (hex buf))"

definition is_evm_address :: "string \<Rightarrow> bool" where
  "is_evm_address s =
     (case strip_prefix ''0x'' s of Some h \<Rightarrow> length h = ADDR_HEX_LEN \<and> list_all is_ascii_hexdigit h | None \<Rightarrow> False)"

definition parse_to_addr :: "string option \<Rightarrow> api_error + string option" where
  "parse_to_addr to_addr =
     (case to_addr of
        None \<Rightarrow> Inr None
      | Some s \<Rightarrow>
          if s = [] then Inr None
          else if \<not> is_evm_address (to_lowercase s)
          then Inl (ApiBadRequest (''invalid `to_addr` (expected 0x + 40 hex): '' @ s))
          else Inr (Some (to_lowercase s)))"

definition parse_sub_type :: "string option \<Rightarrow> api_error + string" where
  "parse_sub_type sub_type =
     (case sub_type of
        None \<Rightarrow> Inr ''per_event''
      | Some s \<Rightarrow>
          if s = [] \<or> s = ''per_event'' then Inr ''per_event''
          else if s = ''rate_threshold'' then Inr ''rate_threshold''
          else Inl (ApiBadRequest (''invalid `sub_type` (expected 'per_event' or 'rate_threshold'): '' @ s)))"

definition required :: "string \<Rightarrow> 'a option \<Rightarrow> api_error + 'a" where
  "required msg x = (case x of None \<Rightarrow> Inl (ApiBadRequest msg) | Some y \<Rightarrow> Inr y)"

definition check_that :: "bool \<Rightarrow> string \<Rightarrow> api_error + unit" where
  "check_that b msg = (if b then Inr () else Inl (ApiBadRequest msg))"

definition store_per_event ::
    "instant \<Rightarrow> create_body \<Rightarrow> error_category option \<Rightarrow> string option \<Rightarrow> string \<Rightarrow> alert_subscription handler" where
  "store_per_event now body category to_addr secret =
     (if cb_threshold_count body \<noteq> None \<or> cb_threshold_window_secs body \<noteq> None \<or> cb_debounce_secs body \<noteq> None
      then answer (Inl (ApiBadRequest
        ''per_event sub_type must not carry threshold_count / threshold_window_secs / debounce_secs''))
      else ask (insert_alert_subscription now category to_addr (cb_webhook_url body) secret))"

definition store_rate ::
    "instant \<Rightarrow> create_body \<Rightarrow> error_category option \<Rightarrow> string option \<Rightarrow> string \<Rightarrow> alert_subscription handler" where
  "store_rate now body category to_addr secret =
     and_then (answer (required ''rate_threshold requires `threshold_count` (> 0)'' (cb_threshold_count body))) (\<lambda>c.
     and_then (answer (required ''rate_threshold requires `threshold_window_secs` (> 0)'' (cb_threshold_window_secs body))) (\<lambda>w.
     and_then (answer (required ''rate_threshold requires `debounce_secs` (>= 0)'' (cb_debounce_secs body))) (\<lambda>b.
     and_then (answer (check_that (0 < c) (''`threshold_count` must be > 0; got '' @ show_int c))) (\<lambda>_.
     and_then (answer (check_that (0 < w) (''`threshold_window_secs` must be > 0; got '' @ show_int w))) (\<lambda>_.
     and_then (answer (check_that (0 \<le> b) (''`debounce_secs` must be >= 0; got '' @ show_int b))) (\<lambda>_.
     ask (insert_alert_subscription_rate now category to_addr (cb_webhook_url body) secret c w b)))))))"

definition create_alert_subscription ::
    "url_parser \<Rightarrow> (byte list \<Rightarrow> string) \<Rightarrow> byte list option \<Rightarrow> instant \<Rightarrow> create_body
     \<Rightarrow> (nat \<times> alert_subscription_created) handler" where
  "create_alert_subscription url_parse hex random now body =
     and_then (answer (check_that (length (cb_webhook_url body) \<le> MAX_WEBHOOK_URL_LEN) ''webhook_url too long (max 2048)'')) (\<lambda>_.
     and_then (answer (case webhook_url_is_safe url_parse (cb_webhook_url body) of
         Inl reason \<Rightarrow> Inl (ApiBadRequest (''unsafe webhook_url: '' @ reason_debug reason)) | Inr u \<Rightarrow> Inr u)) (\<lambda>_.
     and_then (answer (parse_category ''error_category'' (cb_error_category body))) (\<lambda>category.
     and_then (answer (parse_to_addr (cb_to_addr body))) (\<lambda>to_addr.
     and_then (answer (parse_sub_type (cb_sub_type body))) (\<lambda>sub_type.
     and_then (answer (generate_signing_secret hex random)) (\<lambda>secret.
     and_then (if sub_type = ''per_event'' then store_per_event now body category to_addr secret
               else store_rate now body category to_addr secret) (\<lambda>row.
     answer (Inr (201, created_from row)))))))))"

definition api_list_alert_subscriptions :: "i64 option \<Rightarrow> alert_subscription list handler" where
  "api_list_alert_subscriptions limit = ask (list_alert_subscriptions (clamp (unwrap_or limit DEFAULT_LIST_LIMIT) 1 MAX_LIST_LIMIT))"

definition api_deactivate_alert_subscription :: "i64 \<Rightarrow> nat handler" where
  "api_deactivate_alert_subscription i =
     and_then (ask (deactivate_alert_subscription i)) (\<lambda>affected. answer
       (if affected = 0 then Inl (ApiNotFound (''alert subscription '' @ show_int i @ '' (not found or already inactive)''))
        else Inr 204))"

text \<open>The message holds a dash outside ASCII: the three bytes of its UTF-8 form.\<close>

definition api_rotate_alert_subscription_secret ::
    "(byte list \<Rightarrow> string) \<Rightarrow> byte list option \<Rightarrow> i64 \<Rightarrow> alert_subscription_created handler" where
  "api_rotate_alert_subscription_secret hex random i =
     and_then (answer (generate_signing_secret hex random)) (\<lambda>secret.
     and_then (ask (rotate_alert_subscription_secret i secret)) (\<lambda>r.
     answer (case r of
         None \<Rightarrow> Inl (ApiNotFound (''alert subscription '' @ show_int i @ '' (not found or inactive ''
                    @ [CHR 0xE2, CHR 0x80, CHR 0x94] @ '' cannot rotate)''))
       | Some row \<Rightarrow> Inr (created_from row))))"

section \<open>Contract labels\<close>

definition MAX_LABEL_LEN :: nat where
  "MAX_LABEL_LEN = 100"

definition MAX_OWNER_ID_LEN :: nat where
  "MAX_OWNER_ID_LEN = 100"

record create_label_body =
  lb_address :: string
  lb_label :: string
  lb_owner_id :: "string option"

definition normal_owner :: "string option \<Rightarrow> string option" where
  "normal_owner owner = Option.bind owner (\<lambda>s. if trim s = [] then None else Some (trim s))"

definition create_contract_label :: "instant \<Rightarrow> create_label_body \<Rightarrow> (nat \<times> contract_label) handler" where
  "create_contract_label now body =
     (let address = to_lowercase (trim (lb_address body)); label = trim (lb_label body); owner = normal_owner (lb_owner_id body) in
      and_then (answer (check_that (is_evm_address address) (''invalid `address` (expected 0x + 40 hex): '' @ lb_address body))) (\<lambda>_.
      and_then (answer (check_that (label \<noteq> []) ''`label` must be non-empty'')) (\<lambda>_.
      and_then (answer (check_that (length label \<le> MAX_LABEL_LEN) ''`label` too long (max 100 bytes)'')) (\<lambda>_.
      and_then (answer (check_that (case owner of None \<Rightarrow> True | Some w \<Rightarrow> length w \<le> MAX_OWNER_ID_LEN)
          ''`owner_id` too long (max 100 bytes)'')) (\<lambda>_.
      and_then (ask (upsert_contract_label now address label owner)) (\<lambda>row. answer (Inr (201, row))))))))"

definition api_delete_contract_label :: "string \<Rightarrow> nat handler" where
  "api_delete_contract_label address =
     (let lower = to_lowercase (trim address) in
      and_then (answer (check_that (is_evm_address lower) (''invalid `address` (expected 0x + 40 hex): '' @ address))) (\<lambda>_.
      and_then (ask (delete_contract_label lower)) (\<lambda>affected.
      answer (if affected = 0 then Inl (ApiNotFound (''contract_label '' @ lower @ '' (not found)'')) else Inr 204))))"

section \<open>Creating a subscription\<close>

lemma answer_eq [simp]: "answer r d = (r', d') \<longleftrightarrow> r = r' \<and> d' = d"
  by (auto simp: answer_def)

lemma and_then_answer:
  "and_then (answer r) f d = (case r of Inl e \<Rightarrow> (Inl e, d) | Inr x \<Rightarrow> f x d)"
  by (simp add: and_then_def answer_def split: sum.split)

lemma and_then_answer_Inr: "and_then (answer r) f d = (Inr y, d') \<Longrightarrow> \<exists>x. r = Inr x \<and> f x d = (Inr y, d')"
  by (simp add: and_then_answer split: sum.splits)

lemma and_then_answer_InlE:
  assumes "and_then (answer r) f d = (Inl e, d')"
  obtains "r = Inl e" "d' = d" | x where "r = Inr x" "f x d = (Inl e, d')"
  using assms by (auto simp: and_then_answer split: sum.splits)

lemma and_then_Inr: "and_then h f d = (Inr y, d') \<Longrightarrow> \<exists>x d1. h d = (Inr x, d1) \<and> f x d1 = (Inr y, d')"
  by (auto simp: and_then_def split: sum.splits prod.splits)

lemma and_then_InlE:
  assumes "and_then h f d = (Inl e, d')"
  obtains "h d = (Inl e, d')" | x d1 where "h d = (Inr x, d1)" "f x d1 = (Inl e, d')"
  using assms by (auto simp: and_then_def split: sum.splits prod.splits)

text \<open>Errors the handlers report about a request: everything but a failing database.\<close>

definition bad_request :: "api_error \<Rightarrow> bool" where
  "bad_request e \<longleftrightarrow> (\<exists>msg. e = ApiBadRequest msg)"

lemma bad_request_parse:
  "check_that b msg = Inl e \<Longrightarrow> bad_request e" "required msg x = Inl e \<Longrightarrow> bad_request e"
  "parse_sub_type s = Inl e \<Longrightarrow> bad_request e" "parse_to_addr s = Inl e \<Longrightarrow> bad_request e"
  "parse_category f s = Inl e \<Longrightarrow> bad_request e"
  by (auto simp: bad_request_def check_that_def required_def parse_sub_type_def parse_to_addr_def parse_category_def
      split: if_splits option.splits sum.splits)

text \<open>A row the handler may store.\<close>

definition good_subscription :: "url_parser \<Rightarrow> alert_subscription \<Rightarrow> bool" where
  "good_subscription url_parse a \<longleftrightarrow>
     rate_fields_chk a \<and> webhook_url_is_safe url_parse (a_webhook_url a) = Inr ()
     \<and> length (a_webhook_url a) \<le> 2048
     \<and> opt_ok (\<lambda>s. is_evm_address s \<and> to_lowercase s = s) (a_to_addr a)"

lemma evm_address_text_ok:
  assumes "is_evm_address s"
  shows "text_ok s"
proof -
  have "\<not> is_ascii_hexdigit (CHR 0x00)" by (simp add: is_ascii_hexdigit_def digit_value_def)
  with assms show ?thesis
    by (auto simp: is_evm_address_def text_ok_def strip_prefix_def list_all_iff prefix_def split: option.splits if_splits)
qed

lemma parse_to_addr_Inr: "parse_to_addr s = Inr a \<Longrightarrow> opt_ok (\<lambda>s. is_evm_address s \<and> to_lowercase s = s) a"
  by (auto simp: parse_to_addr_def opt_ok_def split: option.splits if_splits)

lemma parse_sub_type_Inr: "parse_sub_type s = Inr t \<Longrightarrow> t = ''per_event'' \<or> t = ''rate_threshold''"
  by (auto simp: parse_sub_type_def split: option.splits if_splits)

lemma add_subscription_Inr:
  assumes "ask (add_subscription a) d = (Inr row, d')"
  shows "row = a\<lparr>a_subscription_id := seq_subscription d\<rparr>
     \<and> d' = d\<lparr>subscriptions := subscriptions d @ [row], seq_subscription := seq_subscription d + 1\<rparr> \<and> rate_fields_chk row"
  using assms by (auto simp: ask_def add_subscription_def Let_def split: if_splits)

lemma add_subscription_total:
  assumes "ask (add_subscription a) d = (Inl e, d')" "opt_ok (\<lambda>s. is_evm_address s \<and> to_lowercase s = s) (a_to_addr a)"
    and "text_ok (a_webhook_url a)" "text_ok (a_signing_secret a)"
  shows "\<not> rate_fields_chk (a\<lparr>a_subscription_id := seq_subscription d\<rparr>)"
  using assms evm_address_text_ok
  by (auto simp: ask_def add_subscription_def Let_def opt_ok_def split: if_splits option.splits)

lemma ask_Inl: "ask s d = (Inl e, d') \<Longrightarrow> d' = d"
  by (auto simp: ask_def split: sum.splits prod.splits)

text \<open>The row of a request whose fields were parsed.\<close>

definition new_row :: "instant \<Rightarrow> create_body \<Rightarrow> error_category option \<Rightarrow> string option \<Rightarrow> string \<Rightarrow> string \<Rightarrow> alert_subscription" where
  "new_row now body category to_addr secret sub_type =
     \<lparr>a_subscription_id = 0, a_error_category = category, a_to_addr = to_addr, a_webhook_url = cb_webhook_url body,
      a_signing_secret = secret, a_active = True, a_created_at = now, a_sub_type = sub_type,
      a_threshold_count = cb_threshold_count body, a_threshold_window_secs = cb_threshold_window_secs body,
      a_debounce_secs = cb_debounce_secs body\<rparr>"

text \<open>Both branches store that row when it passes the check of the table, and refuse the request otherwise.\<close>

definition store_row :: "instant \<Rightarrow> create_body \<Rightarrow> error_category option \<Rightarrow> string option \<Rightarrow> string \<Rightarrow> string \<Rightarrow> alert_subscription handler" where
  "store_row now body category to_addr secret sub_type =
     (if sub_type = ''per_event'' then store_per_event now body category to_addr secret
      else store_rate now body category to_addr secret)"

lemma store_row_eq:
  assumes "sub_type = ''per_event'' \<or> sub_type = ''rate_threshold''"
  shows "store_row now body category to_addr secret sub_type d = ask (add_subscription (new_row now body category to_addr secret sub_type)) d
       \<and> rate_fields_chk (new_row now body category to_addr secret sub_type)
     \<or> (\<exists>e. bad_request e \<and> store_row now body category to_addr secret sub_type d = (Inl e, d))
       \<and> \<not> rate_fields_chk (new_row now body category to_addr secret sub_type)"
proof (cases "sub_type = ''per_event''")
  case True
  then show ?thesis
    by (cases "cb_threshold_count body"; cases "cb_threshold_window_secs body"; cases "cb_debounce_secs body")
      (simp_all add: store_row_def store_per_event_def answer_def bad_request_def new_row_def insert_alert_subscription_def rate_fields_chk_def)
next
  case False
  with assms have s: "sub_type = ''rate_threshold''" by simp
  show ?thesis
    by (cases "cb_threshold_count body"; cases "cb_threshold_window_secs body"; cases "cb_debounce_secs body")
      (simp_all add: s store_row_def store_rate_def and_then_answer required_def check_that_def bad_request_def new_row_def
        insert_alert_subscription_rate_def rate_fields_chk_def)
qed

lemma create_accepted:
  assumes "create_alert_subscription url_parse hex random now body d = (Inr (code, c), d')"
  shows "\<exists>row key. code = 201 \<and> c = created_from row \<and> random = Some key \<and> a_signing_secret row = hex key
     \<and> a_subscription_id row = seq_subscription d \<and> a_webhook_url row = cb_webhook_url body
     \<and> good_subscription url_parse row \<and> a_active row
     \<and> d' = d\<lparr>subscriptions := subscriptions d @ [row], seq_subscription := seq_subscription d + 1\<rparr>"
proof -
  from assms obtain category to_addr sub_type secret row where
    ok: "check_that (length (cb_webhook_url body) \<le> MAX_WEBHOOK_URL_LEN) ''webhook_url too long (max 2048)'' = Inr ()"
      "webhook_url_is_safe url_parse (cb_webhook_url body) = Inr ()"
      "parse_to_addr (cb_to_addr body) = Inr to_addr" "parse_sub_type (cb_sub_type body) = Inr sub_type"
      "generate_signing_secret hex random = Inr secret"
    and row: "store_row now body category to_addr secret sub_type d = (Inr row, d')" "code = 201" "c = created_from row"
    unfolding create_alert_subscription_def store_row_def [symmetric]
    by (auto dest!: and_then_answer_Inr and_then_Inr split: sum.splits)
  from store_row_eq [OF parse_sub_type_Inr [OF ok(4)], of now body category to_addr secret d] row(1)
  have "ask (add_subscription (new_row now body category to_addr secret sub_type)) d = (Inr row, d')" by auto
  from add_subscription_Inr [OF this] ok row(2,3) parse_to_addr_Inr [OF ok(3)]
  show ?thesis
    by (auto simp: good_subscription_def new_row_def check_that_def MAX_WEBHOOK_URL_LEN_def generate_signing_secret_def
        split: if_splits option.splits)
qed

lemma create_refused:
  assumes r: "create_alert_subscription url_parse hex random now body d = (Inl e, d')"
  shows "d' = d \<and> ((\<forall>b. text_ok (hex b)) \<and> text_ok (cb_webhook_url body) \<longrightarrow>
     bad_request e \<or> random = None \<and> e = ApiInternal ''rng unavailable'')"
proof -
  let ?texts = "(\<forall>b. text_ok (hex b)) \<and> text_ok (cb_webhook_url body)"
  have store: "d' = d \<and> (?texts \<longrightarrow> bad_request e)"
    if p: "parse_to_addr (cb_to_addr body) = Inr to_addr" "parse_sub_type (cb_sub_type body) = Inr sub_type"
      "generate_signing_secret hex random = Inr secret"
      and s: "store_row now body category to_addr secret sub_type d = (Inl e, d')" for category to_addr sub_type secret
  proof -
    let ?row = "new_row now body category to_addr secret sub_type"
    have "?texts \<Longrightarrow> text_ok secret" using p(3) by (auto simp: generate_signing_secret_def split: option.splits)
    then have "?texts \<Longrightarrow> \<not> rate_fields_chk ?row" if "ask (add_subscription ?row) d = (Inl e, d')"
      using add_subscription_total [OF that] parse_to_addr_Inr [OF p(1)] by (simp add: new_row_def rate_fields_chk_def)
    moreover have "ask (add_subscription ?row) d = (Inl e, d') \<Longrightarrow> d' = d" by (rule ask_Inl)
    ultimately show ?thesis
      using store_row_eq [OF parse_sub_type_Inr [OF p(2)], of now body category to_addr secret d] s
      by (elim disjE conjE exE) (simp_all, blast)
  qed
  have rng: "random = None \<and> e = ApiInternal ''rng unavailable''" if "generate_signing_secret hex random = Inl e" for e
    using that by (auto simp: generate_signing_secret_def split: option.splits)
  have unsafe: "bad_request e" if "(case webhook_url_is_safe url_parse u of
         Inl reason \<Rightarrow> Inl (ApiBadRequest (''unsafe webhook_url: '' @ reason_debug reason)) | Inr u \<Rightarrow> Inr u) = Inl e" for e u
    using that by (auto simp: bad_request_def split: sum.splits)
  show ?thesis
    using r unfolding create_alert_subscription_def store_row_def [symmetric]
    by (elim and_then_answer_InlE and_then_InlE) (auto dest: bad_request_parse unsafe rng store)
qed

text \<open>Creating a subscription.  A request the handler accepts stores exactly one row, under a new
  identifier: an active subscription whose URL passed the webhook policy, whose address is in the lower-case
  form the matching query compares with, whose rate fields satisfy the table's check, and whose secret is
  the fresh random key, returned in the answer.  Every refused request leaves the database unchanged and
  is answered 400, or 500 when the random generator fails: no request reaches a failing check constraint.\<close>

lemma create_subscription_correct:
  assumes hex: "\<And>b. text_ok (hex b)" and url: "text_ok (cb_webhook_url body)"
  shows "(\<forall>code c d'. create_alert_subscription url_parse hex random now body d = (Inr (code, c), d') \<longrightarrow>
        (\<exists>row key. code = 201 \<and> c = created_from row \<and> random = Some key \<and> a_signing_secret row = hex key
           \<and> a_subscription_id row = seq_subscription d \<and> a_webhook_url row = cb_webhook_url body
           \<and> good_subscription url_parse row \<and> a_active row
           \<and> d' = d\<lparr>subscriptions := subscriptions d @ [row], seq_subscription := seq_subscription d + 1\<rparr>))
   \<and> (\<forall>e d'. create_alert_subscription url_parse hex random now body d = (Inl e, d') \<longrightarrow>
        d' = d \<and> (bad_request e \<or> random = None \<and> e = ApiInternal ''rng unavailable''))"
proof (intro conjI allI impI)
  fix e d'
  assume "create_alert_subscription url_parse hex random now body d = (Inl e, d')"
  from create_refused [OF this] hex url
  show "d' = d" "bad_request e \<or> random = None \<and> e = ApiInternal ''rng unavailable''" by blast+
qed (rule create_accepted)

definition sample_body :: create_body where
  "sample_body = \<lparr>cb_webhook_url = ''https://example.org/hook'', cb_error_category = None, cb_to_addr = None,
     cb_sub_type = Some ''rate_threshold'', cb_threshold_count = Some 3, cb_threshold_window_secs = Some 60, cb_debounce_secs = Some 0\<rparr>"

lemma hex_text_ok: "text_ok (concat (map hex_byte bs))"
proof -
  have nul: "digit_value (CHR 0x00) = None" by (simp add: digit_value_def)
  have "CHR 0x00 \<noteq> hex_digit n" if "n < 16" for n
    using digit_value_hex_digit [OF that] nul by force
  moreover have "unat b div 16 < 16" for b :: byte
    using unsigned_less [of b, where 'a = nat] by simp
  ultimately show ?thesis by (simp add: text_ok_def hex_byte_def)
qed

section \<open>What the other routes do\<close>

lemma deactivate_effect:
  assumes "api_deactivate_alert_subscription i d = (r, d')"
  shows "d' = d\<lparr>subscriptions := map (\<lambda>a. if a_subscription_id a = i \<and> a_active a then a\<lparr>a_active := False\<rparr> else a) (subscriptions d)\<rparr>"
  using assms by (auto simp: api_deactivate_alert_subscription_def and_then_def ask_def deactivate_alert_subscription_def answer_def)

lemma rotate_effect:
  assumes "api_rotate_alert_subscription_secret hex random i d = (r, d')"
  shows "d' = d \<or> (\<exists>key. random = Some key \<and> d' = d\<lparr>subscriptions := map (\<lambda>a. if a_subscription_id a = i \<and> a_active a
     then a\<lparr>a_signing_secret := hex key\<rparr> else a) (subscriptions d)\<rparr>)"
  using assms
  by (auto simp: api_rotate_alert_subscription_secret_def generate_signing_secret_def and_then_def ask_def
      rotate_alert_subscription_secret_def answer_def Let_def split: option.splits if_splits)

lemma rotate_accepted:
  assumes "api_rotate_alert_subscription_secret hex random i d = (Inr c, d')"
  shows "\<exists>key. random = Some key \<and> sc_subscription_id c = i \<and> sc_signing_secret c = hex key
     \<and> subscriptions d' = map (\<lambda>a. if a_subscription_id a = i \<and> a_active a then a\<lparr>a_signing_secret := hex key\<rparr> else a) (subscriptions d)"
proof -
  let ?f = "\<lambda>key a. if a_subscription_id a = i \<and> a_active a then a\<lparr>a_signing_secret := hex key\<rparr> else a"
  from assms obtain key row where k: "random = Some key" "d' = d\<lparr>subscriptions := map (?f key) (subscriptions d)\<rparr>"
    and f: "find (\<lambda>a. a_subscription_id a = i \<and> a_active a) (map (?f key) (subscriptions d)) = Some row" "c = created_from row"
    by (auto simp: api_rotate_alert_subscription_secret_def generate_signing_secret_def and_then_def ask_def
        rotate_alert_subscription_secret_def answer_def Let_def split: option.splits if_splits)
  note row = find_in_set [OF f(1), THEN conjunct1] find_in_set [OF f(1), THEN conjunct2]
  from row(1) obtain a where "row = ?f key a" unfolding set_map by (rule imageE)
  with row(2) have "a_signing_secret row = hex key" "a_subscription_id row = i" by (simp_all split: if_splits)
  with k f(2) show ?thesis by (simp add: created_from_def)
qed

lemma create_label_effect:
  assumes "create_contract_label now body d = (r, d')"
  shows "d' = d \<or> (\<exists>c. is_evm_address (to_lowercase (trim (lb_address body))) \<and> trim (lb_label body) \<noteq> []
     \<and> length (trim (lb_label body)) \<le> 100 \<and> opt_ok (\<lambda>w. w \<noteq> [] \<and> length w \<le> 100) (normal_owner (lb_owner_id body))
     \<and> upsert_contract_label now (to_lowercase (trim (lb_address body))) (trim (lb_label body)) (normal_owner (lb_owner_id body)) d = Inr (c, d'))"
  using assms unfolding create_contract_label_def Let_def
  by (auto simp: and_then_answer check_that_def MAX_LABEL_LEN_def MAX_OWNER_ID_LEN_def opt_ok_def normal_owner_def and_then_def
      ask_def answer_def bind_eq_Some_conv split: if_splits sum.splits option.splits)

lemma delete_label_effect:
  assumes "api_delete_contract_label address d = (r, d')"
  shows "\<exists>a. d' = d \<or> d' = d\<lparr>contract_labels := filter (\<lambda>c. c_address c \<noteq> a) (contract_labels d)\<rparr>"
  using assms unfolding api_delete_contract_label_def Let_def
  by (auto simp: and_then_answer check_that_def and_then_def ask_def answer_def delete_contract_label_def split: if_splits)

section \<open>Secrets are not listed\<close>

definition blank_secret :: "alert_subscription \<Rightarrow> alert_subscription" where
  "blank_secret a = a\<lparr>a_signing_secret := []\<rparr>"

definition list_response :: "(instant \<Rightarrow> string) \<Rightarrow> i64 option \<Rightarrow> db \<Rightarrow> api_error + json" where
  "list_response chrono limit d =
     map_sum id (\<lambda>rows. api_response (JArray (map (subscription_json chrono) rows))) (fst (api_list_alert_subscriptions limit d))"

lemma map_insort_key: "(\<And>x. k (f x) = k x) \<Longrightarrow> map f (insort_key k x xs) = insort_key k (f x) (map f xs)"
  by (induction xs) auto

lemma map_sort_key: "(\<And>x. k (f x) = k x) \<Longrightarrow> map f (sort_key k xs) = sort_key k (map f xs)"
  by (induction xs) (simp_all add: map_insort_key)

lemma list_response_rows:
  "list_response chrono limit d = Inr (api_response (JArray (map (subscription_json chrono)
     (take (nat (clamp (unwrap_or limit 100) 1 500)) (sort_key (\<lambda>a. - a_subscription_id a) (map blank_secret (subscriptions d)))))))"
proof -
  have j: "map (subscription_json chrono) xs = map (subscription_json chrono) (map blank_secret xs)" for xs
    by (simp add: subscription_json_def blank_secret_def)
  have "\<not> clamp (unwrap_or limit DEFAULT_LIST_LIMIT) 1 MAX_LIST_LIMIT < 0"
    by (simp add: clamp_def MAX_LIST_LIMIT_def)
  then have "fst (api_list_alert_subscriptions limit d) =
      Inr (take (nat (clamp (unwrap_or limit 100) 1 500)) (sort_key (\<lambda>a. - a_subscription_id a) (subscriptions d)))"
    by (simp add: api_list_alert_subscriptions_def ask_def list_alert_subscriptions_def pg_limit_def DEFAULT_LIST_LIMIT_def
        MAX_LIST_LIMIT_def)
  moreover have "map blank_secret (sort_key (\<lambda>a. - a_subscription_id a) (subscriptions d)) =
      sort_key (\<lambda>a. - a_subscription_id a) (map blank_secret (subscriptions d))"
    by (rule map_sort_key) (simp add: blank_secret_def)
  ultimately show ?thesis
    using j [of "take (nat (clamp (unwrap_or limit 100) 1 500)) (sort_key (\<lambda>a. - a_subscription_id a) (subscriptions d))"]
    unfolding list_response_def take_map [symmetric] by (simp only: map_sum.simps take_map [symmetric])
qed

text \<open>Listing subscriptions never fails and tells nothing about the signing secrets: two databases whose
  subscriptions differ only in their secrets give the same response, byte for byte.  It holds at most 500
  subscriptions, and all of them up to the limit asked for.\<close>

lemma listing_hides_secrets:
  assumes "map blank_secret (subscriptions d1) = map blank_secret (subscriptions d2)"
  shows "list_response chrono limit d1 = list_response chrono limit d2
     \<and> (\<exists>js. list_response chrono limit d1 = Inr (JObject [(''data'', JArray js)])
          \<and> int (length js) = min (clamp (unwrap_or limit 100) 1 500) (int (length (subscriptions d1))))"
proof
  show "list_response chrono limit d1 = list_response chrono limit d2"
    unfolding list_response_rows assms ..
  have "int (nat (clamp (unwrap_or limit 100) 1 500)) = clamp (unwrap_or limit 100) 1 500" by (simp add: clamp_def)
  then show "\<exists>js. list_response chrono limit d1 = Inr (JObject [(''data'', JArray js)])
          \<and> int (length js) = min (clamp (unwrap_or limit 100) 1 500) (int (length (subscriptions d1)))"
    unfolding list_response_rows api_response_def by (intro exI conjI) (rule refl, simp add: of_nat_min min.commute)
qed

end
