(* ===== verification/Clusters.thy ===== *)
theory Clusters
  imports Reads
begin

text \<open>
  The template of a revert reason (\<^verbatim>\<open>fn_revert_template\<close> of \<^verbatim>\<open>sql/views/001_views.sql\<close>), the key by which
  \<^verbatim>\<open>get_unknown_revert_clusters\<close> groups the failures the classifier left unknown.  A global regular expression
  replacement scans from the left and takes the longest match at the first place that has one; the four
  patterns are runs, so each replacement is a recursion over the text.  White space is the ASCII one.
\<close>

section \<open>Replacements\<close>

definition hex_char :: "char \<Rightarrow> bool" where
  "hex_char c \<longleftrightarrow> (let n = (of_char c :: nat) in (48 \<le> n \<and> n \<le> 57) \<or> (97 \<le> n \<and> n \<le> 102) \<or> (65 \<le> n \<and> n \<le> 70))"

definition digit_char :: "char \<Rightarrow> bool" where
  "digit_char c \<longleftrightarrow> (let n = (of_char c :: nat) in 48 \<le> n \<and> n \<le> 57)"

definition space_char :: "char \<Rightarrow> bool" where
  "space_char c \<longleftrightarrow> (let n = (of_char c :: nat) in n = 32 \<or> (9 \<le> n \<and> n \<le> 13))"

text \<open>\<^verbatim>\<open>0x[0-9a-fA-F]{lo,hi}\<close>, without an upper bound for \<open>None\<close>.\<close>

definition run_length :: "nat option \<Rightarrow> string \<Rightarrow> nat" where
  "run_length hi s = (let n = length (takeWhile hex_char s) in case hi of None \<Rightarrow> n | Some m \<Rightarrow> min m n)"

function replace_hex :: "nat \<Rightarrow> nat option \<Rightarrow> string \<Rightarrow> string \<Rightarrow> string" where
  "replace_hex lo hi by [] = []"
| "replace_hex lo hi by (c # s) =
     (if c = CHR ''0'' \<and> s \<noteq> [] \<and> hd s = CHR ''x'' \<and> lo \<le> run_length hi (tl s)
      then by @ replace_hex lo hi by (drop (run_length hi (tl s)) (tl s))
      else c # replace_hex lo hi by s)"
  by pat_completeness auto
termination by (relation "measure (\<lambda>(_, _, _, s). length s)") auto

text \<open>\<^verbatim>\<open>[0-9]{4,}\<close>\<close>

function replace_digits :: "string \<Rightarrow> string" where
  "replace_digits [] = []"
| "replace_digits (c # s) =
     (if 4 \<le> length (takeWhile digit_char (c # s)) then ''{n}'' @ replace_digits (dropWhile digit_char s)
      else c # replace_digits s)"
  by pat_completeness auto
termination by (relation "measure length") (auto simp: length_dropWhile_le le_imp_less_Suc)

text \<open>\<^verbatim>\<open>\s+\<close>\<close>

function squeeze :: "string \<Rightarrow> string" where
  "squeeze [] = []"
| "squeeze (c # s) = (if space_char c then CHR '' '' # squeeze (dropWhile space_char s) else c # squeeze s)"
  by pat_completeness auto
termination by (relation "measure length") (auto simp: length_dropWhile_le le_imp_less_Suc)

definition btrim :: "string \<Rightarrow> string" where
  "btrim s = rev (dropWhile (\<lambda>c. c = CHR '' '') (rev (dropWhile (\<lambda>c. c = CHR '' '') s)))"

section \<open>Templates\<close>

definition is_panic_text :: "string \<Rightarrow> bool" where
  "is_panic_text s \<longleftrightarrow> take 8 s = ''Panic(0x'' \<and> drop 8 s \<noteq> [] \<and> last (drop 8 s) = CHR '')''
     \<and> butlast (drop 8 s) \<noteq> [] \<and> list_all hex_char (butlast (drop 8 s))"

definition is_hex_text :: "nat \<Rightarrow> string \<Rightarrow> bool" where
  "is_hex_text n s \<longleftrightarrow> take 2 s = ''0x'' \<and> n \<le> length (drop 2 s) \<and> list_all hex_char (drop 2 s)"

definition text_template :: "string \<Rightarrow> string" where
  "text_template s = btrim (squeeze (replace_digits (replace_hex 1 (Some 39) ''{hex}''
     (replace_hex 40 (Some 40) ''{addr}'' (replace_hex 41 None ''{hex}'' s)))))"

definition fn_revert_template :: "string option \<Rightarrow> string" where
  "fn_revert_template reason =
     (case reason of
        None \<Rightarrow> ''(no revert data)''
      | Some s \<Rightarrow>
          if btrim s = [] \<or> btrim s = ''0x'' then ''(no revert data)''
          else if is_panic_text s then s
          else if is_hex_text 8 s then ''custom_error:'' @ to_lowercase (take 10 s)
          else if is_hex_text 1 s then ''(undecodable output)''
          else text_template s)"

text \<open>\<^verbatim>\<open>LIKE 'custom_error:%'\<close>, where the underscore stands for any one character.\<close>

definition like_custom_error :: "string \<Rightarrow> bool" where
  "like_custom_error t \<longleftrightarrow> take 6 t = ''custom'' \<and> drop 6 t \<noteq> []
     \<and> take 6 (dropWhile (\<lambda>c. 128 \<le> (of_char c :: nat) \<and> (of_char c :: nat) < 192) (drop 7 t)) = ''error:''"

definition cluster_kind_of :: "string \<Rightarrow> string" where
  "cluster_kind_of t =
     (if t = ''(no revert data)'' \<or> t = ''(undecodable output)'' then ''NO_DATA''
      else if like_custom_error t then ''CUSTOM_ERROR''
      else if take 8 t = ''Panic(0x'' then ''PANIC''
      else ''TEXT'')"

section \<open>Custom errors\<close>

lemma btrim_id: "s \<noteq> [] \<Longrightarrow> hd s \<noteq> CHR '' '' \<Longrightarrow> last s \<noteq> CHR '' '' \<Longrightarrow> btrim s = s"
  using dropWhile_eq_self_iff [of "\<lambda>c. c = CHR '' ''" s] dropWhile_eq_self_iff [of "\<lambda>c. c = CHR '' ''" "rev s"]
  by (simp add: btrim_def hd_rev)

lemma custom_error_template:
  assumes "length sel = 8" "list_all hex_char (sel @ args)"
  shows "fn_revert_template (Some (''0x'' @ sel @ args)) = ''custom_error:0x'' @ to_lowercase sel
     \<and> cluster_kind_of (''custom_error:0x'' @ to_lowercase sel) = ''CUSTOM_ERROR''"
proof -
  obtain c cs where s: "sel = c # cs" using assms(1) by (cases sel) auto
  have "last (''0x'' @ sel @ args) = last (sel @ args)" using s by simp
  moreover have "last (sel @ args) \<in> set (sel @ args)" using s by (intro last_in_set) simp
  ultimately have "hex_char (last (''0x'' @ sel @ args))" using assms(2) by (auto simp: list_all_iff)
  then have b: "btrim (''0x'' @ sel @ args) = ''0x'' @ sel @ args" by (intro btrim_id) (auto simp: hex_char_def)
  have "is_hex_text 8 (''0x'' @ sel @ args)" "\<not> is_panic_text (''0x'' @ sel @ args)"
    using assms by (auto simp: is_hex_text_def is_panic_text_def)
  then show ?thesis using b assms(1) s
    by (auto simp: fn_revert_template_def cluster_kind_of_def like_custom_error_def to_lowercase_def lower_char_def)
qed

section \<open>Addresses in texts\<close>

text \<open>A character that neither belongs to a run nor starts one.\<close>

definition breaks :: "char \<Rightarrow> bool" where
  "breaks c \<longleftrightarrow> \<not> hex_char c \<and> c \<noteq> CHR ''x''"

lemma hex_chars [simp]: "hex_char (CHR ''0'')" "\<not> hex_char (CHR ''x'')"
  by (simp_all add: hex_char_def)

lemma run_length_append:
  assumes "s \<noteq> []" "\<not> hex_char (last s)"
  shows "run_length hi (s @ t) = run_length hi s" "run_length hi s < length s"
proof -
  have l: "last s \<in> set s" using assms(1) by simp
  then show "run_length hi (s @ t) = run_length hi s"
    using assms(2) by (simp add: run_length_def takeWhile_append1)
  have "takeWhile hex_char s \<noteq> s" using l assms(2) set_takeWhileD by metis
  then have "length (takeWhile hex_char s) < length s"
    by (metis length_takeWhile_le le_neq_implies_less takeWhile_eq_take take_all_iff order_refl)
  then show "run_length hi s < length s" by (simp add: run_length_def Let_def min_less_iff_disj split: option.split)
qed

lemma replace_hex_append:
  assumes "s \<noteq> [] \<Longrightarrow> breaks (last s)"
  shows "replace_hex lo hi by (s @ t) = replace_hex lo hi by s @ replace_hex lo hi by t"
  using assms
proof (induction lo hi "by" s rule: replace_hex.induct)
  case (2 lo hi "by" c s)
  show ?case
  proof (cases "c = CHR ''0'' \<and> s \<noteq> [] \<and> hd s = CHR ''x''")
    case True
    then obtain u where s: "s = CHR ''x'' # u" by (cases s) auto
    with "2.prems" have u: "u \<noteq> []" "\<not> hex_char (last u)" "breaks (last u)" by (auto simp: breaks_def split: if_splits)
    note r = run_length_append [OF u(1,2)]
    show ?thesis
    proof (cases "lo \<le> run_length hi u")
      case match: True
      have "breaks (last (drop (run_length hi u) u))" using r(2) u(3) by (simp add: last_drop)
      moreover have "run_length hi u - length u = 0" using r(2) [of hi] by simp
      ultimately show ?thesis using "2.IH"(1) match True s r by simp
    next
      case False
      with "2.IH"(2) True s r u show ?thesis by simp
    qed
  next
    case False
    have "\<not> (c = CHR ''0'' \<and> s @ t \<noteq> [] \<and> hd (s @ t) = CHR ''x'')"
      using False "2.prems" by (cases s) (auto simp: breaks_def)
    moreover have "replace_hex lo hi by (s @ t) = replace_hex lo hi by s @ replace_hex lo hi by t"
      using "2.IH"(2) False "2.prems" by (cases "s = []") auto
    ultimately show ?thesis using False by auto
  qed
qed simp

lemma replace_hex_run:
  assumes "list_all hex_char h" "t = [] \<or> hd t \<noteq> CHR ''x''"
  shows "replace_hex lo hi by (h @ t) = h @ replace_hex lo hi by t"
  using assms(1)
proof (induction h)
  case (Cons c h)
  have "h @ t = [] \<or> hd (h @ t) \<noteq> CHR ''x''" using Cons.prems assms(2) by (cases h) auto
  with Cons show ?case by auto
qed simp

lemma replace_hex_last:
  "s \<noteq> [] \<Longrightarrow> breaks (last s) \<Longrightarrow> replace_hex lo hi by s \<noteq> [] \<and> last (replace_hex lo hi by s) = last s"
proof (induction lo hi "by" s rule: replace_hex.induct)
  case (2 lo hi "by" c s)
  show ?case
  proof (cases "c = CHR ''0'' \<and> s \<noteq> [] \<and> hd s = CHR ''x'' \<and> lo \<le> run_length hi (tl s)")
    case True
    then obtain u where s: "s = CHR ''x'' # u" by (cases s) auto
    with "2.prems" have u: "u \<noteq> []" "\<not> hex_char (last u)" "breaks (last u)" by (auto simp: breaks_def split: if_splits)
    with "2.IH"(1) [OF True] s run_length_append(2) [OF u(1,2), of hi] True show ?thesis by (simp add: last_drop)
  next
    case False
    with "2.IH"(2) [OF False] "2.prems" show ?thesis by (cases "s = []") auto
  qed
qed simp

lemma replace_hex_hd:
  "s \<noteq> [] \<Longrightarrow> breaks (hd s) \<Longrightarrow> replace_hex lo hi by s \<noteq> [] \<and> hd (replace_hex lo hi by s) = hd s"
  by (cases s) (auto simp: breaks_def)

lemma run_length_address:
  assumes "length h = 40" "list_all hex_char h" "t \<noteq> [] \<Longrightarrow> breaks (hd t)"
  shows "run_length None (h @ t) = 40" "run_length (Some 40) (h @ t) = 40"
proof -
  have "takeWhile hex_char t = []" using assms(3) by (cases t) (auto simp: breaks_def)
  then have "takeWhile hex_char (h @ t) = h" using assms(2) by (simp add: list_all_iff)
  with assms(1) show "run_length None (h @ t) = 40" "run_length (Some 40) (h @ t) = 40" by (simp_all add: run_length_def)
qed

lemma text_template_address:
  assumes h: "length h = 40" "list_all hex_char h"
    and pre: "pre \<noteq> [] \<Longrightarrow> breaks (last pre)" and post: "post \<noteq> [] \<Longrightarrow> breaks (hd post)"
  shows "text_template (pre @ ''0x'' @ h @ post) =
     btrim (squeeze (replace_digits (replace_hex 1 (Some 39) ''{hex}''
       (replace_hex 40 (Some 40) ''{addr}'' (replace_hex 41 None ''{hex}'' pre) @ ''{addr}''
         @ replace_hex 40 (Some 40) ''{addr}'' (replace_hex 41 None ''{hex}'' post)))))"
proof -
  let ?p = "replace_hex 41 None ''{hex}'' pre" and ?q = "replace_hex 41 None ''{hex}'' post"
  have x: "post = [] \<or> hd post \<noteq> CHR ''x''" using post by (auto simp: breaks_def)
  have a: "replace_hex lo hi b (pre @ t) = replace_hex lo hi b pre @ replace_hex lo hi b t" for lo hi b t
    by (rule replace_hex_append) (rule pre)
  have "replace_hex 41 None ''{hex}'' (pre @ ''0x'' @ h @ post) = ?p @ ''0x'' @ h @ ?q"
    unfolding a
    using run_length_address(1) [OF h post] replace_hex_run [OF h(2) x] by simp
  moreover have "?p \<noteq> [] \<Longrightarrow> breaks (last ?p)" using pre replace_hex_last by (cases "pre = []") auto
  then have "replace_hex 40 (Some 40) ''{addr}'' (?p @ t) = replace_hex 40 (Some 40) ''{addr}'' ?p @ replace_hex 40 (Some 40) ''{addr}'' t" for t
    by (rule replace_hex_append)
  moreover have q: "?q \<noteq> [] \<Longrightarrow> breaks (hd ?q)" using post replace_hex_hd by (cases "post = []") auto
  moreover have "replace_hex 40 (Some 40) ''{addr}'' (''0x'' @ h @ ?q) = ''{addr}'' @ replace_hex 40 (Some 40) ''{addr}'' ?q"
    using run_length_address(2) [OF h q] h(1) by simp
  ultimately show ?thesis unfolding text_template_def by (simp only:)
qed

lemma filter_btrim: "filter (\<lambda>c. c \<noteq> CHR '' '') (btrim s) = filter (\<lambda>c. c \<noteq> CHR '' '') s"
proof -
  have f: "filter (\<lambda>c. c \<noteq> CHR '' '') (dropWhile (\<lambda>c. c = CHR '' '') t) = filter (\<lambda>c. c \<noteq> CHR '' '') t" for t
    by (induction t) auto
  show ?thesis unfolding btrim_def rev_filter [symmetric] f by (simp add: rev_filter f)
qed

lemma text_with_address:
  assumes h: "length h = 40" "list_all hex_char h"
    and pre: "pre \<noteq> [] \<Longrightarrow> breaks (last pre)" and post: "post \<noteq> [] \<Longrightarrow> breaks (hd post)"
    and shape: "pre \<noteq> [] \<or> post \<noteq> []" "take 6 pre \<noteq> ''Panic(''"
  shows "fn_revert_template (Some (pre @ ''0x'' @ h @ post)) = text_template (pre @ ''0x'' @ h @ post)"
proof -
  let ?s = "pre @ ''0x'' @ h @ post"
  have "filter (\<lambda>c. c \<noteq> CHR '' '') h = h" using h(2) by (auto simp: list_all_iff hex_char_def filter_id_conv)
  then have "40 < length (filter (\<lambda>c. c \<noteq> CHR '' '') (btrim ?s))" unfolding filter_btrim using h(1) by simp
  then have blank: "btrim ?s \<noteq> []" "btrim ?s \<noteq> ''0x''" by auto
  have panic: "\<not> is_panic_text ?s"
  proof
    assume "is_panic_text ?s"
    then have t: "take 8 ?s = ''Panic(0x''" by (simp add: is_panic_text_def)
    show False
    proof (cases "6 \<le> length pre")
      case True
      then have "take 6 pre = take 6 (take 8 ?s)" by simp
      with t shape(2) show False by simp
    next
      case False
      then have "take 8 ?s ! length pre = CHR ''0''" by (simp add: nth_append)
      moreover have "length pre = 0 \<or> length pre = 1 \<or> length pre = 2 \<or> length pre = 3 \<or> length pre = 4 \<or> length pre = 5"
        using False by linarith
      ultimately show False unfolding t by auto
    qed
  qed
  have "\<not> is_hex_text n ?s" for n
  proof
    assume "is_hex_text n ?s"
    then have t: "take 2 ?s = ''0x''" "list_all hex_char (drop 2 ?s)" by (simp_all add: is_hex_text_def)
    show False
    proof (cases "pre = []")
      case True
      with shape(1) t(2) post show False by (cases post) (auto simp: breaks_def)
    next
      case False
      then have b: "breaks (last pre)" by (rule pre)
      obtain c cs where p: "pre = c # cs" using False by (cases pre) auto
      show False
      proof (cases "length pre \<le> 2")
        case True
        with p t(1) b show False by (cases cs) (auto simp: breaks_def)
      next
        case False
        then have "drop 2 pre \<noteq> []" "last (drop 2 pre) = last pre" by (simp_all add: last_drop)
        then have "last pre \<in> set (drop 2 pre)" using last_in_set by metis
        then have "last pre \<in> set (drop 2 ?s)" by simp
        with t(2) b show False by (auto simp: list_all_iff breaks_def)
      qed
    qed
  qed
  with blank panic show ?thesis by (simp add: fn_revert_template_def)
qed

text \<open>Failures with the same cause share a cluster.  The template of a text does not depend on the addresses it
  mentions, as long as the address is set off from its surroundings and the text is not the bare address or a
  panic; the template of a custom error depends on its selector only, not on its arguments or on the case of
  the digits, and is filed as a custom error.\<close>

lemma template_hides_arguments:
  assumes "length h = 40" "list_all hex_char h" "length h' = 40" "list_all hex_char h'"
    and "pre = [] \<or> breaks (last pre)" "post = [] \<or> breaks (hd post)" "pre \<noteq> [] \<or> post \<noteq> []" "take 6 pre \<noteq> ''Panic(''"
    and "length sel = 8" "list_all hex_char (sel @ args)"
  shows "fn_revert_template (Some (pre @ ''0x'' @ h @ post)) = fn_revert_template (Some (pre @ ''0x'' @ h' @ post))
     \<and> fn_revert_template (Some (''0x'' @ sel @ args)) = ''custom_error:0x'' @ to_lowercase sel
     \<and> cluster_kind_of (fn_revert_template (Some (''0x'' @ sel @ args))) = ''CUSTOM_ERROR''"
  using assms custom_error_template [of sel args] text_with_address [of _ pre post] text_template_address [of _ pre post]
  by auto

end
