(* ===== verification/Analytics.thy ===== *)
theory Analytics
  imports Api Clusters
begin

text \<open>
  The analysis queries (\<^verbatim>\<open>crates/db/src/queries.rs\<close>) with the views and the function they read
  (\<^verbatim>\<open>sql/views/001_views.sql\<close>, \<^verbatim>\<open>sql/procedures/001_procedures.sql\<close>), and their handlers
  (\<^verbatim>\<open>routes/analytics.rs\<close>, \<^verbatim>\<open>traders.rs\<close>, \<^verbatim>\<open>pools.rs\<close>, \<^verbatim>\<open>health.rs\<close>).  PostgreSQL's numeric division, which keeps a
  limited number of digits, is the parameter \<open>dv\<close>; text is compared by its bytes.
\<close>

section \<open>Aggregates\<close>

type_synonym pg_div = "decimal \<Rightarrow> decimal \<Rightarrow> decimal"

definition groups :: "('r \<Rightarrow> 'k) \<Rightarrow> 'r list \<Rightarrow> ('k \<times> 'r list) list" where
  "groups key rows = map (\<lambda>k. (k, filter (\<lambda>r. key r = k) rows)) (remdups (map key rows))"

definition minimum :: "'a::linorder list \<Rightarrow> 'a option" where
  "minimum xs = (case xs of [] \<Rightarrow> None | y # ys \<Rightarrow> Some (fold min ys y))"

definition maximum :: "'a::linorder list \<Rightarrow> 'a option" where
  "maximum xs = (case xs of [] \<Rightarrow> None | y # ys \<Rightarrow> Some (fold max ys y))"

text \<open>\<^verbatim>\<open>ROUND(AVG(x))\<close> and \<^verbatim>\<open>ROUND(100.0 * COUNT(*) / GREATEST(total, 1), 2)\<close>\<close>

definition average :: "pg_div \<Rightarrow> int list \<Rightarrow> decimal" where
  "average dv xs = pg_round 0 (dv (of_int (sum_list xs)) (of_nat (length xs)))"

definition percent :: "pg_div \<Rightarrow> nat \<Rightarrow> nat \<Rightarrow> decimal" where
  "percent dv n whole = pg_round 2 (dv (100 * of_nat n) (of_nat (max whole 1)))"

section \<open>Failures by category\<close>

record failed_tx_analysis =
  fa_error_category :: error_category
  fa_failure_count :: i64
  fa_avg_gas_wasted :: decimal
  fa_pct_of_total :: decimal
  fa_most_recent_failure :: instant

definition vw_failed_tx_analysis :: "pg_div \<Rightarrow> db \<Rightarrow> failed_tx_analysis list" where
  "vw_failed_tx_analysis dv d =
     (let whole = length (failed_transactions d) in
      sort_key (\<lambda>r. - fa_failure_count r)
        (map (\<lambda>(c, fs). \<lparr>fa_error_category = c, fa_failure_count = int (length fs),
                fa_avg_gas_wasted = average dv (map f_gas_used fs), fa_pct_of_total = percent dv (length fs) whole,
                fa_most_recent_failure = the (maximum (map f_timestamp fs))\<rparr>)
           (groups f_error_category (failed_transactions d))))"

definition get_failed_tx_analysis :: "pg_div \<Rightarrow> failed_tx_analysis list stmt" where
  "get_failed_tx_analysis dv = select (\<lambda>d. Inr (vw_failed_tx_analysis dv d))"

section \<open>Clusters of unknown failures\<close>

record unknown_revert_cluster =
  uc_template :: string
  uc_cluster_kind :: string
  uc_occurrences :: i64
  uc_pct_of_unknown :: decimal
  uc_total_gas_wasted :: bigdecimal
  uc_avg_gas_wasted :: decimal
  uc_distinct_senders :: i64
  uc_distinct_selectors :: i64
  uc_sample_revert_reason :: "string option"
  uc_sample_tx_hash :: "string option"
  uc_first_seen :: instant
  uc_last_seen :: instant

definition count_distinct :: "'a list \<Rightarrow> i64" where
  "count_distinct xs = int (length (remdups xs))"

definition senders :: "db \<Rightarrow> failed_transaction list \<Rightarrow> string list" where
  "senders d fs = concat (map (\<lambda>f. map t_from_addr (filter (\<lambda>t. t_tx_hash t = f_tx_hash f) (transactions d))) fs)"

definition unknown_failures :: "db \<Rightarrow> failed_transaction list" where
  "unknown_failures d = filter (\<lambda>f. f_error_category f = Unknown) (failed_transactions d)"

definition template_of :: "failed_transaction \<Rightarrow> string" where
  "template_of f = fn_revert_template (f_revert_reason f)"

definition vw_unknown_revert_clusters :: "pg_div \<Rightarrow> db \<Rightarrow> unknown_revert_cluster list" where
  "vw_unknown_revert_clusters dv d =
     (let us = unknown_failures d; whole = length us in
      sort_key (\<lambda>r. (- uc_occurrences r, - uc_total_gas_wasted r))
        (map (\<lambda>(t, fs). \<lparr>uc_template = t, uc_cluster_kind = cluster_kind_of t, uc_occurrences = int (length fs),
                uc_pct_of_unknown = percent dv (length fs) whole, uc_total_gas_wasted = sum_list (map f_gas_used fs),
                uc_avg_gas_wasted = average dv (map f_gas_used fs), uc_distinct_senders = count_distinct (senders d fs),
                uc_distinct_selectors = count_distinct (List.map_filter f_failing_function fs),
                uc_sample_revert_reason = minimum (List.map_filter f_revert_reason fs),
                uc_sample_tx_hash = minimum (map f_tx_hash fs),
                uc_first_seen = the (minimum (map f_timestamp fs)), uc_last_seen = the (maximum (map f_timestamp fs))\<rparr>)
           (groups template_of us)))"

definition get_unknown_revert_clusters :: "pg_div \<Rightarrow> unknown_revert_cluster list stmt" where
  "get_unknown_revert_clusters dv = select (\<lambda>d. Inr (vw_unknown_revert_clusters dv d))"

section \<open>Volumes, traders and pools\<close>

record daily_swap_volume =
  sv_pool_address :: string
  sv_pair_name :: string
  sv_swap_date :: int
  sv_swap_count :: i64
  sv_total_amount_in :: bigdecimal
  sv_total_amount_out :: bigdecimal

text \<open>A date is the number of its day.\<close>

definition day_of :: "instant \<Rightarrow> int" where
  "day_of t = t div 86400000000"

definition vw_daily_swap_volume :: "db \<Rightarrow> daily_swap_volume list" where
  "vw_daily_swap_volume d =
     (let joined = concat (map (\<lambda>s. map (Pair s) (filter (\<lambda>p. p_pool_address p = s_pool_address s) (pools d))) (swap_events d)) in
      sort_key (\<lambda>r. (- sv_swap_date r, - sv_swap_count r))
        (map (\<lambda>((a, n, t), g). \<lparr>sv_pool_address = a, sv_pair_name = n, sv_swap_date = t, sv_swap_count = int (length g),
                sv_total_amount_in = sum_list (map (s_amount_in \<circ> fst) g),
                sv_total_amount_out = sum_list (map (s_amount_out \<circ> fst) g)\<rparr>)
           (groups (\<lambda>(s, p). (s_pool_address s, p_pair_name p, day_of (s_timestamp s))) joined)))"

definition get_daily_swap_volume :: "string option \<Rightarrow> i64 \<Rightarrow> i64 \<Rightarrow> daily_swap_volume list stmt" where
  "get_daily_swap_volume pool_address limit offset =
     select (\<lambda>d. pg_page limit offset (sort_key (\<lambda>r. - sv_swap_date r)
       (filter (\<lambda>r. opt_filter (\<lambda>a. sv_pool_address r = a) pool_address) (vw_daily_swap_volume d))))"

record top_trader =
  tt_user_address :: string
  tt_label :: "string option"
  tt_total_swaps :: i32
  tt_total_volume_usd :: decimal
  tt_volume_rank :: i64

definition vw_top_traders :: "db \<Rightarrow> top_trader list" where
  "vw_top_traders d =
     (let us = filter (\<lambda>u. 0 < up_total_swaps u) (user_profiles d) in
      sort_key tt_volume_rank
        (map (\<lambda>u. \<lparr>tt_user_address = up_user_address u, tt_label = up_label u, tt_total_swaps = up_total_swaps u,
                tt_total_volume_usd = up_total_volume_usd u,
                tt_volume_rank = 1 + count_distinct (filter (\<lambda>v. up_total_volume_usd u < v) (map up_total_volume_usd us))\<rparr>) us))"

definition get_top_traders :: "i64 \<Rightarrow> top_trader list stmt" where
  "get_top_traders limit = select (\<lambda>d. pg_limit limit (vw_top_traders d))"

record pool_stats =
  pt_pair_name :: string
  pt_swap_count :: i64
  pt_unique_traders :: i64
  pt_total_volume_in :: bigdecimal
  pt_avg_trade_size :: decimal
  pt_liquidity_events :: i64
  pt_estimated_fees :: decimal

definition pool_swaps :: "string \<Rightarrow> instant \<Rightarrow> instant \<Rightarrow> db \<Rightarrow> swap_event list" where
  "pool_swaps a from_date to_date d =
     filter (\<lambda>s. s_pool_address s = a \<and> from_date \<le> s_timestamp s \<and> s_timestamp s \<le> to_date) (swap_events d)"

text \<open>The sums of \<^verbatim>\<open>fn_get_pool_stats\<close> over no swaps are \<^verbatim>\<open>NULL\<close>, which the fields of \<^verbatim>\<open>PoolStats\<close> cannot hold.\<close>

definition get_pool_stats :: "pg_div \<Rightarrow> string \<Rightarrow> instant \<Rightarrow> instant \<Rightarrow> pool_stats stmt" where
  "get_pool_stats dv a from_date to_date =
     select (\<lambda>d.
       case find (\<lambda>p. p_pool_address p = a) (pools d) of
         None \<Rightarrow> Inl (NotFound (''pool stats for '' @ a))
       | Some p \<Rightarrow>
           let ss = pool_swaps a from_date to_date d; volume = sum_list (map s_amount_in ss) in
           if ss = [] then Inl (Sqlx ''unexpected null; try decoding as an Option'')
           else Inr \<lparr>pt_pair_name = p_pair_name p, pt_swap_count = int (length ss),
             pt_unique_traders = count_distinct (map s_sender ss), pt_total_volume_in = volume,
             pt_avg_trade_size = dv (of_int volume) (of_nat (length ss)),
             pt_liquidity_events = int (length (filter (\<lambda>l. l_pool_address l = a \<and> from_date \<le> l_timestamp l
                \<and> l_timestamp l \<le> to_date) (liquidity_events d))),
             pt_estimated_fees = dv (of_int (volume * p_fee_tier p)) 1000000\<rparr>)"

section \<open>Handlers\<close>

definition daily_volume :: "string option \<Rightarrow> i64 option \<Rightarrow> i64 option \<Rightarrow> daily_swap_volume paginated handler" where
  "daily_volume pool_address limit offset =
     paginated (page_limit limit) (page_offset offset)
       (get_daily_swap_volume pool_address (page_limit limit) (page_offset offset))"

definition api_failed_tx_analysis :: "pg_div \<Rightarrow> failed_tx_analysis list handler" where
  "api_failed_tx_analysis dv = ask (get_failed_tx_analysis dv)"

definition unknown_revert_clusters :: "pg_div \<Rightarrow> unknown_revert_cluster list handler" where
  "unknown_revert_clusters dv = ask (get_unknown_revert_clusters dv)"

definition api_get_top_traders :: "i64 option \<Rightarrow> top_trader paginated handler" where
  "api_get_top_traders limit_q =
     (let limit = clamp (unwrap_or limit_q 10) 1 100 in paginated limit 0 (get_top_traders limit))"

definition api_get_pool_stats :: "pg_div \<Rightarrow> string \<Rightarrow> instant \<Rightarrow> instant \<Rightarrow> pool_stats handler" where
  "api_get_pool_stats dv address from_date to_date = ask (get_pool_stats dv address from_date to_date)"

definition health_check :: "bool \<Rightarrow> (string \<times> string) handler" where
  "health_check reachable =
     answer (if reachable then Inr (''ok'', ''connected'') else Inl (ApiInternal ''database unreachable''))"

lemma reads_analysis_queries [read_only]:
  "reads (ask (get_failed_tx_analysis dv))" "reads (ask (get_unknown_revert_clusters dv))"
  "reads (ask (get_daily_swap_volume a l k))" "reads (ask (get_top_traders l))" "reads (ask (get_pool_stats dv p f t))"
  unfolding get_failed_tx_analysis_def get_unknown_revert_clusters_def get_daily_swap_volume_def get_top_traders_def
    get_pool_stats_def by (rule reads_ask_select)+

lemma reads_analysis_handlers [read_only]:
  "reads (daily_volume a l k)" "reads (api_failed_tx_analysis dv)" "reads (unknown_revert_clusters dv)"
  "reads (api_get_top_traders l)" "reads (api_get_pool_stats dv p f t)" "reads (health_check b)"
  unfolding daily_volume_def api_failed_tx_analysis_def unknown_revert_clusters_def api_get_top_traders_def
    api_get_pool_stats_def health_check_def Let_def by (intro read_only)+

section \<open>Every failure is in one group\<close>

lemma sum_groups: "(\<Sum>(k, g)\<leftarrow>groups key rows. length g) = length rows"
proof -
  have "(\<Sum>k\<leftarrow>ks. length (filter (\<lambda>r. key r = k) rows)) = length (filter (\<lambda>r. key r \<in> set ks) rows)" if "distinct ks" for ks
    using that
  proof (induction ks)
    case (Cons k ks)
    have "length (filter (\<lambda>r. key r = k \<or> key r \<in> set ks) rows) =
        length (filter (\<lambda>r. key r = k) rows) + length (filter (\<lambda>r. key r \<in> set ks) rows)"
      using Cons.prems by (induction rows) auto
    with Cons show ?case by simp
  qed simp
  from this [of "remdups (map key rows)"] show ?thesis by (simp add: groups_def comp_def filter_id_conv)
qed

lemma group_in: "(k, g) \<in> set (groups key rows) \<longleftrightarrow> k \<in> key ` set rows \<and> g = filter (\<lambda>r. key r = k) rows"
  by (auto simp: groups_def)

lemma group_nonempty: "(k, g) \<in> set (groups key rows) \<Longrightarrow> g \<noteq> [] \<and> length g \<le> length rows"
  by (auto simp: group_in filter_empty_conv)

lemma distinct_groups: "distinct (map fst (groups key rows))"
  by (simp add: groups_def comp_def)

lemma fold_max: "fold max ys y \<in> set (y # ys) \<and> (\<forall>z \<in> set (y # ys). z \<le> fold max ys (y :: 'a::linorder))"
proof (induction ys arbitrary: y)
  case (Cons x ys)
  from Cons.IH [of "max x y"] show ?case by (auto simp: max_def split: if_splits)
qed simp

lemma maximum_in: "xs \<noteq> [] \<Longrightarrow> the (maximum xs) \<in> set xs \<and> (\<forall>x \<in> set xs. x \<le> the (maximum xs))"
  using fold_max by (cases xs) (auto simp: maximum_def)

section \<open>Percentages\<close>

text \<open>What the analysis needs of PostgreSQL's division: quotients up to 100 are accurate to twelve digits after the
  point (they have at least sixteen significant ones).\<close>

definition div_accurate :: "pg_div \<Rightarrow> bool" where
  "div_accurate dv \<longleftrightarrow> (\<forall>x y. 0 < y \<and> 0 \<le> x \<and> x \<le> 100 * y \<longrightarrow> \<bar>dv x y - x / y\<bar> \<le> 1 / 10 ^ 12)"

lemma pg_round_near: "\<bar>pg_round k x - x\<bar> \<le> 1 / (2 * 10 ^ k)"
proof -
  let ?n = "\<lfloor>\<bar>x\<bar> * 10 ^ k + 1 / 2\<rfloor>"
  have "of_int ?n \<le> \<bar>x\<bar> * 10 ^ k + 1 / 2" "\<bar>x\<bar> * 10 ^ k + 1 / 2 < of_int ?n + 1" by linarith+
  then have "\<bar>of_int ?n - \<bar>x\<bar> * 10 ^ k\<bar> \<le> 1 / 2" by linarith
  then have a: "\<bar>of_int ?n / 10 ^ k - \<bar>x\<bar>\<bar> \<le> 1 / (2 * 10 ^ k)"
    by (simp add: field_simps abs_divide [symmetric] flip: abs_mult)
  have "pg_round k x - x = sgn x * (of_int ?n / 10 ^ k - \<bar>x\<bar>)"
    by (simp add: pg_round_def algebra_simps abs_mult_sgn)
  then have "\<bar>pg_round k x - x\<bar> \<le> \<bar>of_int ?n / 10 ^ k - \<bar>x\<bar>\<bar>" by (simp add: abs_mult abs_sgn_eq)
  with a show ?thesis by linarith
qed

lemma percent_near:
  assumes "div_accurate dv" "n \<le> m" "0 < m"
  shows "\<bar>percent dv n m - 100 * of_nat n / of_nat m\<bar> \<le> 1 / 200 + 1 / 10 ^ 12"
proof -
  let ?q = "dv (100 * of_nat n) (of_nat m)"
  have "\<bar>pg_round 2 ?q - ?q\<bar> \<le> 1 / 200" using pg_round_near [of 2 ?q] by simp
  moreover have "\<bar>?q - 100 * of_nat n / of_nat m\<bar> \<le> 1 / 10 ^ 12"
    using assms unfolding div_accurate_def by (simp add: of_nat_le_iff)
  moreover have "max m 1 = m" using assms(3) by simp
  ultimately show ?thesis unfolding percent_def by (simp only:)
qed

lemma sum_near:
  fixes f g :: "'p \<Rightarrow> rat"
  assumes "\<And>p. p \<in> set ps \<Longrightarrow> \<bar>f p - g p\<bar> \<le> e"
  shows "\<bar>(\<Sum>p\<leftarrow>ps. f p) - (\<Sum>p\<leftarrow>ps. g p)\<bar> \<le> of_nat (length ps) * e"
  using assms
proof (induction ps)
  case (Cons p ps)
  have "\<bar>(\<Sum>p\<leftarrow>ps. f p) - (\<Sum>p\<leftarrow>ps. g p)\<bar> \<le> of_nat (length ps) * e" "\<bar>f p - g p\<bar> \<le> e" using Cons by simp_all
  then show ?case by (simp add: distrib_right)
qed simp

lemma percents_add_up:
  assumes "div_accurate dv" "rows \<noteq> []"
  shows "\<bar>(\<Sum>(k, g)\<leftarrow>groups key rows. percent dv (length g) (length rows)) - 100\<bar>
      \<le> of_nat (length (groups key rows)) * (1 / 200 + 1 / 10 ^ 12)"
proof -
  let ?m = "length rows"
  have m: "0 < ?m" using assms(2) by simp
  have near: "\<bar>percent dv (length (snd p)) ?m - 100 * of_nat (length (snd p)) / of_nat ?m\<bar> \<le> 1 / 200 + 1 / 10 ^ 12"
    if "p \<in> set (groups key rows)" for p
    using that group_nonempty [of "fst p" "snd p" key rows] by (intro percent_near assms(1) m) simp
  have "(\<Sum>p\<leftarrow>gs. 100 * of_nat (length (snd p)) / of_nat ?m) = 100 * of_nat (\<Sum>p\<leftarrow>gs. length (snd p)) / (of_nat ?m :: rat)"
    for gs :: "('b \<times> 'a list) list"
    by (induction gs) (auto simp: field_simps add_divide_distrib)
  from this [of "groups key rows"] have "(\<Sum>p\<leftarrow>groups key rows. 100 * of_nat (length (snd p)) / of_nat ?m) = (100 :: rat)"
    using m sum_groups [of key rows] by (simp add: case_prod_unfold)
  with sum_near [of "groups key rows" "\<lambda>p. percent dv (length (snd p)) ?m", OF near] show ?thesis
    by (simp only: case_prod_unfold)
qed

section \<open>The analyses\<close>

lemma sum_groups_int:
  fixes key :: "'r \<Rightarrow> 'k"
  shows "(\<Sum>p\<leftarrow>groups key rows. int (length (snd p))) = int (length rows)"
proof -
  have "(\<Sum>p\<leftarrow>gs. int (length (snd p))) = int (\<Sum>(k, g)\<leftarrow>gs. length g)" for gs :: "('k \<times> 'r list) list"
    by (induction gs) (auto simp: case_prod_unfold)
  then show ?thesis unfolding sum_groups [of key rows, symmetric] .
qed

lemma analysis_row:
  assumes "r \<in> set (vw_failed_tx_analysis dv d)"
  obtains fs where "fs = filter (\<lambda>f. f_error_category f = fa_error_category r) (failed_transactions d)" "fs \<noteq> []"
    "fa_failure_count r = int (length fs)" "fa_most_recent_failure r = the (maximum (map f_timestamp fs))"
proof -
  from assms obtain c fs where g: "(c, fs) \<in> set (groups f_error_category (failed_transactions d))"
    and r: "fa_error_category r = c" "fa_failure_count r = int (length fs)"
      "fa_most_recent_failure r = the (maximum (map f_timestamp fs))"
    by (auto simp: vw_failed_tx_analysis_def Let_def)
  from g r show thesis using group_nonempty [OF g] by (intro that [of fs]) (simp_all add: group_in)
qed

lemma analysis_sums:
  "distinct (map fa_error_category (vw_failed_tx_analysis dv d))"
  "(\<Sum>r\<leftarrow>vw_failed_tx_analysis dv d. fa_failure_count r) = int (length (failed_transactions d))"
  "length (vw_failed_tx_analysis dv d) = length (groups f_error_category (failed_transactions d))"
  "(\<Sum>r\<leftarrow>vw_failed_tx_analysis dv d. fa_pct_of_total r) =
     (\<Sum>(c, fs)\<leftarrow>groups f_error_category (failed_transactions d). percent dv (length fs) (length (failed_transactions d)))"
proof -
  let ?g = "groups f_error_category (failed_transactions d)"
  show "distinct (map fa_error_category (vw_failed_tx_analysis dv d))"
    using distinct_groups [of f_error_category "failed_transactions d"]
    by (simp add: vw_failed_tx_analysis_def Let_def distinct_map_sort_key comp_def case_prod_unfold)
  show "(\<Sum>r\<leftarrow>vw_failed_tx_analysis dv d. fa_failure_count r) = int (length (failed_transactions d))"
    using sum_groups_int [of f_error_category "failed_transactions d"]
    by (simp add: vw_failed_tx_analysis_def Let_def sum_list_sort_key comp_def case_prod_unfold)
  show "length (vw_failed_tx_analysis dv d) = length ?g" by (simp add: vw_failed_tx_analysis_def Let_def)
  show "(\<Sum>r\<leftarrow>vw_failed_tx_analysis dv d. fa_pct_of_total r) =
     (\<Sum>(c, fs)\<leftarrow>?g. percent dv (length fs) (length (failed_transactions d)))"
    by (simp add: vw_failed_tx_analysis_def Let_def sum_list_sort_key comp_def case_prod_unfold)
qed

lemma cluster_row:
  assumes "r \<in> set (vw_unknown_revert_clusters dv d)"
  obtains fs where "fs = filter (\<lambda>f. template_of f = uc_template r) (unknown_failures d)" "fs \<noteq> []"
    "uc_occurrences r = int (length fs)" "uc_total_gas_wasted r = sum_list (map f_gas_used fs)"
    "uc_cluster_kind r = cluster_kind_of (uc_template r)"
proof -
  from assms obtain t fs where g: "(t, fs) \<in> set (groups template_of (unknown_failures d))"
    and r: "uc_template r = t" "uc_occurrences r = int (length fs)" "uc_total_gas_wasted r = sum_list (map f_gas_used fs)"
      "uc_cluster_kind r = cluster_kind_of t"
    by (auto simp: vw_unknown_revert_clusters_def Let_def)
  from g r show thesis using group_nonempty [OF g] by (intro that [of fs]) (simp_all add: group_in)
qed

lemma cluster_sums:
  "distinct (map uc_template (vw_unknown_revert_clusters dv d))"
  "(\<Sum>r\<leftarrow>vw_unknown_revert_clusters dv d. uc_occurrences r) = int (length (unknown_failures d))"
  "length (vw_unknown_revert_clusters dv d) = length (groups template_of (unknown_failures d))"
  "(\<Sum>r\<leftarrow>vw_unknown_revert_clusters dv d. uc_pct_of_unknown r) =
     (\<Sum>(t, fs)\<leftarrow>groups template_of (unknown_failures d). percent dv (length fs) (length (unknown_failures d)))"
proof -
  let ?g = "groups template_of (unknown_failures d)"
  show "distinct (map uc_template (vw_unknown_revert_clusters dv d))"
    using distinct_groups [of template_of "unknown_failures d"]
    by (simp add: vw_unknown_revert_clusters_def Let_def distinct_map_sort_key comp_def case_prod_unfold)
  show "(\<Sum>r\<leftarrow>vw_unknown_revert_clusters dv d. uc_occurrences r) = int (length (unknown_failures d))"
    using sum_groups_int [of template_of "unknown_failures d"]
    by (simp add: vw_unknown_revert_clusters_def Let_def sum_list_sort_key comp_def case_prod_unfold)
  show "length (vw_unknown_revert_clusters dv d) = length ?g" by (simp add: vw_unknown_revert_clusters_def Let_def)
  show "(\<Sum>r\<leftarrow>vw_unknown_revert_clusters dv d. uc_pct_of_unknown r) =
     (\<Sum>(t, fs)\<leftarrow>?g. percent dv (length fs) (length (unknown_failures d)))"
    by (simp add: vw_unknown_revert_clusters_def Let_def sum_list_sort_key comp_def case_prod_unfold)
qed

text \<open>C29: the failure analyses account for every failure once.  The analysis has one row per category that occurs,
  most frequent first; its counts are the numbers of failures of the category and add up to all failures, and
  the most recent failure is one of the category and not before any other.  The clusters divide the failures
  of the unknown category by the template of their revert reason, in the same way.  Both columns of
  percentages add up to 100 within half a hundredth per row, when the division is accurate.\<close>

theorem failure_analyses_account:
  assumes "div_accurate dv"
  shows "\<exists>rows clusters. get_failed_tx_analysis dv d = Inr (rows, d) \<and> get_unknown_revert_clusters dv d = Inr (clusters, d)
     \<and> distinct (map fa_error_category rows) \<and> sorted (map (\<lambda>r. - fa_failure_count r) rows)
     \<and> (\<Sum>r\<leftarrow>rows. fa_failure_count r) = int (length (failed_transactions d))
     \<and> (\<forall>r \<in> set rows.
          fa_failure_count r = int (length (filter (\<lambda>f. f_error_category f = fa_error_category r) (failed_transactions d)))
          \<and> 0 < fa_failure_count r
          \<and> (\<exists>f \<in> set (failed_transactions d). f_error_category f = fa_error_category r \<and> f_timestamp f = fa_most_recent_failure r)
          \<and> (\<forall>f \<in> set (failed_transactions d). f_error_category f = fa_error_category r \<longrightarrow> f_timestamp f \<le> fa_most_recent_failure r))
     \<and> (failed_transactions d \<noteq> [] \<longrightarrow>
          \<bar>(\<Sum>r\<leftarrow>rows. fa_pct_of_total r) - 100\<bar> \<le> of_nat (length rows) * (1 / 200 + 1 / 10 ^ 12))
     \<and> distinct (map uc_template clusters)
     \<and> (\<Sum>r\<leftarrow>clusters. uc_occurrences r) = int (length (filter (\<lambda>f. f_error_category f = Unknown) (failed_transactions d)))
     \<and> (\<forall>r \<in> set clusters. uc_occurrences r = int (length (filter (\<lambda>f. f_error_category f = Unknown
            \<and> fn_revert_template (f_revert_reason f) = uc_template r) (failed_transactions d))) \<and> 0 < uc_occurrences r)
     \<and> (unknown_failures d \<noteq> [] \<longrightarrow>
          \<bar>(\<Sum>r\<leftarrow>clusters. uc_pct_of_unknown r) - 100\<bar> \<le> of_nat (length clusters) * (1 / 200 + 1 / 10 ^ 12))"
proof (intro exI conjI ballI impI)
  show "get_failed_tx_analysis dv d = Inr (vw_failed_tx_analysis dv d, d)"
    "get_unknown_revert_clusters dv d = Inr (vw_unknown_revert_clusters dv d, d)"
    by (simp_all add: get_failed_tx_analysis_def get_unknown_revert_clusters_def)
  show "distinct (map fa_error_category (vw_failed_tx_analysis dv d))"
    "(\<Sum>r\<leftarrow>vw_failed_tx_analysis dv d. fa_failure_count r) = int (length (failed_transactions d))"
    by (rule analysis_sums)+
  show "sorted (map (\<lambda>r. - fa_failure_count r) (vw_failed_tx_analysis dv d))"
    by (simp add: vw_failed_tx_analysis_def Let_def)
  show "\<bar>(\<Sum>r\<leftarrow>vw_failed_tx_analysis dv d. fa_pct_of_total r) - 100\<bar>
      \<le> of_nat (length (vw_failed_tx_analysis dv d)) * (1 / 200 + 1 / 10 ^ 12)" if "failed_transactions d \<noteq> []"
    unfolding analysis_sums by (rule percents_add_up [OF assms that])
  show "distinct (map uc_template (vw_unknown_revert_clusters dv d))" by (rule cluster_sums)
  show "(\<Sum>r\<leftarrow>vw_unknown_revert_clusters dv d. uc_occurrences r) =
      int (length (filter (\<lambda>f. f_error_category f = Unknown) (failed_transactions d)))"
    unfolding cluster_sums unknown_failures_def ..
  show "\<bar>(\<Sum>r\<leftarrow>vw_unknown_revert_clusters dv d. uc_pct_of_unknown r) - 100\<bar>
      \<le> of_nat (length (vw_unknown_revert_clusters dv d)) * (1 / 200 + 1 / 10 ^ 12)" if "unknown_failures d \<noteq> []"
    unfolding cluster_sums by (rule percents_add_up [OF assms that])
next
  fix r assume "r \<in> set (vw_failed_tx_analysis dv d)"
  then obtain fs where fs: "fs = filter (\<lambda>f. f_error_category f = fa_error_category r) (failed_transactions d)" "fs \<noteq> []"
    "fa_failure_count r = int (length fs)" "fa_most_recent_failure r = the (maximum (map f_timestamp fs))"
    by (rule analysis_row)
  then show "fa_failure_count r = int (length (filter (\<lambda>f. f_error_category f = fa_error_category r) (failed_transactions d)))"
    "0 < fa_failure_count r" by simp_all
  have m: "fa_most_recent_failure r \<in> set (map f_timestamp fs) \<and> (\<forall>x \<in> set (map f_timestamp fs). x \<le> fa_most_recent_failure r)"
    unfolding fs(4) using fs(2) by (intro maximum_in) simp
  then show "\<exists>f \<in> set (failed_transactions d). f_error_category f = fa_error_category r \<and> f_timestamp f = fa_most_recent_failure r"
    using fs(1) by auto
  show "f_timestamp f \<le> fa_most_recent_failure r"
    if "f \<in> set (failed_transactions d)" "f_error_category f = fa_error_category r" for f
    using m fs(1) that by auto
next
  fix r assume "r \<in> set (vw_unknown_revert_clusters dv d)"
  then obtain fs where fs: "fs = filter (\<lambda>f. template_of f = uc_template r) (unknown_failures d)" "fs \<noteq> []"
    "uc_occurrences r = int (length fs)" by (rule cluster_row)
  then show "uc_occurrences r = int (length (filter (\<lambda>f. f_error_category f = Unknown
      \<and> fn_revert_template (f_revert_reason f) = uc_template r) (failed_transactions d)))" "0 < uc_occurrences r"
    by (simp_all add: unknown_failures_def template_of_def filter_filter conj_commute)
qed

theorem failure_analyses_account_witness:
  "\<exists>rows clusters. get_failed_tx_analysis (/) sample_db = Inr (rows, sample_db)
     \<and> get_unknown_revert_clusters (/) sample_db = Inr (clusters, sample_db)
     \<and> (\<Sum>r\<leftarrow>rows. fa_failure_count r) = 2 \<and> (\<Sum>r\<leftarrow>clusters. uc_occurrences r) = 2"
proof -
  have "div_accurate (/)" by (simp add: div_accurate_def)
  from failure_analyses_account [OF this, of sample_db] show ?thesis
    by (auto simp: sample_db_def empty_db_def sample_failed_def)
qed

text \<open>What the statistics of a pool are.  An unknown pool is answered with 404; a known pool without swaps in the
  period with an internal error, because the sums of the query are null; otherwise the answer counts the
  swaps of the period and adds up their volume.\<close>

lemma pool_stats_outcome:
  "api_get_pool_stats dv a t0 t1 d =
     (case find (\<lambda>p. p_pool_address p = a) (pools d) of
        None \<Rightarrow> (Inl (ApiNotFound (''pool stats for '' @ a)), d)
      | Some p \<Rightarrow>
          if \<exists>s \<in> set (swap_events d). s_pool_address s = a \<and> t0 \<le> s_timestamp s \<and> s_timestamp s \<le> t1
          then (Inr \<lparr>pt_pair_name = p_pair_name p, pt_swap_count = int (length (pool_swaps a t0 t1 d)),
                 pt_unique_traders = int (card (s_sender ` set (pool_swaps a t0 t1 d))),
                 pt_total_volume_in = sum_list (map s_amount_in (pool_swaps a t0 t1 d)),
                 pt_avg_trade_size = dv (of_int (sum_list (map s_amount_in (pool_swaps a t0 t1 d)))) (of_nat (length (pool_swaps a t0 t1 d))),
                 pt_liquidity_events = int (length (filter (\<lambda>l. l_pool_address l = a \<and> t0 \<le> l_timestamp l \<and> l_timestamp l \<le> t1) (liquidity_events d))),
                 pt_estimated_fees = dv (of_int (sum_list (map s_amount_in (pool_swaps a t0 t1 d)) * p_fee_tier p)) 1000000\<rparr>, d)
          else (Inl (ApiInternal ''database error''), d))"
proof -
  have "pool_swaps a t0 t1 d = [] \<longleftrightarrow> \<not> (\<exists>s \<in> set (swap_events d). s_pool_address s = a \<and> t0 \<le> s_timestamp s \<and> s_timestamp s \<le> t1)"
    by (auto simp: pool_swaps_def filter_empty_conv)
  moreover have "count_distinct xs = int (card (set xs))" for xs :: "string list"
    by (simp add: count_distinct_def length_remdups_card_conv)
  ultimately show ?thesis
    by (auto simp: api_get_pool_stats_def get_pool_stats_def ask_def select_def Let_def split: option.split)
qed

text \<open>The ranking of traders: more volume, better rank, and equal volumes share a rank.\<close>

lemma top_traders_ranked:
  assumes "r \<in> set (vw_top_traders d)" "r' \<in> set (vw_top_traders d)"
  shows "tt_volume_rank r \<le> tt_volume_rank r' \<longleftrightarrow> tt_total_volume_usd r' \<le> tt_total_volume_usd r"
proof -
  define vs where "vs = up_total_volume_usd ` set (filter (\<lambda>u. 0 < up_total_swaps u) (user_profiles d))"
  have rank: "tt_volume_rank r = 1 + int (card {v \<in> vs. tt_total_volume_usd r < v}) \<and> tt_total_volume_usd r \<in> vs"
    if "r \<in> set (vw_top_traders d)" for r
    using that by (auto simp: vw_top_traders_def Let_def count_distinct_def length_remdups_card_conv vs_def
        intro!: arg_cong [where f = card])
  have fin: "finite vs" by (simp add: vs_def)
  have less: "card {v \<in> vs. y < v} < card {v \<in> vs. x < v}" if "x < y" "y \<in> vs" for x y
    using that fin by (intro psubset_card_mono) auto
  show ?thesis
    using rank [OF assms(1)] rank [OF assms(2)] less
    by (cases "tt_total_volume_usd r" "tt_total_volume_usd r'" rule: linorder_cases) force+
qed

end
