(* ===== verification/Routes.thy ===== *)
theory Routes
  imports Admin Analytics
begin

text \<open>
  The router (\<^verbatim>\<open>crates/api/src/routes/mod.rs\<close>): which handler serves which request, and which of them
  sit behind the key check.  Tracing and CORS layers are left out.  The server's state is the
  database and the key; requests are served one after the other, each in a database that the indexer and the
  dispatcher may have changed meanwhile.  Two facts about the whole interface follow: no request without
  the key writes, and every request keeps the tables the interface owns well-formed.
\<close>

section \<open>Requests\<close>

datatype api_request =
    GetLatestBlock
  | GetBlock i64
  | ListPools "i64 option" "i64 option"
  | GetPool string
  | ListTokens "i64 option" "i64 option"
  | GetToken string
  | ListSwaps "string option" "i64 option" "i64 option"
  | GetPoolStats string instant instant
  | TopTraders "i64 option"
  | DailyVolume "string option" "i64 option" "i64 option"
  | FailedTxAnalysis
  | UnknownClusters
  | Health bool
  | FailedTxTimeseries "string option" "string option" "string option"
  | FailedTxByLabel "string option" "string option" "string option" "i64 option"
  | ListFailedTx "string option" "string option" "string option" "i64 option" "i64 option"
  | GetFailedTx string
  | CreateSubscription create_body
  | ListSubscriptions "i64 option"
  | DeactivateSubscription i64
  | RotateSecret i64
  | CreateLabel create_label_body
  | DeleteLabel string

datatype api_reply =
    LatestBlock "i64 option"
  | OneBlock block_row
  | PoolPage "pool_row paginated"
  | OnePool pool_row
  | TokenPage "token_row paginated"
  | OneToken token_row
  | SwapPage "swap_event paginated"
  | Stats pool_stats
  | Traders "top_trader paginated"
  | Volumes "daily_swap_volume paginated"
  | Analysis "failed_tx_analysis list"
  | Clusters "unknown_revert_cluster list"
  | Healthy "string \<times> string"
  | Trend "failed_tx_trend_point list"
  | ByLabel "failed_tx_by_label_point list"
  | FailedPage "failed_transaction total_paginated"
  | Detail failed_tx_detail
  | Created alert_subscription_created
  | Subscriptions "alert_subscription list"
  | NoContent
  | Labelled contract_label

fun is_admin :: "api_request \<Rightarrow> bool" where
  "is_admin (CreateSubscription _) = True"
| "is_admin (DeactivateSubscription _) = True"
| "is_admin (RotateSecret _) = True"
| "is_admin (CreateLabel _) = True"
| "is_admin (DeleteLabel _) = True"
| "is_admin _ = False"

record 'ty api_ext =
  x_auth :: auth_ext
  x_url :: url_parser
  x_hex :: "byte list \<Rightarrow> string"
  x_rfc3339 :: "string \<Rightarrow> instant option"
  x_abi :: "'ty dyn_abi"
  x_div :: pg_div

text \<open>What surrounds one request: its \<^verbatim>\<open>Authorization\<close> header, the clock and the random generator.\<close>

record request_env =
  q_authorization :: "string option"
  q_now :: instant
  q_random :: "byte list option"

definition reply :: "('a \<Rightarrow> api_reply) \<Rightarrow> 'a handler \<Rightarrow> db \<Rightarrow> ((api_error + api_reply) \<times> db) rust" where
  "reply f h d = (case h d of (r, d') \<Rightarrow> Return (map_sum id f r, d'))"

definition serve ::
    "'ty api_ext \<Rightarrow> string \<Rightarrow> request_env \<Rightarrow> api_request \<Rightarrow> db \<Rightarrow> ((api_error + api_reply) \<times> db) rust" where
  "serve X key q r =
     (case r of
        GetLatestBlock \<Rightarrow> reply LatestBlock get_latest_block
      | GetBlock n \<Rightarrow> reply OneBlock (get_block n)
      | ListPools l k \<Rightarrow> reply PoolPage (api_list_pools l k)
      | GetPool a \<Rightarrow> reply OnePool (get_pool a)
      | ListTokens l k \<Rightarrow> reply TokenPage (api_list_tokens l k)
      | GetToken a \<Rightarrow> reply OneToken (get_token a)
      | ListSwaps p l k \<Rightarrow> reply SwapPage (list_swaps p l k)
      | GetPoolStats a f t \<Rightarrow> reply Stats (api_get_pool_stats (x_div X) a f t)
      | TopTraders l \<Rightarrow> reply Traders (api_get_top_traders l)
      | DailyVolume p l k \<Rightarrow> reply Volumes (daily_volume p l k)
      | FailedTxAnalysis \<Rightarrow> reply Analysis (api_failed_tx_analysis (x_div X))
      | UnknownClusters \<Rightarrow> reply Clusters (unknown_revert_clusters (x_div X))
      | Health up \<Rightarrow> reply Healthy (health_check up)
      | FailedTxTimeseries i f t \<Rightarrow> reply Trend (api_failed_tx_timeseries (x_rfc3339 X) i f t)
      | FailedTxByLabel f t w l \<Rightarrow> reply ByLabel (failed_tx_by_label (x_rfc3339 X) f t w l)
      | ListFailedTx c f t l k \<Rightarrow> reply FailedPage (list_failed_tx (x_rfc3339 X) c f t l k)
      | GetFailedTx h \<Rightarrow> (\<lambda>d. case get_failed_tx (x_abi X) h d of
          Panic \<Rightarrow> Panic | Return (x, d') \<Rightarrow> Return (map_sum id Detail x, d'))
      | CreateSubscription b \<Rightarrow> reply (\<lambda>(_, c). Created c) (guarded (x_auth X) key (q_authorization q)
          (create_alert_subscription (x_url X) (x_hex X) (q_random q) (q_now q) b))
      | ListSubscriptions l \<Rightarrow> reply Subscriptions (api_list_alert_subscriptions l)
      | DeactivateSubscription i \<Rightarrow> reply (\<lambda>_. NoContent) (guarded (x_auth X) key (q_authorization q)
          (api_deactivate_alert_subscription i))
      | RotateSecret i \<Rightarrow> reply Created (guarded (x_auth X) key (q_authorization q)
          (api_rotate_alert_subscription_secret (x_hex X) (q_random q) i))
      | CreateLabel b \<Rightarrow> reply (\<lambda>(_, c). Labelled c) (guarded (x_auth X) key (q_authorization q)
          (create_contract_label (q_now q) b))
      | DeleteLabel a \<Rightarrow> reply (\<lambda>_. NoContent) (guarded (x_auth X) key (q_authorization q)
          (api_delete_contract_label a)))"

section \<open>The key check\<close>

definition presents_key :: "auth_ext \<Rightarrow> string \<Rightarrow> string option \<Rightarrow> bool" where
  "presents_key A key authorization \<longleftrightarrow>
     (case authorization of None \<Rightarrow> False | Some h \<Rightarrow> header_to_str A h = Some (''Bearer '' @ key))"

lemma admin_auth_iff:
  assumes "\<And>x y. ct_eq A x y \<longleftrightarrow> x = y"
  shows "admin_auth A key authorization = (if presents_key A key authorization then Inr () else Inl ApiUnauthorized)"
  by (auto simp: admin_auth_def presents_key_def assms BEARER_PREFIX_def strip_prefix_def prefix_def split: option.splits)

lemma guarded_eq:
  assumes "\<And>x y. ct_eq A x y \<longleftrightarrow> x = y"
  shows "guarded A key authorization h d =
     (if presents_key A key authorization then h d else (Inl ApiUnauthorized, d))"
  by (simp add: guarded_def admin_auth_iff [OF assms] answer_def)

lemma reads_list_subscriptions: "reads (api_list_alert_subscriptions l)"
  by (auto simp: reads_def api_list_alert_subscriptions_def ask_def list_alert_subscriptions_def split: sum.splits)

lemma reply_reads: "reads h \<Longrightarrow> reply f h d = Return (x, d') \<Longrightarrow> d' = d"
  by (auto simp: reply_def reads_def split: prod.splits dest: spec [of _ d])

lemma public_request_reads: "\<not> is_admin r \<Longrightarrow> serve X key q r d = Return (x, d') \<Longrightarrow> d' = d"
  by (cases r) (auto simp: serve_def reads_list_subscriptions intro: read_only
      dest: reply_reads [rotated] get_failed_tx_reads split: rust.splits)

lemma admin_write:
  assumes eq: "\<And>x y. ct_eq (x_auth X) x y \<longleftrightarrow> x = y"
    and s: "serve X key q r d = Return (x, d')" "d' \<noteq> d"
  shows "is_admin r \<and> presents_key (x_auth X) key (q_authorization q)"
proof
  show "is_admin r" using public_request_reads s by blast
  with s show "presents_key (x_auth X) key (q_authorization q)"
    by (cases r) (auto simp: serve_def reply_def guarded_eq [OF eq] split: if_splits)
qed

text \<open>C7: the whole interface writes only for the holder of the key.  A request that needs the key and does
  not present it is answered 401 with the same body whatever was wrong with it, before its handler runs, and
  leaves the database as it was; a request that needs no key never changes the database.  So whenever a
  request changes the database, it came with \<^verbatim>\<open>Authorization: Bearer\<close> and exactly the configured key.\<close>

theorem writes_need_the_key:
  assumes eq: "\<And>x y. ct_eq (x_auth X) x y \<longleftrightarrow> x = y"
  shows "(is_admin r \<and> \<not> presents_key (x_auth X) key (q_authorization q) \<longrightarrow>
            serve X key q r d = Return (Inl ApiUnauthorized, d)
            \<and> into_response ApiUnauthorized = (401, JObject [(''error'', JString ''unauthorized'')]))
     \<and> (\<forall>x d'. serve X key q r d = Return (x, d') \<and> d' \<noteq> d \<longrightarrow>
            is_admin r \<and> presents_key (x_auth X) key (q_authorization q))"
proof (intro conjI impI allI)
  assume "is_admin r \<and> \<not> presents_key (x_auth X) key (q_authorization q)"
  then show "serve X key q r d = Return (Inl ApiUnauthorized, d)"
    by (cases r) (simp_all add: serve_def reply_def guarded_eq [OF eq])
qed (use admin_write [OF eq] in auto)

definition sample_api_ext :: "unit api_ext" where
  "sample_api_ext = \<lparr>x_auth = \<lparr>header_to_str = (\<lambda>h. if list_all (\<lambda>c. (of_char c :: nat) < 128) h then Some h else None),
       ct_eq = (\<lambda>x y. x = y)\<rparr>,
     x_url = ae_url sample_alert_ext, x_hex = ae_hex_encode sample_alert_ext, x_rfc3339 = (\<lambda>_. None), x_abi = sample_abi,
     x_div = (/)\<rparr>"

theorem writes_need_the_key_witness:
  "serve sample_api_ext ''k3y'' \<lparr>q_authorization = Some ''Bearer key'', q_now = 0, q_random = None\<rparr> (DeactivateSubscription 7) watched_db
     = Return (Inl ApiUnauthorized, watched_db)"
proof -
  have e: "ct_eq (x_auth sample_api_ext) x y \<longleftrightarrow> x = y" for x y by (simp add: sample_api_ext_def)
  have "\<not> presents_key (x_auth sample_api_ext) ''k3y'' (Some ''Bearer key'')"
    by (simp add: presents_key_def sample_api_ext_def)
  with writes_need_the_key [OF e, where r = "DeactivateSubscription 7" and q = "\<lparr>q_authorization = Some ''Bearer key'', q_now = 0, q_random = None\<rparr>"]
  show ?thesis by simp
qed

section \<open>The tables the interface owns\<close>

definition label_ok :: "contract_label \<Rightarrow> bool" where
  "label_ok c \<longleftrightarrow> is_evm_address (c_address c) \<and> to_lowercase (c_address c) = c_address c
     \<and> c_label c \<noteq> [] \<and> length (c_label c) \<le> 100 \<and> opt_ok (\<lambda>w. w \<noteq> [] \<and> length w \<le> 100) (c_owner_id c)"

definition store_ok :: "'ty api_ext \<Rightarrow> db \<Rightarrow> bool" where
  "store_ok X d \<longleftrightarrow>
     distinct (map a_subscription_id (subscriptions d))
     \<and> (\<forall>a \<in> set (subscriptions d). a_subscription_id a < seq_subscription d
          \<and> good_subscription (x_url X) a \<and> (\<exists>key. a_signing_secret a = x_hex X key))
     \<and> distinct (map c_address (contract_labels d)) \<and> (\<forall>c \<in> set (contract_labels d). label_ok c)"

text \<open>The indexer and the dispatcher touch neither table; what else they change is arbitrary.\<close>

inductive api_step :: "'ty api_ext \<Rightarrow> string \<Rightarrow> db \<Rightarrow> db \<Rightarrow> bool" for X key where
  served: "serve X key q r d = Return (x, d') \<Longrightarrow> api_step X key d d'"
| others: "subscriptions d' = subscriptions d \<Longrightarrow> seq_subscription d' = seq_subscription d
     \<Longrightarrow> contract_labels d' = contract_labels d \<Longrightarrow> api_step X key d d'"

lemma store_ok_cong:
  assumes "subscriptions d' = subscriptions d" "seq_subscription d' = seq_subscription d" "contract_labels d' = contract_labels d"
  shows "store_ok X d' = store_ok X d"
  unfolding store_ok_def assms ..

lemma store_ok_map:
  assumes "store_ok X d" and id: "\<And>a. a_subscription_id (f a) = a_subscription_id a"
    and good: "\<And>a. good_subscription (x_url X) a \<Longrightarrow> good_subscription (x_url X) (f a)"
    and key: "\<And>a k. a_signing_secret a = x_hex X k \<Longrightarrow> \<exists>k. a_signing_secret (f a) = x_hex X k"
  shows "store_ok X (d\<lparr>subscriptions := map f (subscriptions d)\<rparr>)"
proof -
  have "map a_subscription_id (map f (subscriptions d)) = map a_subscription_id (subscriptions d)" by (simp add: id)
  then show ?thesis
    using assms(1) good key unfolding store_ok_def by (auto simp: id simp del: map_map)
qed

lemma store_ok_create:
  assumes "store_ok X d" "create_alert_subscription (x_url X) (x_hex X) random now body d = (Inr (code, c), d')"
  shows "store_ok X d'"
proof -
  from create_accepted [OF assms(2)] obtain row key where row: "a_signing_secret row = x_hex X key"
      "a_subscription_id row = seq_subscription d" "good_subscription (x_url X) row"
    and d': "d' = d\<lparr>subscriptions := subscriptions d @ [row], seq_subscription := seq_subscription d + 1\<rparr>" by blast
  have "seq_subscription d \<notin> a_subscription_id ` set (subscriptions d)" using assms(1) by (auto simp: store_ok_def)
  with row assms(1) show ?thesis by (auto simp: store_ok_def d' intro: less_imp_le)
qed

lemma store_ok_label:
  assumes "store_ok X d" "create_contract_label now body d = (r, d')"
  shows "store_ok X d'"
proof -
  let ?a = "to_lowercase (trim (lb_address body))"
  consider "d' = d" | c where "is_evm_address ?a" "trim (lb_label body) \<noteq> []" "length (trim (lb_label body)) \<le> 100"
      "opt_ok (\<lambda>w. w \<noteq> [] \<and> length w \<le> 100) (normal_owner (lb_owner_id body))"
      "upsert_contract_label now ?a (trim (lb_label body)) (normal_owner (lb_owner_id body)) d = Inr (c, d')"
    using create_label_effect [OF assms(2)] by blast
  then show ?thesis
  proof cases
    case 2
    have dist: "distinct (map c_address (contract_labels d))" using assms(1) by (simp add: store_ok_def)
    note e = upsert_contract_label_effect [OF dist 2(5), unfolded to_lowercase_idem]
    have "label_ok x" if x: "x \<in> set (contract_labels d')" for x
    proof (cases "c_address x = ?a")
      case True
      then have "x \<in> set (filter (\<lambda>x. c_address x = ?a) (contract_labels d'))" using x by simp
      then have "x = c" using e by simp
      then show ?thesis using e 2(1-4) by (simp add: label_ok_def)
    next
      case False
      then have "x \<in> set (filter (\<lambda>x. c_address x \<noteq> ?a) (contract_labels d'))" using x by simp
      then have "x \<in> set (contract_labels d)" using e by simp
      then show ?thesis using assms(1) by (simp add: store_ok_def)
    qed
    moreover have eq: "d' = d\<lparr>contract_labels := contract_labels d'\<rparr>" using e by blast
    have "subscriptions d' = subscriptions d" "seq_subscription d' = seq_subscription d"
      using arg_cong [OF eq, where f = subscriptions] arg_cong [OF eq, where f = seq_subscription] by simp_all
    ultimately show ?thesis using assms(1) e by (simp add: store_ok_def)
  qed (simp add: assms(1))
qed

lemma guarded_cases: "guarded A key z h d = (r, d') \<Longrightarrow> d' = d \<or> h d = (r, d')"
  by (auto simp: guarded_def answer_def split: sum.splits)

lemma reply_cases: "reply f h d = Return (x, d') \<Longrightarrow> \<exists>r. h d = (r, d')"
  by (auto simp: reply_def split: prod.splits)

lemma admin_reply_cases:
  "reply f (guarded A key z h) d = Return (x, d') \<Longrightarrow> d' = d \<or> (\<exists>r. h d = (r, d'))"
  by (metis reply_cases guarded_cases)

lemma store_ok_serve:
  assumes ok: "store_ok X d" and s: "serve X key q r d = Return (x, d')"
  shows "store_ok X d'"
proof (cases r)
  case (CreateSubscription b)
  then consider "d' = d" | y where "create_alert_subscription (x_url X) (x_hex X) (q_random q) (q_now q) b d = (y, d')"
    using s by (auto simp: serve_def dest!: admin_reply_cases)
  then show ?thesis
  proof cases
    case 2
    then show ?thesis
    proof (cases y)
      case (Inl e)
      with 2 create_refused ok show ?thesis by blast
    next
      case (Inr z)
      with 2 have "create_alert_subscription (x_url X) (x_hex X) (q_random q) (q_now q) b d = (Inr (fst z, snd z), d')" by simp
      from store_ok_create [OF ok this] show ?thesis .
    qed
  qed (simp add: ok)
next
  case (DeactivateSubscription i)
  then have "d' = d \<or> (\<exists>y. api_deactivate_alert_subscription i d = (y, d'))"
    using s by (auto simp: serve_def dest!: admin_reply_cases)
  then show ?thesis
    using ok by (auto dest!: deactivate_effect intro!: store_ok_map simp: good_subscription_def rate_fields_chk_def)
next
  case (RotateSecret i)
  then have "d' = d \<or> (\<exists>y. api_rotate_alert_subscription_secret (x_hex X) (q_random q) i d = (y, d'))"
    using s by (auto simp: serve_def dest!: admin_reply_cases)
  then show ?thesis
    using ok by (auto dest!: rotate_effect intro!: store_ok_map simp: good_subscription_def rate_fields_chk_def)
next
  case (CreateLabel b)
  then have "d' = d \<or> (\<exists>y. create_contract_label (q_now q) b d = (y, d'))"
    using s by (auto simp: serve_def dest!: admin_reply_cases)
  then show ?thesis using ok store_ok_label by blast
next
  case (DeleteLabel a)
  then have "d' = d \<or> (\<exists>y. api_delete_contract_label a d = (y, d'))"
    using s by (auto simp: serve_def dest!: admin_reply_cases)
  then show ?thesis
    using ok by (auto dest!: delete_label_effect simp: store_ok_def distinct_map_filter)
qed (use public_request_reads [OF _ s] ok in auto)

interpretation api: invariant_system "api_step X key" "store_ok X" for X :: "'ty api_ext" and key
proof
  show "store_ok X d'" if "store_ok X d" "api_step X key d d'" for d d'
    using that(2,1) by cases (simp_all add: store_ok_serve store_ok_cong [of d' d])
qed

text \<open>C9: the tables of the interface stay well-formed.  Starting from a well-formed database (an empty one
  is), after any number of requests, accepted or refused, interleaved with anything the indexer and the
  dispatcher do, subscription identifiers are distinct and below the next one, every subscription has an
  accepted URL, consistent rate fields, a lower-case address and a secret that is a hexadecimal key, and
  contract labels have one lower-case address each with a label of 1 to 100 bytes.\<close>

theorem interface_keeps_tables:
  assumes "store_ok X d" "(api_step X key)\<^sup>*\<^sup>* d d'"
  shows "store_ok X d'"
  using assms(2,1) by (rule api.reachable)

definition sample_label_body :: create_label_body where
  "sample_label_body = \<lparr>lb_address = '' 0x'' @ replicate 40 (CHR ''A''), lb_label = ''Router '', lb_owner_id = Some '' ''\<rparr>"

lemma sample_label_stored:
  "create_contract_label 5 sample_label_body empty_db =
     (Inr (201, \<lparr>c_address = ''0x'' @ replicate 40 (CHR ''a''), c_label = ''Router'', c_owner_id = None, c_created_at = 5\<rparr>),
      empty_db\<lparr>contract_labels := [\<lparr>c_address = ''0x'' @ replicate 40 (CHR ''a''), c_label = ''Router'', c_owner_id = None, c_created_at = 5\<rparr>]\<rparr>)"
proof -
  have a: "to_lowercase (trim (lb_address sample_label_body)) = ''0x'' @ replicate 40 (CHR ''a'')" by code_simp
  have l: "trim (lb_label sample_label_body) = ''Router''" "normal_owner (lb_owner_id sample_label_body) = None" by code_simp+
  have e: "is_evm_address (''0x'' @ replicate 40 (CHR ''a''))" by code_simp
  have t: "text_ok (''0x'' @ replicate 40 (CHR ''a''))" "text_ok ''Router''" by (simp_all add: text_ok_def)
  have lo: "to_lowercase (''0x'' @ replicate 40 (CHR ''a'')) = ''0x'' @ replicate 40 (CHR ''a'')" by code_simp
  show ?thesis
    unfolding create_contract_label_def Let_def a l
    by (simp only: and_then_answer check_that_def e if_True sum.case and_then_def ask_def upsert_contract_label_def lo t opt_ok_def)
      (simp add: MAX_LABEL_LEN_def answer_def empty_db_def Let_def)
qed

theorem interface_keeps_tables_witness:
  "\<exists>x d'. serve sample_api_ext ''k3y'' \<lparr>q_authorization = Some ''Bearer k3y'', q_now = 5, q_random = None\<rparr>
       (CreateLabel sample_label_body) empty_db = Return (x, d')
     \<and> map c_label (contract_labels d') = [''Router''] \<and> store_ok sample_api_ext d'"
proof -
  let ?q = "\<lparr>q_authorization = Some ''Bearer k3y'', q_now = 5, q_random = None\<rparr>"
  have e: "ct_eq (x_auth sample_api_ext) x y \<longleftrightarrow> x = y" for x y by (simp add: sample_api_ext_def)
  have k: "presents_key (x_auth sample_api_ext) ''k3y'' (Some ''Bearer k3y'')"
    by (simp add: presents_key_def sample_api_ext_def)
  have s: "\<exists>x. serve sample_api_ext ''k3y'' ?q (CreateLabel sample_label_body) empty_db = Return (x, snd (create_contract_label 5 sample_label_body empty_db))"
    by (simp add: serve_def reply_def guarded_eq [OF e] k split: prod.splits)
  have z: "store_ok sample_api_ext empty_db" by (simp add: store_ok_def empty_db_def)
  from s obtain x where x: "serve sample_api_ext ''k3y'' ?q (CreateLabel sample_label_body) empty_db =
      Return (x, snd (create_contract_label 5 sample_label_body empty_db))" by blast
  then have "store_ok sample_api_ext (snd (create_contract_label 5 sample_label_body empty_db))"
    by (intro interface_keeps_tables [OF z, of "''k3y''"] r_into_rtranclp api_step.served)
  with x show ?thesis by (intro exI conjI) (auto simp: sample_label_stored)
qed

end
