(* ===== verification/ApiMain.thy ===== *)
theory ApiMain
  imports Routes
begin

text \<open>
  The API's process (\<^verbatim>\<open>crates/api/src/main.rs\<close>, \<^verbatim>\<open>create_pool\<close> and \<^verbatim>\<open>run_migrations\<close> in
  \<^verbatim>\<open>crates/db/src/lib.rs\<close>): configuration, database, socket, and the requests it then serves.  The database is the
  migrated one.  A handler that panics ends its connection and nothing else.
\<close>

record api_world =
  aw_get :: "string \<Rightarrow> string option"
  aw_connects :: "string \<Rightarrow> nat \<Rightarrow> bool"
  aw_migrates :: bool
  aw_binds :: "string \<Rightarrow> bool"
  aw_requests :: "(request_env \<times> api_request) list"

datatype api_exit = Not_started string | Served "(api_error + api_reply) option list"

fun serve_all :: "'ty api_ext \<Rightarrow> string \<Rightarrow> (request_env \<times> api_request) list \<Rightarrow> db \<Rightarrow> (api_error + api_reply) option list \<times> db" where
  "serve_all X key [] d = ([], d)"
| "serve_all X key ((q, r) # rs) d =
     (case serve X key q r d of
        Panic \<Rightarrow> (case serve_all X key rs d of (ys, d') \<Rightarrow> (None # ys, d'))
      | Return (y, d1) \<Rightarrow> (case serve_all X key rs d1 of (ys, d') \<Rightarrow> (Some y # ys, d')))"

definition create_pool :: "api_world \<Rightarrow> string \<Rightarrow> nat \<Rightarrow> string + unit" where
  "create_pool w database_url max_connections =
     (if aw_connects w database_url max_connections then Inr () else Inl ''connection failed'')"

definition run_migrations :: "api_world \<Rightarrow> string + unit" where
  "run_migrations w = (if aw_migrates w then Inr () else Inl ''migration failed'')"

definition api_main :: "'ty api_ext \<Rightarrow> api_world \<Rightarrow> db \<Rightarrow> api_exit \<times> db" where
  "api_main X w d =
     (case bind_result (from_env_with (aw_get w)) (\<lambda>config.
           bind_result (create_pool w (ac_database_url config) (ac_max_db_connections config)) (\<lambda>_.
           bind_result (run_migrations w) (\<lambda>_.
           let addr = ac_host config @ '':'' @ show_nat (ac_port config) in
           if aw_binds w addr then Inr (ac_admin_api_key config) else Inl (''cannot bind '' @ addr)))) of
        Inl e \<Rightarrow> (Not_started e, d)
      | Inr key \<Rightarrow> (case serve_all X key (aw_requests w) d of (ys, d') \<Rightarrow> (Served ys, d')))"

text \<open>The server changes the database only for requests with the configured key, which is not blank; without
  it, or without a database, it serves nothing.\<close>

lemma serve_all_reads:
  assumes "\<And>x y. ct_eq (x_auth X) x y \<longleftrightarrow> x = y"
    "\<forall>(q, r) \<in> set rs. \<not> (is_admin r \<and> presents_key (x_auth X) key (q_authorization q))"
  shows "serve_all X key rs d = (ys, d') \<Longrightarrow> d' = d"
  using assms(2)
proof (induction rs arbitrary: d ys)
  case (Cons qr rs)
  obtain q r where qr: "qr = (q, r)" by fastforce
  show ?case
  proof (cases "serve X key q r d")
    case Panic
    with Cons qr show ?thesis by (auto split: prod.splits)
  next
    case (Return yd)
    obtain y d1 where yd: "yd = (y, d1)" by fastforce
    have "d1 = d" using admin_write [OF assms(1), where r = r and q = q and d = d] Return Cons.prems(2) unfolding yd qr by auto
    with Cons Return show ?thesis unfolding yd qr by (auto split: prod.splits)
  qed
qed simp

lemma api_main_writes:
  assumes eq: "\<And>x y. ct_eq (x_auth X) x y \<longleftrightarrow> x = y"
    and main: "api_main X w d = (x, d')" and changed: "d' \<noteq> d"
  shows "\<exists>c q r. from_env_with (aw_get w) = Inr c \<and> ac_admin_api_key c \<noteq> [] \<and> aw_connects w (ac_database_url c) (ac_max_db_connections c)
     \<and> aw_migrates w \<and> (q, r) \<in> set (aw_requests w) \<and> is_admin r \<and> presents_key (x_auth X) (ac_admin_api_key c) (q_authorization q)"
proof -
  obtain c ys where c: "from_env_with (aw_get w) = Inr c" "aw_connects w (ac_database_url c) (ac_max_db_connections c)" "aw_migrates w"
      "serve_all X (ac_admin_api_key c) (aw_requests w) d = (ys, d')"
    using main changed
    by (auto simp: api_main_def bind_result_def create_pool_def run_migrations_def Let_def split: sum.splits if_splits prod.splits)
  have "ac_admin_api_key c \<noteq> []" using c(1) by (auto simp: from_env_with_def split: option.splits if_splits)
  with c serve_all_reads [OF eq _ c(4)] changed show ?thesis by auto
qed

end
