(* ===== verification/Doubles.thy ===== *)
theory Doubles
  imports Encoding Complex_Main "HOL-Library.Log_Nat"
begin

text \<open>
  The 64-bit floating point numbers of Rust, as far as the terminal client computes with them: a finite number
  is a sign and a rational magnitude, and every operation rounds its exact result to 53 significant bits,
  ties to even, with the smaller steps below \<open>2 powi - 1022\<close> and infinity from \<open>2\<^bsup>1024\<^esup>\<close> on.  Parsing,
  printing with two decimals, casts and the roundings to integers follow the standard library.
\<close>

section \<open>Numbers and rounding\<close>

datatype f64 = Finite bool rat | Infinite bool | NotANumber

text \<open>The exponent of the binade a positive magnitude lies in.\<close>

definition binade :: "rat \<Rightarrow> int" where
  "binade x =
     (case quotient_of x of (a, b) \<Rightarrow>
        let k = bitlen a - bitlen b in
        if 2 powi k \<le> x then k else k - 1)"

text \<open>The nearest integer, the even one of two.\<close>

definition round_even :: "rat \<Rightarrow> int" where
  "round_even x =
     (let f = \<lfloor>x\<rfloor>; r = x - of_int f in
      if r < 1 / 2 \<or> (r = 1 / 2 \<and> even f) then f else f + 1)"

definition round_mag :: "rat \<Rightarrow> rat" where
  "round_mag x =
     (if x = 0 then 0
      else let q = 2 powi (max (binade x) (- 1022) - 52) in of_int (round_even (x / q)) * q)"

definition f64_of :: "bool \<Rightarrow> rat \<Rightarrow> f64" where
  "f64_of neg x = (let r = round_mag x in if r < 2 ^ 1024 then Finite neg r else Infinite neg)"

section \<open>Operations\<close>

definition i64_as_f64 :: "int \<Rightarrow> f64" where
  "i64_as_f64 i = f64_of (i < 0) (of_int \<bar>i\<bar>)"

fun f64_div :: "f64 \<Rightarrow> f64 \<Rightarrow> f64" where
  "f64_div (Finite s a) (Finite t b) =
     (if b \<noteq> 0 then f64_of (s \<noteq> t) (a / b) else if a = 0 then NotANumber else Infinite (s \<noteq> t))"
| "f64_div (Finite s a) (Infinite t) = Finite (s \<noteq> t) 0"
| "f64_div (Infinite s) (Finite t b) = Infinite (s \<noteq> t)"
| "f64_div _ _ = NotANumber"

fun f64_mul :: "f64 \<Rightarrow> f64 \<Rightarrow> f64" where
  "f64_mul (Finite s a) (Finite t b) = f64_of (s \<noteq> t) (a * b)"
| "f64_mul (Finite s a) (Infinite t) = (if a = 0 then NotANumber else Infinite (s \<noteq> t))"
| "f64_mul (Infinite s) (Finite t b) = (if b = 0 then NotANumber else Infinite (s \<noteq> t))"
| "f64_mul (Infinite s) (Infinite t) = Infinite (s \<noteq> t)"
| "f64_mul _ _ = NotANumber"

text \<open>\<^verbatim>\<open>round\<close> sends ties away from zero.\<close>

fun f64_round :: "f64 \<Rightarrow> f64" where
  "f64_round (Finite s m) = Finite s (of_int \<lfloor>m + 1 / 2\<rfloor>)"
| "f64_round x = x"

fun f64_ceil :: "f64 \<Rightarrow> f64" where
  "f64_ceil (Finite s m) = Finite s (of_int (if s then \<lfloor>m\<rfloor> else \<lceil>m\<rceil>))"
| "f64_ceil x = x"

text \<open>Casts truncate and saturate.\<close>

definition f64_as_int :: "int \<Rightarrow> int \<Rightarrow> f64 \<Rightarrow> int" where
  "f64_as_int lo hi x =
     (case x of
        Finite s m \<Rightarrow> clamp (if s then - \<lfloor>m\<rfloor> else \<lfloor>m\<rfloor>) lo hi
      | Infinite s \<Rightarrow> if s then lo else hi
      | NotANumber \<Rightarrow> 0)"

definition f64_as_i64 :: "f64 \<Rightarrow> i64" where
  "f64_as_i64 = f64_as_int (- (2 ^ 63)) (2 ^ 63 - 1)"

definition f64_as_usize :: "f64 \<Rightarrow> usize" where
  "f64_as_usize x = nat (f64_as_int 0 (2 ^ 64 - 1) x)"

fun is_finite :: "f64 \<Rightarrow> bool" where
  "is_finite (Finite s m) = True"
| "is_finite _ = False"

fun f64_abs :: "f64 \<Rightarrow> f64" where
  "f64_abs (Finite s m) = Finite False m"
| "f64_abs (Infinite s) = Infinite False"
| "f64_abs NotANumber = NotANumber"

text \<open>Comparison with a constant.\<close>

fun f64_ge :: "f64 \<Rightarrow> rat \<Rightarrow> bool" where
  "f64_ge (Finite s m) c \<longleftrightarrow> c \<le> (if s then - m else m)"
| "f64_ge (Infinite s) c \<longleftrightarrow> \<not> s"
| "f64_ge NotANumber c \<longleftrightarrow> False"

text \<open>\<^verbatim>\<open>format!("{:.2}", x)\<close>.\<close>

fun fmt2 :: "f64 \<Rightarrow> string" where
  "fmt2 (Finite s m) =
     (let h = nat (round_even (m * 100)) in
      (if s then ''-'' else []) @ show_nat (h div 100) @ [CHR ''.'', hex_digit (h mod 100 div 10), hex_digit (h mod 10)])"
| "fmt2 (Infinite s) = (if s then ''-inf'' else ''inf'')"
| "fmt2 NotANumber = ''NaN''"

section \<open>Parsing\<close>

definition is_digit :: "char \<Rightarrow> bool" where
  "is_digit c \<longleftrightarrow> 48 \<le> (of_char c :: nat) \<and> (of_char c :: nat) \<le> 57"

definition sign_split :: "string \<Rightarrow> bool \<times> string" where
  "sign_split s = (case s of [] \<Rightarrow> (False, []) | c # cs \<Rightarrow> if c = CHR ''-'' then (True, cs) else if c = CHR ''+'' then (False, cs) else (False, s))"

text \<open>The exponent stops growing at \<open>2\<^sup>1\<^sup>6\<close>, where every result is zero or infinite.\<close>

definition parse_exponent :: "string \<Rightarrow> int option" where
  "parse_exponent s =
     (case sign_split s of (neg, ds) \<Rightarrow>
        if ds = [] \<or> \<not> list_all is_digit ds then None
        else let e = foldl (\<lambda>e c. if e < 0x10000 then 10 * e + (of_char c - 48) else e) 0 ds in
             Some (if neg then - e else e))"

definition parse_decimal :: "string \<Rightarrow> rat option" where
  "parse_decimal s =
     (let ip = takeWhile is_digit s; r1 = dropWhile is_digit s;
          (fp, r2) = (case r1 of c # r \<Rightarrow> if c = CHR ''.'' then (takeWhile is_digit r, dropWhile is_digit r) else ([], r1) | [] \<Rightarrow> ([], []));
          e = (case r2 of [] \<Rightarrow> Some 0 | c # r \<Rightarrow> if c = CHR ''e'' \<or> c = CHR ''E'' then parse_exponent r else None) in
      if ip = [] \<and> fp = [] then None
      else case (digits_value 10 0 (ip @ fp), e) of
             (Some n, Some x) \<Rightarrow> Some (of_nat n * 10 powi (x - int (length fp)))
           | _ \<Rightarrow> None)"

definition parse_f64 :: "string \<Rightarrow> f64 option" where
  "parse_f64 s =
     (case sign_split s of (neg, t) \<Rightarrow>
        case parse_decimal t of
          Some m \<Rightarrow> Some (f64_of neg m)
        | None \<Rightarrow>
            if to_lowercase t = ''inf'' \<or> to_lowercase t = ''infinity'' then Some (Infinite neg)
            else if to_lowercase t = ''nan'' then Some NotANumber
            else None)"

section \<open>How far rounding moves a number\<close>

lemma binade_bounds:
  assumes "0 < x"
  shows "2 powi binade x \<le> x \<and> x < 2 powi (binade x + 1)"
proof -
  obtain a b where q: "quotient_of x = (a, b)" by fastforce
  have b: "0 < b" by (rule quotient_of_denom_pos [OF q])
  have x: "x = of_int a / of_int b" by (rule quotient_of_div [OF q])
  with assms b have a: "0 < a" by (simp add: zero_less_divide_iff)
  have fl: "(2 :: rat) powi (bitlen n - 1) \<le> of_int n \<and> (of_int n :: rat) < 2 powi bitlen n" if "0 < n" for n
  proof -
    have i: "2 ^ nat (bitlen n - 1) \<le> n" "n < 2 ^ nat (bitlen n)" using bitlen_bounds [OF that] by simp_all
    have p: "0 < bitlen n" using that bitlen_nonneg [of n] bitlen_eq_zero_iff [of n] by linarith
    then have "(2 :: rat) powi (bitlen n - 1) = of_int (2 ^ nat (bitlen n - 1))" "(2 :: rat) powi bitlen n = of_int (2 ^ nat (bitlen n))"
      by (simp_all add: power_int_def)
    with i show ?thesis by (simp only: of_int_le_iff of_int_less_iff)
  qed
  have "(2 :: rat) powi (bitlen a - bitlen b - 1) * of_int b \<le> 2 powi (bitlen a - bitlen b - 1) * 2 powi bitlen b"
    using fl [OF b] by (intro mult_left_mono) auto
  also have "\<dots> = (2 :: rat) powi (bitlen a - 1)" by (simp add: power_int_add [symmetric])
  finally have lo: "2 powi (bitlen a - bitlen b - 1) \<le> x" using fl [OF a] b by (simp add: x field_simps)
  have "(2 :: rat) powi bitlen a = 2 powi (bitlen a - bitlen b + 1) * 2 powi (bitlen b - 1)" by (simp add: power_int_add [symmetric])
  also have "\<dots> \<le> 2 powi (bitlen a - bitlen b + 1) * of_int b" using fl [OF b] by (intro mult_left_mono) auto
  finally have hi: "x < 2 powi (bitlen a - bitlen b + 1)" using fl [OF a] b by (simp add: x field_simps)
  show ?thesis using lo hi by (auto simp: binade_def q Let_def)
qed

lemma round_even_error: "\<bar>of_int (round_even x) - x\<bar> \<le> 1 / 2"
proof -
  have "of_int \<lfloor>x\<rfloor> \<le> x" "x < of_int \<lfloor>x\<rfloor> + 1" by linarith+
  then show ?thesis unfolding round_even_def Let_def abs_if by (simp split: if_split) linarith
qed

lemma round_even_of_int [simp]: "round_even (of_int n) = n"
  by (simp add: round_even_def)

lemma round_even_near:
  assumes "\<bar>x - of_int n\<bar> < 1 / 2"
  shows "round_even x = n"
proof -
  have "\<bar>of_int (round_even x) - of_int n\<bar> < (1 :: rat)" using round_even_error [of x] assms by linarith
  then have "\<bar>round_even x - n\<bar> < 1" by (simp flip: of_int_diff of_int_abs)
  then show ?thesis by simp
qed

lemma round_even_mono:
  assumes "x \<le> y"
  shows "round_even x \<le> round_even y"
proof (cases "\<lfloor>x\<rfloor> = \<lfloor>y\<rfloor>")
  case True
  with assms show ?thesis by (auto simp: round_even_def Let_def)
next
  case False
  with assms have "\<lfloor>x\<rfloor> + 1 \<le> \<lfloor>y\<rfloor>" using floor_mono [OF assms] by linarith
  then show ?thesis by (auto simp: round_even_def Let_def)
qed

text \<open>The step between neighbours around a positive number.\<close>

definition step_at :: "rat \<Rightarrow> rat" where
  "step_at x = 2 powi (max (binade x) (- 1022) - 52)"

lemma step_at_pos [simp]: "0 < step_at x" "step_at x \<noteq> 0"
  by (simp_all add: step_at_def)

lemma round_mag_step: "0 < x \<Longrightarrow> round_mag x = of_int (round_even (x / step_at x)) * step_at x"
  by (simp add: round_mag_def step_at_def Let_def)

lemma binade_ge:
  assumes "0 < x" "2 powi e \<le> x"
  shows "e \<le> binade x"
proof (rule ccontr)
  assume "\<not> e \<le> binade x"
  then have "(2 :: rat) powi (binade x + 1) \<le> 2 powi e" by (intro power_int_increasing) auto
  with assms binade_bounds [of x] show False by linarith
qed

lemma binade_le:
  assumes "0 < x" "x < 2 powi e"
  shows "binade x < e"
proof (rule ccontr)
  assume "\<not> binade x < e"
  then have "(2 :: rat) powi e \<le> 2 powi binade x" by (intro power_int_increasing) auto
  with assms binade_bounds [of x] show False by linarith
qed

lemma round_mag_half_step:
  assumes "0 < x"
  shows "\<bar>round_mag x - x\<bar> \<le> step_at x / 2"
proof -
  have "round_mag x - x = (of_int (round_even (x / step_at x)) - x / step_at x) * step_at x"
    by (simp add: round_mag_step [OF assms] left_diff_distrib)
  then have "\<bar>round_mag x - x\<bar> = \<bar>of_int (round_even (x / step_at x)) - x / step_at x\<bar> * step_at x"
    by (simp add: abs_mult abs_of_pos)
  also have "\<dots> \<le> 1 / 2 * step_at x" by (intro mult_right_mono round_even_error less_imp_le step_at_pos(1))
  finally show ?thesis by simp
qed

lemma round_mag_error:
  assumes "2 powi (- 1022) \<le> x"
  shows "\<bar>round_mag x - x\<bar> \<le> x / 2 ^ 53"
proof -
  have x: "0 < x" using assms by (rule order.strict_trans2 [rotated]) simp
  have "step_at x = 2 powi binade x / 2 ^ 52"
    using binade_ge [OF x assms] by (simp add: step_at_def max_def power_int_diff)
  also have "\<dots> \<le> x / 2 ^ 52" using binade_bounds [OF x] by (intro divide_right_mono) auto
  finally show ?thesis using round_mag_half_step [OF x] by simp
qed

lemma round_mag_0 [simp]: "round_mag 0 = 0"
  by (simp add: round_mag_def)

text \<open>A multiple of the step is not moved.\<close>

lemma round_mag_exact:
  assumes "0 < x" "x = of_int k * step_at x"
  shows "round_mag x = x"
proof -
  have "x / step_at x = of_int k" by (subst (1) assms(2)) simp
  then show ?thesis using assms(2) by (simp add: round_mag_step [OF assms(1)])
qed

lemma round_mag_nat:
  assumes "n \<le> 2 ^ 53"
  shows "round_mag (of_nat n) = of_nat n"
proof (cases "n = 0 \<or> n = 2 ^ 53")
  case False
  then have n: "0 < (of_nat n :: rat)" "1 \<le> (of_nat n :: rat)" by simp_all
  have "of_nat n < (2 :: rat) ^ 53" using assms False by (metis le_neq_implies_less of_nat_less_iff of_nat_numeral of_nat_power)
  then have e: "binade (of_nat n) < 53" by (intro binade_le) (use n in auto)
  have e0: "0 \<le> binade (of_nat n)" by (intro binade_ge) (use n in auto)
  have "step_at (of_nat n) = 2 powi (- int (nat (52 - binade (of_nat n))))" using e e0 by (simp add: step_at_def max_def)
  also have "\<dots> = inverse (2 ^ nat (52 - binade (of_nat n)))" by (simp only: power_int_minus power_int_of_nat)
  finally have "of_nat n = of_int (int n * 2 ^ nat (52 - binade (of_nat n))) * step_at (of_nat n)" by simp
  from round_mag_exact [OF n(1) this] show ?thesis .
next
  case True
  have "binade (2 ^ 53) < 54" by (rule binade_le) simp_all
  moreover have "53 \<le> binade (2 ^ 53)" by (rule binade_ge) simp_all
  ultimately have "binade (2 ^ 53) = 53" by linarith
  then have "step_at (2 ^ 53) = 2" unfolding step_at_def by simp
  then have "round_mag (2 ^ 53) = 2 ^ 53" by (intro round_mag_exact [of _ "2 ^ 52"]) simp_all
  with True show ?thesis by auto
qed

lemma step_at_mono: "0 < x \<Longrightarrow> x \<le> y \<Longrightarrow> step_at x \<le> step_at y"
proof -
  assume h: "0 < x" "x \<le> y"
  then have "binade x \<le> binade y" using binade_bounds [OF h(1)] by (intro binade_ge) auto
  then show ?thesis by (auto simp: step_at_def intro!: power_int_increasing)
qed

lemma round_mag_nonneg: "0 \<le> x \<Longrightarrow> 0 \<le> round_mag x"
proof (cases "x = 0")
  case False
  assume "0 \<le> x"
  then have "round_even 0 \<le> round_even (x / step_at x)" by (intro round_even_mono) (simp add: less_imp_le)
  then show ?thesis using \<open>0 \<le> x\<close> False round_even_of_int [of 0] by (simp add: round_mag_step less_imp_le)
qed simp

lemma round_mag_mono:
  assumes "0 \<le> x" "x \<le> y"
  shows "round_mag x \<le> round_mag y"
proof (cases "x = 0")
  case False
  with assms have x: "0 < x" and y: "0 < y" by simp_all
  show ?thesis
  proof (cases "step_at x = step_at y")
    case True
    then have "x / step_at x \<le> y / step_at y" using assms(2) by (simp add: divide_right_mono less_imp_le)
    then show ?thesis using True by (simp add: round_mag_step x y round_even_mono mult_right_mono less_imp_le)
  next
    case diff: False
    define e where "e = max (binade x) (- 1022)"
    have ey: "e < binade y"
    proof (rule ccontr)
      assume "\<not> e < binade y"
      then have "step_at y \<le> step_at x" by (auto simp: step_at_def e_def intro!: power_int_increasing)
      with step_at_mono [OF x assms(2)] diff show False by simp
    qed
    have sy: "step_at y = 2 powi (binade y - 52)"
    proof -
      have "- 1022 < binade y" using ey by (simp add: e_def)
      then show ?thesis by (simp add: step_at_def max_def)
    qed
    have "x < 2 powi (e + 1)"
    proof -
      have "(2 :: rat) powi (binade x + 1) \<le> 2 powi (e + 1)" by (intro power_int_increasing) (auto simp: e_def)
      with binade_bounds [OF x] show ?thesis by linarith
    qed
    also have "(2 :: rat) powi (e + 1) = 2 ^ 53 * step_at x"
      unfolding step_at_def e_def [symmetric] by (simp add: power_int_diff power_int_add)
    finally have "x / step_at x \<le> of_int (2 ^ 53)" by (simp add: field_simps)
    then have "round_even (x / step_at x) \<le> 2 ^ 53" using round_even_mono by (metis round_even_of_int)
    then have "of_int (round_even (x / step_at x)) \<le> (2 ^ 53 :: rat)"
      by (metis of_int_le_iff of_int_numeral of_int_power)
    then have "round_mag x \<le> 2 ^ 53 * step_at x" using x by (simp add: round_mag_step mult_right_mono less_imp_le)
    also have "\<dots> = 2 powi (e + 1)" unfolding step_at_def e_def [symmetric] by (simp add: power_int_diff power_int_add)
    also have "\<dots> \<le> 2 powi binade y" using ey by (intro power_int_increasing) auto
    also have "\<dots> = 2 ^ 52 * step_at y" by (simp add: sy power_int_diff)
    also have "\<dots> \<le> round_mag y"
    proof -
      have "of_int (2 ^ 52) * step_at y \<le> y"
        using binade_bounds [OF y] by (simp add: sy power_int_diff)
      then have "of_int (2 ^ 52) \<le> y / step_at y" by (simp add: field_simps)
      then have "2 ^ 52 \<le> round_even (y / step_at y)" using round_even_mono by (metis round_even_of_int)
      then have "(2 ^ 52 :: rat) \<le> of_int (round_even (y / step_at y))"
        by (metis of_int_le_iff of_int_numeral of_int_power)
      then show ?thesis using y by (simp add: round_mag_step mult_right_mono less_imp_le)
    qed
    finally show ?thesis .
  qed
qed (use assms round_mag_nonneg in simp)

section \<open>Integers as floating point numbers\<close>

lemma two53: "(2 :: rat) ^ 53 < 2 ^ 1024"
  by (rule power_strict_increasing) simp_all

lemma f64_of_small: "0 \<le> x \<Longrightarrow> x \<le> 2 ^ 53 \<Longrightarrow> f64_of neg x = Finite neg (round_mag x)"
proof -
  assume h: "0 \<le> x" "x \<le> 2 ^ 53"
  have "round_mag x \<le> round_mag (of_nat (2 ^ 53))" by (rule round_mag_mono) (use h in simp_all)
  also have "\<dots> = 2 ^ 53" by (subst round_mag_nat) simp_all
  finally show ?thesis using two53 by (simp add: f64_of_def Let_def)
qed

lemma f64_of_nat: "n \<le> 2 ^ 53 \<Longrightarrow> f64_of neg (of_nat n) = Finite neg (of_nat n)"
proof -
  assume h: "n \<le> 2 ^ 53"
  then have "(of_nat n :: rat) \<le> 2 ^ 53" by (metis of_nat_le_iff of_nat_numeral of_nat_power)
  then show ?thesis using h by (simp add: f64_of_small round_mag_nat)
qed

lemma i64_as_f64_small: "\<bar>i\<bar> \<le> 2 ^ 53 \<Longrightarrow> i64_as_f64 i = Finite (i < 0) (of_int \<bar>i\<bar>)"
  using f64_of_nat [of "nat \<bar>i\<bar>" "i < 0"] by (simp add: i64_as_f64_def nat_le_iff)

text \<open>A quotient of small integers rounded to a floating point number keeps its place between the integers.\<close>

lemma round_mag_quotient:
  assumes "0 < t" "t < 2 ^ 53" "1 \<le> l"
  shows "\<bar>round_mag (of_int t / of_int l) - of_int t / of_int l\<bar> < 1 / of_int l \<or> l > t"
proof (cases "l > t")
  case False
  define x :: rat where "x = of_int t / of_int l"
  have "1 \<le> x" using assms False by (simp add: x_def)
  moreover have "(2 :: rat) powi (- 1022) \<le> 2 powi 0" by (rule power_int_increasing) auto
  ultimately have "\<bar>round_mag x - x\<bar> \<le> x / 2 ^ 53" by (intro round_mag_error) simp
  also have "\<dots> < 1 / of_int l"
  proof -
    have "(of_int t :: rat) < 2 ^ 53" using assms(2) by (metis of_int_less_iff of_int_numeral of_int_power)
    then show ?thesis using assms(3) by (simp add: x_def field_simps)
  qed
  finally show ?thesis by (simp add: x_def)
qed simp

lemma ceiling_round_mag_quotient:
  assumes "0 < t" "t < 2 ^ 53" "1 \<le> l" "l < 2 ^ 53"
  shows "\<lceil>round_mag (of_int t / of_int l)\<rceil> = \<lceil>of_int t / (of_int l :: rat)\<rceil>"
proof -
  define x :: rat where "x = of_int t / of_int l"
  define k where "k = \<lceil>x\<rceil>"
  have x: "0 < x" using assms by (simp add: x_def)
  have k: "of_int (k - 1) < x" "x \<le> of_int k" unfolding k_def by linarith+
  have x53: "x \<le> of_int t" using assms by (simp add: x_def field_simps)
  then have k53: "0 < k" "k \<le> 2 ^ 53" using x assms(2) by (auto simp: k_def ceiling_le_iff)
  have "round_mag x \<le> round_mag (of_nat (nat k))" using x k(2) k53 by (intro round_mag_mono) auto
  also have "\<dots> = of_int k" using k53 by (subst round_mag_nat) (auto simp: nat_le_iff)
  finally have up: "round_mag x \<le> of_int k" .
  have "of_int (k - 1) < round_mag x"
  proof (cases "l > t")
    case True
    then have "x < 1" using assms by (simp add: x_def)
    then have k1: "k = 1" using x by (simp add: k_def ceiling_eq_iff)
    have "1 / 2 ^ 53 \<le> x" using assms
    proof -
      have "(of_int l :: rat) \<le> 2 ^ 53" using assms(4) by (metis less_imp_le of_int_le_iff of_int_numeral of_int_power)
      moreover have "(1 :: rat) \<le> of_int t" using assms(1) by simp
      ultimately have "1 * of_int l \<le> of_int t * (2 :: rat) ^ 53" using assms by (intro mult_mono) auto
      then show ?thesis using assms by (simp add: x_def field_simps)
    qed
    moreover have "(2 :: rat) powi (- 1022) \<le> 2 powi (- 53)" by (rule power_int_increasing) auto
    moreover have "(2 :: rat) powi (- 53) = 1 / 2 ^ 53" by (simp add: power_int_minus_divide)
    ultimately have "\<bar>round_mag x - x\<bar> \<le> x / 2 ^ 53" by (intro round_mag_error) linarith
    moreover have "x / 2 ^ 53 < x" using x by simp
    ultimately have "0 < round_mag x" by linarith
    then show ?thesis by (simp add: k1)
  next
    case False
    have l: "(0 :: rat) < of_int l" using assms(3) by simp
    have "of_int (k - 1) * of_int l < (of_int t :: rat)" using k(1) l unfolding x_def by (simp only: pos_less_divide_eq)
    then have "(k - 1) * l < t" by (simp only: of_int_mult [symmetric] of_int_less_iff)
    then have "(k - 1) * l + 1 \<le> t" by simp
    then have "of_int ((k - 1) * l + 1) \<le> (of_int t :: rat)" by (simp only: of_int_le_iff)
    then have "(of_int (k - 1) * of_int l + 1) / of_int l \<le> x"
      using l unfolding x_def by (intro divide_right_mono) simp_all
    then have "of_int (k - 1) + 1 / of_int l \<le> x" using l by (simp add: add_divide_distrib)
    with round_mag_quotient [OF assms(1-3)] False show ?thesis unfolding x_def [symmetric] by linarith
  qed
  with up have "\<lceil>round_mag x\<rceil> = k" by (simp add: ceiling_eq_iff)
  then show ?thesis by (simp add: k_def x_def)
qed

text \<open>\<^verbatim>\<open>((t as f64) / (l as f64)).ceil() as i64\<close> is the quotient rounded up.\<close>

lemma minus_div_ceil:
  fixes l t :: int
  assumes "0 < l"
  shows "- (- t div l) = (t + l - 1) div l"
proof -
  define q where "q = - (- t div l)"
  have "- t = - q * l + (- t) mod l" by (simp add: q_def)
  then have t: "t + l - 1 = q * l + (l - 1 - (- t) mod l)" by (simp add: algebra_simps)
  have "(l - 1 - (- t) mod l) div l = 0"
    using assms pos_mod_bound [of l "- t"] pos_mod_sign [of l "- t"] by (intro div_pos_pos_trivial) linarith+
  then have "(q * l + (l - 1 - (- t) mod l)) div l = q" using assms by simp
  then show ?thesis unfolding t q_def by simp
qed

lemma f64_ceil_quotient:
  assumes "0 \<le> t" "t < 2 ^ 53" "1 \<le> l" "l < 2 ^ 53"
  shows "f64_as_i64 (f64_ceil (f64_div (i64_as_f64 t) (i64_as_f64 l))) = (t + l - 1) div l"
proof -
  have i: "i64_as_f64 t = Finite False (of_int t)" "i64_as_f64 l = Finite False (of_int l)"
    using assms by (simp_all add: i64_as_f64_small)
  have c: "\<lceil>of_int t / (of_int l :: rat)\<rceil> = (t + l - 1) div l"
  proof -
    have "\<lceil>of_int t / (of_int l :: rat)\<rceil> = - (- t div l)" using ceiling_divide_eq_div [of t l] by simp
    also have "\<dots> = (t + l - 1) div l"
      by (rule minus_div_ceil) (use assms(3) in simp)
    finally show ?thesis .
  qed
  show ?thesis
  proof (cases "t = 0")
    case True
    then show ?thesis using assms i by (simp add: f64_as_i64_def f64_as_int_def f64_of_def clamp_def)
  next
    case False
    then have t: "0 < t" using assms by simp
    have "of_int t / (of_int l :: rat) \<le> of_int t"
      using assms mult_right_mono [of 1 "of_int l :: rat" "of_int t"] by (simp add: divide_le_eq mult.commute)
    moreover have "(of_int t :: rat) \<le> 2 ^ 53" using assms(2) by (metis less_imp_le of_int_le_iff of_int_numeral of_int_power)
    ultimately have "f64_of False (of_int t / of_int l) = Finite False (round_mag (of_int t / of_int l))"
      using assms by (intro f64_of_small) auto
    moreover have "(t + l - 1) div l \<le> t" using assms t
      by (smt (verit) c ceiling_le_iff calculation \<open>of_int t / (of_int l :: rat) \<le> of_int t\<close>)
    moreover have "0 \<le> (t + l - 1) div l" using assms by (simp add: pos_imp_zdiv_nonneg_iff)
    ultimately show ?thesis using assms ceiling_round_mag_quotient [OF t assms(2-4)]
      by (simp add: i c f64_as_i64_def f64_as_int_def clamp_id)
  qed
qed

section \<open>Decimals\<close>

text \<open>A number with two decimals survives the way through a floating point number.\<close>

lemma fmt2_hundredths:
  assumes "h < 2 ^ 52"
  shows "fmt2 (f64_of False (of_nat h / 100))
     = show_nat (h div 100) @ [CHR ''.'', hex_digit (h mod 100 div 10), hex_digit (h mod 10)]"
proof -
  define x :: rat where "x = of_nat h / 100"
  have h52: "(of_nat h :: rat) < 2 ^ 52" using assms by (metis of_nat_less_iff of_nat_numeral of_nat_power)
  then have "x \<le> 2 ^ 53" by (simp add: x_def)
  then have f: "f64_of False x = Finite False (round_mag x)" by (intro f64_of_small) (simp_all add: x_def)
  have "\<bar>round_mag x * 100 - of_int (int h)\<bar> < 1 / 2"
  proof (cases "h = 0")
    case False
    then have "1 / 100 \<le> x" by (simp add: x_def)
    moreover have "(2 :: rat) powi (- 1022) \<le> 2 powi (- 7)" by (rule power_int_increasing) auto
    moreover have "(2 :: rat) powi (- 7) = 1 / 128" by (simp add: power_int_minus_divide)
    ultimately have e: "\<bar>round_mag x - x\<bar> \<le> x / 2 ^ 53" by (intro round_mag_error) linarith
    have "\<bar>round_mag x * 100 - of_int (int h)\<bar> = \<bar>round_mag x - x\<bar> * 100" by (simp add: x_def abs_if)
    also have "\<dots> \<le> x / 2 ^ 53 * 100" using e by simp
    also have "\<dots> < 1 / 2" using h52 by (simp add: x_def)
    finally show ?thesis .
  qed (simp add: x_def)
  then have "round_even (round_mag x * 100) = int h" by (rule round_even_near)
  then show ?thesis unfolding x_def [symmetric] f by (simp add: Let_def)
qed

lemma sign_split_unsigned: "s \<noteq> [] \<Longrightarrow> hd s \<noteq> CHR ''-'' \<Longrightarrow> hd s \<noteq> CHR ''+'' \<Longrightarrow> sign_split s = (False, s)"
  by (cases s) (simp_all add: sign_split_def)

lemma is_digit_hex_digit: "n < 10 \<Longrightarrow> is_digit (hex_digit n)"
  by (simp add: is_digit_def of_char_hex_digit)

lemma show_nat_all_digits: "list_all is_digit (show_nat n)"
proof (induction n rule: show_nat.induct)
  case (1 n)
  then show ?case
    by (cases "n < 10") (subst show_nat.simps, simp add: is_digit_hex_digit)+
qed

lemma parse_decimal_hundredths:
  assumes "h2 < 10" "h1 < 10"
  shows "parse_decimal (show_nat a @ [CHR ''.'', hex_digit h1, hex_digit h2]) = Some (of_nat (a * 100 + h1 * 10 + h2) / 100)"
proof -
  let ?s = "show_nat a @ [CHR ''.'', hex_digit h1, hex_digit h2]"
  have d: "takeWhile is_digit ?s = show_nat a" "dropWhile is_digit ?s = [CHR ''.'', hex_digit h1, hex_digit h2]"
    using takeWhile_split [of "show_nat a" is_digit "[CHR ''.'', hex_digit h1, hex_digit h2]"] show_nat_all_digits [of a]
    by (simp_all add: list_all_iff is_digit_def)
  show ?thesis
    using assms by (simp add: parse_decimal_def d is_digit_hex_digit digits_value_append digits_value_show_nat power_int_minus_divide)
qed

end
