(* ===== verification/TuiFormat.thy ===== *)
theory TuiFormat
  imports Models Doubles
begin

text \<open>
  Display helpers of the terminal client (\<^verbatim>\<open>crates/tui/src/format.rs\<close>): categories as the API spells
  them, labels and colours, floating point numbers in a compact form and as percentages, digit grouping, shortened
  hashes and relative times.
\<close>

section \<open>Categories\<close>

definition CATEGORIES :: "string list" where
  "CATEGORIES = [''INSUFFICIENT_BALANCE'', ''INSUFFICIENT_ALLOWANCE'', ''SLIPPAGE_EXCEEDED'', ''SLIPPAGE_AMOUNT_OUT'',
     ''SLIPPAGE_AMOUNT_IN'', ''SLIPPAGE_PRICE_IMPACT'', ''DEADLINE_EXPIRED'', ''UNAUTHORIZED'', ''TRANSFER_FAILED'', ''UNKNOWN'']"

definition normalize_category :: "string \<Rightarrow> string" where
  "normalize_category raw =
     (if raw = ''InsufficientBalance'' \<or> raw = ''INSUFFICIENT_BALANCE'' then ''INSUFFICIENT_BALANCE''
      else if raw = ''InsufficientAllowance'' \<or> raw = ''INSUFFICIENT_ALLOWANCE'' then ''INSUFFICIENT_ALLOWANCE''
      else if raw = ''SlippageExceeded'' \<or> raw = ''SLIPPAGE_EXCEEDED'' then ''SLIPPAGE_EXCEEDED''
      else if raw = ''SlippageAmountOut'' \<or> raw = ''SLIPPAGE_AMOUNT_OUT'' then ''SLIPPAGE_AMOUNT_OUT''
      else if raw = ''SlippageAmountIn'' \<or> raw = ''SLIPPAGE_AMOUNT_IN'' then ''SLIPPAGE_AMOUNT_IN''
      else if raw = ''SlippagePriceImpact'' \<or> raw = ''SLIPPAGE_PRICE_IMPACT'' then ''SLIPPAGE_PRICE_IMPACT''
      else if raw = ''DeadlineExpired'' \<or> raw = ''DEADLINE_EXPIRED'' then ''DEADLINE_EXPIRED''
      else if raw = ''Unauthorized'' \<or> raw = ''UNAUTHORIZED'' then ''UNAUTHORIZED''
      else if raw = ''TransferFailed'' \<or> raw = ''TRANSFER_FAILED'' then ''TRANSFER_FAILED''
      else ''UNKNOWN'')"

definition error_category_label :: "string \<Rightarrow> string" where
  "error_category_label raw =
     (let c = normalize_category raw in
      if c = ''INSUFFICIENT_BALANCE'' then ''Insufficient balance''
      else if c = ''INSUFFICIENT_ALLOWANCE'' then ''Insufficient allowance''
      else if c = ''SLIPPAGE_EXCEEDED'' then ''Slippage exceeded''
      else if c = ''SLIPPAGE_AMOUNT_OUT'' then ''Slippage (amount out)''
      else if c = ''SLIPPAGE_AMOUNT_IN'' then ''Slippage (amount in)''
      else if c = ''SLIPPAGE_PRICE_IMPACT'' then ''Slippage (price impact)''
      else if c = ''DEADLINE_EXPIRED'' then ''Deadline expired''
      else if c = ''UNAUTHORIZED'' then ''Unauthorized''
      else if c = ''TRANSFER_FAILED'' then ''Transfer failed''
      else ''Unknown'')"

type_synonym color = "nat \<times> nat \<times> nat"

definition error_category_color :: "string \<Rightarrow> color" where
  "error_category_color raw =
     (let c = normalize_category raw in
      if c = ''INSUFFICIENT_BALANCE'' then (0xF6, 0x60, 0x61)
      else if c = ''INSUFFICIENT_ALLOWANCE'' then (0xFF, 0x89, 0x89)
      else if c = ''SLIPPAGE_EXCEEDED'' then (0xF4, 0xBD, 0x50)
      else if c = ''SLIPPAGE_AMOUNT_OUT'' then (0xFF, 0xD5, 0x80)
      else if c = ''SLIPPAGE_AMOUNT_IN'' then (0xE5, 0xA9, 0x3D)
      else if c = ''SLIPPAGE_PRICE_IMPACT'' then (0xC9, 0x92, 0x32)
      else if c = ''DEADLINE_EXPIRED'' then (0xE8, 0x89, 0x57)
      else if c = ''UNAUTHORIZED'' then (0xC9, 0x81, 0xE6)
      else if c = ''TRANSFER_FAILED'' then (0xE0, 0x6D, 0x6E)
      else (0x88, 0x88, 0x88))"

definition cluster_kind_color :: "string \<Rightarrow> color" where
  "cluster_kind_color kind =
     (if kind = ''CUSTOM_ERROR'' then (0xC9, 0x81, 0xE6)
      else if kind = ''PANIC'' then (0xF6, 0x60, 0x61)
      else if kind = ''TEXT'' then (0xF4, 0xBD, 0x50)
      else (0x88, 0x88, 0x88))"

section \<open>Floating point numbers\<close>

definition to_number :: "string \<Rightarrow> f64" where
  "to_number s =
     (let n = unwrap_or (parse_f64 (trim s)) NotANumber in if is_finite n then n else Finite False 0)"

definition trim_end_matches :: "char \<Rightarrow> string \<Rightarrow> string" where
  "trim_end_matches c s = rev (dropWhile (\<lambda>x. x = c) (rev s))"

definition trim_zeros :: "string \<Rightarrow> string" where
  "trim_zeros s = (if CHR ''.'' \<in> set s then trim_end_matches CHR ''.'' (trim_end_matches CHR ''0'' s) else s)"

definition format_compact :: "f64 \<Rightarrow> string" where
  "format_compact n =
     (let mag = f64_abs n;
          (d, suffix) =
            (if f64_ge mag (10 ^ 12) then (Finite False (10 ^ 12), ''T'')
             else if f64_ge mag (10 ^ 9) then (Finite False (10 ^ 9), ''B'')
             else if f64_ge mag (10 ^ 6) then (Finite False (10 ^ 6), ''M'')
             else if f64_ge mag (10 ^ 3) then (Finite False (10 ^ 3), ''K'')
             else (Finite False 1, [])) in
      trim_zeros (fmt2 (f64_div n d)) @ suffix)"

definition format_pct_str :: "string \<Rightarrow> string" where
  "format_pct_str s = fmt2 (to_number s) @ ''%''"

section \<open>Numbers, hashes and times\<close>

text \<open>The loop of \<^verbatim>\<open>group_thousands\<close>: \<open>i\<close> is the index of the next digit, \<open>len\<close> the number of digits.\<close>

fun group_loop :: "nat \<Rightarrow> nat \<Rightarrow> string \<Rightarrow> string" where
  "group_loop len i [] = []"
| "group_loop len i (b # bs) =
     (if 0 < i \<and> (len - i) mod 3 = 0 then [CHR '','', b] else [b]) @ group_loop len (i + 1) bs"

definition group_thousands :: "i64 \<Rightarrow> string" where
  "group_thousands n =
     (let digits = show_nat (nat \<bar>n\<bar>); out = group_loop (length digits) 0 digits in
      if n < 0 then ''-'' @ out else out)"

text \<open>The ellipsis is one character of three bytes.\<close>

definition truncate_hash :: "string \<Rightarrow> string rust" where
  "truncate_hash s =
     (if length s \<le> 12 then Return s
      else if is_char_boundary s 6 \<and> is_char_boundary s (length s - 4)
      then Return (take 6 s @ [CHR 0xE2, CHR 0x80, CHR 0xA6] @ drop (length s - 4) s)
      else Panic)"

text \<open>\<^verbatim>\<open>num_seconds\<close> truncates towards zero; instants count microseconds.\<close>

definition num_seconds :: "int \<Rightarrow> int" where
  "num_seconds d = (if 0 \<le> d then d div 1000000 else - (- d div 1000000))"

definition time_ago_at :: "(string \<Rightarrow> instant option) \<Rightarrow> string \<Rightarrow> instant \<Rightarrow> string" where
  "time_ago_at rfc3339 iso_text now =
     (case rfc3339 iso_text of
        None \<Rightarrow> iso_text
      | Some t \<Rightarrow>
          let secs = num_seconds (now - t) in
          if secs < 60 then ''just now''
          else let mins = secs div 60 in
          if mins < 60 then show_int mins @ ''m ago''
          else let hours = mins div 60 in
          if hours < 24 then show_int hours @ ''h ago''
          else let days = hours div 24 in
          if days < 30 then show_int days @ ''d ago''
          else let months = days div 30 in
          if months < 12 then show_int months @ ''mo ago''
          else show_int (months div 12) @ ''y ago'')"

section \<open>The two spellings of a category\<close>

text \<open>The API writes a category in one spelling and takes it as a filter in another.\<close>

lemma CATEGORIES_wire: "c \<in> set CATEGORIES \<longleftrightarrow> (\<exists>k. c = as_wire k)"
proof
  show "c \<in> set CATEGORIES" if "\<exists>k. c = as_wire k"
    using that by (elim exE, case_tac k) (simp_all add: CATEGORIES_def)
  show "\<exists>k. c = as_wire k" if "c \<in> set CATEGORIES"
    using that by (auto simp: CATEGORIES_def intro: as_wire.simps [symmetric])
qed

lemma CATEGORIES_distinct: "distinct CATEGORIES"
  by (simp add: CATEGORIES_def)

lemma normalize_category_wire: "normalize_category (as_wire k) = as_wire k"
  by (cases k) (simp_all add: normalize_category_def)

section \<open>Grouped digits\<close>

lemma group_loop_digits: "list_all (\<lambda>c. c \<noteq> CHR '','') s \<Longrightarrow> filter (\<lambda>c. c \<noteq> CHR '','') (group_loop len i s) = s"
  by (induction len i s rule: group_loop.induct) auto

text \<open>A comma stands exactly where the number of digits to its right is a positive multiple of three
  and there is a digit to its left.\<close>

lemma group_loop_commas:
  assumes "list_all (\<lambda>c. c \<noteq> CHR '','') s" "i + length s = len"
  shows "group_loop len i s = u @ [CHR '',''] @ v \<Longrightarrow>
     3 dvd length (filter (\<lambda>c. c \<noteq> CHR '','') v) \<and> v \<noteq> []"
  using assms
proof (induction len i s arbitrary: u rule: group_loop.induct)
  case (2 len i b bs)
  show ?case
  proof (cases "0 < i \<and> (len - i) mod 3 = 0 \<and> u = []")
    case True
    with 2 have "v = b # group_loop len (i + 1) bs" by simp
    with 2 True show ?thesis by (auto simp: group_loop_digits)
  next
    case False
    with 2 show ?thesis
      by (cases u; cases "tl u") (auto split: if_splits)
  qed
qed simp

section \<open>Percentages\<close>

lemma drop_forms_keeps:
  assumes "\<And>w. w \<in> set ws \<Longrightarrow> w = [] \<or> hd w \<noteq> c"
  shows "drop_forms ws (c # s) = c # s"
proof -
  have "\<not> (w \<noteq> [] \<and> take (length w) (c # s) = w)" if "w \<in> set ws" for w
    using assms [OF that] by (cases w) auto
  then have "find (\<lambda>w. w \<noteq> [] \<and> take (length w) (c # s) = w) ws = None" by (simp add: find_None_iff)
  then show ?thesis by (simp only: drop_forms.simps option.case)
qed

lemma white_space_bytes:
  assumes "33 \<le> (of_char c :: nat)" "(of_char c :: nat) < 128"
  shows "\<forall>w \<in> set white_space. c \<notin> set w"
  using assms by (auto simp: white_space_def)

lemma drop_forms_ascii:
  assumes "33 \<le> (of_char c :: nat)" "(of_char c :: nat) < 128"
  shows "drop_forms white_space (c # s) = c # s" "drop_forms (map rev white_space) (c # s) = c # s"
proof -
  have "w = [] \<or> hd w \<noteq> c" if "c \<notin> set w" for w using that hd_in_set by metis
  then have "w = [] \<or> hd w \<noteq> c" if "w \<in> set white_space \<union> rev ` set white_space" for w
    using white_space_bytes [OF assms] that by (metis UnE imageE set_rev)
  then show "drop_forms white_space (c # s) = c # s" "drop_forms (map rev white_space) (c # s) = c # s"
    by (intro drop_forms_keeps; simp)+
qed

lemma trim_ascii:
  assumes "s \<noteq> []" "33 \<le> (of_char (hd s) :: nat)" "(of_char (hd s) :: nat) < 128"
    "33 \<le> (of_char (last s) :: nat)" "(of_char (last s) :: nat) < 128"
  shows "trim s = s"
proof -
  have "drop_forms white_space s = s" using drop_forms_ascii(1) [of "hd s" "tl s"] assms by simp
  moreover have "drop_forms (map rev white_space) (rev s) = rev s"
    using drop_forms_ascii(2) [of "last s" "rev (butlast s)"] assms by (metis append_butlast_last_id rev.simps(2) rev_rev_ident)
  ultimately show ?thesis by (simp add: trim_def)
qed

text \<open>A percentage that the API sends with two decimals is shown with exactly these digits.\<close>

lemma format_pct_hundredths:
  assumes "h < 2 ^ 52"
  defines "wire \<equiv> show_nat (h div 100) @ [CHR ''.'', hex_digit (h mod 100 div 10), hex_digit (h mod 10)]"
  shows "format_pct_str wire = wire @ ''%''"
proof -
  have d: "48 \<le> (of_char c :: nat) \<and> (of_char c :: nat) < 58" if "is_digit c" for c using that by (auto simp: is_digit_def)
  have hd: "is_digit (hd wire)" using show_nat_all_digits [of "h div 100"] by (simp add: wire_def list_all_iff)
  have la: "is_digit (last wire)" by (simp add: wire_def is_digit_hex_digit)
  have ne: "wire \<noteq> []" by (simp add: wire_def)
  have "trim wire = wire" using d [OF hd] d [OF la] ne by (intro trim_ascii) simp_all
  moreover have "sign_split wire = (False, wire)"
  proof -
    have "hd wire \<noteq> CHR ''-''" "hd wire \<noteq> CHR ''+''" using d [OF hd] by (safe; simp)+
    with ne show ?thesis by (intro sign_split_unsigned)
  qed
  moreover have "parse_decimal wire = Some (of_nat h / 100)"
  proof -
    have "h mod 10 = h mod 100 mod 10" by (simp add: mod_mod_cancel)
    then have h: "h div 100 * 100 + h mod 100 div 10 * 10 + h mod 10 = h"
      using div_mult_mod_eq [of h 100] div_mult_mod_eq [of "h mod 100" 10] by linarith
    have "h mod 10 < 10" "h mod 100 div 10 < 10" by (simp_all add: less_mult_imp_div_less)
    from parse_decimal_hundredths [OF this, of "h div 100"] show ?thesis unfolding wire_def h .
  qed
  moreover have "is_finite (f64_of False (of_nat h / 100))"
  proof -
    have "(of_nat h :: rat) < 2 ^ 52" using assms by (metis of_nat_less_iff of_nat_numeral of_nat_power)
    then show ?thesis by (subst f64_of_small) simp_all
  qed
  ultimately have "to_number wire = f64_of False (of_nat h / 100)" by (simp add: to_number_def parse_f64_def)
  then show ?thesis unfolding format_pct_str_def wire_def fmt2_hundredths [OF assms(1), symmetric] by simp
qed

end
