(* ===== verification/Tui.thy ===== *)
theory Tui
  imports TuiFormat Encoding
begin

text \<open>
  The terminal client (\<^verbatim>\<open>crates/tui/src\<close>): its configuration, the data it receives, the keyboard and
  the application's state machine.  A fetch that was spawned is a pending task that holds the request it
  will send; its result arrives as a message.  Tasks finish in any order, so the environment picks the task
  that reports next.  Decoding a body is not modelled; the clock and its rendering are parameters.
\<close>

section \<open>Configuration\<close>

definition DEFAULT_API_URL :: string where
  "DEFAULT_API_URL = ''http://127.0.0.1:3000''"

definition DEFAULT_REFRESH_SECS :: u64 where
  "DEFAULT_REFRESH_SECS = 10"

definition DEFAULT_TIMEOUT_SECS :: u64 where
  "DEFAULT_TIMEOUT_SECS = 15"

record tui_config =
  tc_api_url :: string
  tc_admin_api_key :: "string option"
  tc_refresh_interval_secs :: u64
  tc_request_timeout_secs :: u64
  tc_log_dir :: string
  tc_log_filter :: string

definition trim_end_slashes :: "string \<Rightarrow> string" where
  "trim_end_slashes s = rev (dropWhile (\<lambda>c. c = CHR ''/'') (rev s))"

definition opt_where :: "('a \<Rightarrow> bool) \<Rightarrow> 'a option \<Rightarrow> 'a option" where
  "opt_where P x = (case x of None \<Rightarrow> None | Some y \<Rightarrow> if P y then Some y else None)"

definition tui_from_env_with :: "(string \<Rightarrow> string option) \<Rightarrow> tui_config" where
  "tui_from_env_with get =
     (let text = (\<lambda>name. opt_where (\<lambda>s. s \<noteq> []) (map_option trim (get name)));
          secs = (\<lambda>name. opt_where (\<lambda>n. 0 < n) (Option.bind (get name) (\<lambda>v. from_str_radix 64 10 (trim v)))) in
      \<lparr>tc_api_url = unwrap_or (opt_where (\<lambda>s. s \<noteq> []) (map_option (\<lambda>s. trim_end_slashes (trim s)) (get ''AMARILLO_API_URL'')))
                     DEFAULT_API_URL,
       tc_admin_api_key = text ''AMARILLO_ADMIN_API_KEY'',
       tc_refresh_interval_secs = unwrap_or (secs ''AMARILLO_TUI_REFRESH_SECS'') DEFAULT_REFRESH_SECS,
       tc_request_timeout_secs = unwrap_or (secs ''AMARILLO_TUI_TIMEOUT_SECS'') DEFAULT_TIMEOUT_SECS,
       tc_log_dir = unwrap_or (text ''AMARILLO_TUI_LOG_DIR'') ''.'',
       tc_log_filter = unwrap_or (text ''RUST_LOG'') ''info''\<rparr>)"

section \<open>Received data\<close>

record dto_failed_transaction =
  dx_tx_hash :: string
  dx_error_category :: string
  dx_revert_reason :: "string option"
  dx_failing_function :: "string option"
  dx_gas_used :: i64
  dx_timestamp :: string

record dto_trace_log =
  dg_tx_hash :: string
  dg_call_depth :: i32
  dg_call_type :: string
  dg_from_addr :: string
  dg_to_addr :: "string option"
  dg_value :: string
  dg_gas_used :: i64
  dg_input :: "string option"
  dg_output :: "string option"
  dg_error :: "string option"
  dg_trace_id :: i64

record dto_decoded_function =
  dfn_selector :: string
  dfn_name :: string
  dfn_signature :: string
  dfn_source :: "string option"
  dfn_args :: "(string \<times> json) list option"

record dto_diagnosis =
  ddi_message :: string
  ddi_recommended_action :: "string option"
  ddi_source :: "string option"

record dto_failed_tx_detail =
  dd_failed :: dto_failed_transaction
  dd_call_tree :: "dto_trace_log list"
  dd_call_tree_truncated :: bool
  dd_root_cause :: "dto_trace_log option"
  dd_failing_function_decoded :: "dto_decoded_function option"
  dd_root_cause_decoded :: "dto_decoded_function option"
  dd_diagnosis :: "dto_diagnosis option"

record dto_failed_tx_analysis =
  da_error_category :: string
  da_failure_count :: i64
  da_avg_gas_wasted :: string
  da_pct_of_total :: string
  da_most_recent_failure :: string

record dto_unknown_revert_cluster =
  dc_template :: string
  dc_cluster_kind :: string
  dc_occurrences :: i64
  dc_pct_of_unknown :: string
  dc_total_gas_wasted :: string
  dc_avg_gas_wasted :: string
  dc_distinct_senders :: i64
  dc_distinct_selectors :: i64
  dc_sample_revert_reason :: "string option"
  dc_sample_tx_hash :: "string option"
  dc_first_seen :: string
  dc_last_seen :: string

record dto_pagination_meta =
  dp_limit :: i64
  dp_offset :: i64
  dp_count :: i64
  dp_total :: i64

record dto_failed_page =
  tp_data :: "dto_failed_transaction list"
  tp_pagination :: dto_pagination_meta

section \<open>Keyboard\<close>

datatype screen = Overview | FailedTx | Detail | Clusters

datatype action =
    Quit | NextTab | PrevTab | SelectScreen screen | Up | Down | Enter | Back | CycleCategory | CycleWindow
  | NextPage | PrevPage | RefreshNow | ToggleAutoPoll | ToggleHelp | NoAction

datatype key_code =
    KChar char | KTab | KBackTab | KEsc | KEnter | KUp | KDown | KPageUp | KPageDown | KOther

definition map_key :: "bool \<Rightarrow> key_code \<Rightarrow> bool \<Rightarrow> action" where
  "map_key control code show_help =
     (if control \<and> code = KChar CHR ''c'' then Quit
      else if show_help then
        (if code = KChar CHR ''?'' \<or> code = KEsc \<or> code = KChar CHR ''q'' then ToggleHelp else NoAction)
      else if code = KChar CHR ''q'' then Quit
      else if code = KChar CHR ''?'' then ToggleHelp
      else if code = KChar CHR ''r'' then RefreshNow
      else if code = KChar CHR ''p'' then ToggleAutoPoll
      else if code = KTab then NextTab
      else if code = KBackTab then PrevTab
      else if code = KChar CHR ''1'' then SelectScreen Overview
      else if code = KChar CHR ''2'' then SelectScreen FailedTx
      else if code = KChar CHR ''3'' then SelectScreen Detail
      else if code = KChar CHR ''4'' then SelectScreen Clusters
      else if code = KEsc then Back
      else if code = KEnter then Enter
      else if code = KChar CHR ''j'' \<or> code = KDown then Down
      else if code = KChar CHR ''k'' \<or> code = KUp then Up
      else if code = KChar CHR ''c'' then CycleCategory
      else if code = KChar CHR ''t'' then CycleWindow
      else if code = KChar CHR ''n'' \<or> code = KPageDown then NextPage
      else if code = KChar CHR ''b'' \<or> code = KPageUp then PrevPage
      else NoAction)"

section \<open>State\<close>

fun screen_index :: "screen \<Rightarrow> nat" where
  "screen_index Overview = 0"
| "screen_index FailedTx = 1"
| "screen_index Detail = 2"
| "screen_index Clusters = 3"

definition SCREEN_ORDER :: "screen list" where
  "SCREEN_ORDER = [Overview, FailedTx, Detail, Clusters]"

datatype time_window = AllTime | H24 | D7 | D30

fun window_next :: "time_window \<Rightarrow> time_window" where
  "window_next AllTime = H24"
| "window_next H24 = D7"
| "window_next D7 = D30"
| "window_next D30 = AllTime"

text \<open>\<open>to_rfc3339\<close> renders an instant; instants count microseconds.\<close>

definition start_iso :: "(instant \<Rightarrow> string) \<Rightarrow> instant \<Rightarrow> time_window \<Rightarrow> string option" where
  "start_iso to_rfc3339 now w =
     (case w of
        AllTime \<Rightarrow> None
      | H24 \<Rightarrow> Some (to_rfc3339 (now - 24 * 3600000000))
      | D7 \<Rightarrow> Some (to_rfc3339 (now - 7 * 86400000000))
      | D30 \<Rightarrow> Some (to_rfc3339 (now - 30 * 86400000000)))"

datatype 'a loadable = Idle | Loading | Loaded 'a | LoadFailed string

record failed_tx_filter =
  ff_category :: "string option"
  ff_window :: time_window
  ff_limit :: i64
  ff_offset :: i64

definition query_pairs :: "(instant \<Rightarrow> string) \<Rightarrow> instant \<Rightarrow> failed_tx_filter \<Rightarrow> (string \<times> string) list" where
  "query_pairs to_rfc3339 now f =
     [(''limit'', show_int (ff_limit f)), (''offset'', show_int (ff_offset f))]
     @ (case ff_category f of None \<Rightarrow> [] | Some c \<Rightarrow> [(''category'', c)])
     @ (case start_iso to_rfc3339 now (ff_window f) of None \<Rightarrow> [] | Some t \<Rightarrow> [(''from'', t)])"

text \<open>A spawned fetch: what it asks the API for.\<close>

datatype fetch = FetchLatestBlock | FetchAnalysis | FetchFailedList "(string \<times> string) list" | FetchDetail string | FetchClusters

datatype data_msg =
    LatestBlockMsg "string + i64 option"
  | AnalysisMsg "string + dto_failed_tx_analysis list"
  | FailedListMsg "string + dto_failed_page"
  | DetailMsg "string + dto_failed_tx_detail"
  | ClustersMsg "string + dto_unknown_revert_cluster list"

fun answers :: "fetch \<Rightarrow> data_msg \<Rightarrow> bool" where
  "answers FetchLatestBlock (LatestBlockMsg _) = True"
| "answers FetchAnalysis (AnalysisMsg _) = True"
| "answers (FetchFailedList _) (FailedListMsg _) = True"
| "answers (FetchDetail _) (DetailMsg _) = True"
| "answers FetchClusters (ClustersMsg _) = True"
| "answers _ _ = False"

text \<open>The clients and channel of the source are the list of pending fetches, in the order they were spawned.\<close>

record app =
  ap_screen :: screen
  ap_prev_screen :: screen
  ap_should_quit :: bool
  ap_show_help :: bool
  ap_auto_poll :: bool
  ap_tick :: u64
  ap_inflight :: nat
  ap_last_updated :: "instant option"
  ap_latest_block :: "i64 option loadable"
  ap_analysis :: "dto_failed_tx_analysis list loadable"
  ap_failed :: "dto_failed_page loadable"
  ap_table_selected :: "usize option"
  ap_filter :: failed_tx_filter
  ap_detail :: "dto_failed_tx_detail loadable"
  ap_detail_scroll :: nat
  ap_selected_hash :: "string option"
  ap_clusters :: "dto_unknown_revert_cluster list loadable"
  ap_cluster_selected :: "usize option"
  ap_pending :: "fetch list"

definition app_new :: app where
  "app_new = \<lparr>ap_screen = Overview, ap_prev_screen = Overview, ap_should_quit = False, ap_show_help = False,
     ap_auto_poll = True, ap_tick = 0, ap_inflight = 0, ap_last_updated = None, ap_latest_block = Idle,
     ap_analysis = Idle, ap_failed = Idle, ap_table_selected = None,
     ap_filter = \<lparr>ff_category = None, ff_window = AllTime, ff_limit = 20, ff_offset = 0\<rparr>,
     ap_detail = Idle, ap_detail_scroll = 0, ap_selected_hash = None, ap_clusters = Idle, ap_cluster_selected = None,
     ap_pending = []\<rparr>"

section \<open>Transitions\<close>

fun begin_load :: "'a loadable \<Rightarrow> 'a loadable" where
  "begin_load (Loaded x) = Loaded x"
| "begin_load _ = Loading"

fun settle :: "string + 'a \<Rightarrow> 'a loadable" where
  "settle (Inr v) = Loaded v"
| "settle (Inl e) = LoadFailed e"

text \<open>The counter of running fetches has 32 bits.\<close>

definition spawn :: "fetch list \<Rightarrow> app \<Rightarrow> app" where
  "spawn fs a = a\<lparr>ap_inflight := (ap_inflight a + length fs) mod 2 ^ 32, ap_pending := ap_pending a @ fs\<rparr>"

definition spawn_fetch_active :: "(instant \<Rightarrow> string) \<Rightarrow> instant \<Rightarrow> app \<Rightarrow> app" where
  "spawn_fetch_active to_rfc3339 now a =
     (case ap_screen a of
        Overview \<Rightarrow> spawn [FetchLatestBlock, FetchAnalysis]
          (a\<lparr>ap_latest_block := begin_load (ap_latest_block a), ap_analysis := begin_load (ap_analysis a)\<rparr>)
      | FailedTx \<Rightarrow> spawn [FetchFailedList (query_pairs to_rfc3339 now (ap_filter a))]
          (a\<lparr>ap_failed := begin_load (ap_failed a)\<rparr>)
      | Detail \<Rightarrow>
          (case ap_selected_hash a of
             None \<Rightarrow> a
           | Some hash \<Rightarrow> spawn [FetchDetail hash] (a\<lparr>ap_detail := begin_load (ap_detail a)\<rparr>))
      | Clusters \<Rightarrow> spawn [FetchClusters] (a\<lparr>ap_clusters := begin_load (ap_clusters a)\<rparr>))"

definition is_busy :: "app \<Rightarrow> bool" where
  "is_busy a \<longleftrightarrow> 0 < ap_inflight a"

definition goto_screen :: "(instant \<Rightarrow> string) \<Rightarrow> instant \<Rightarrow> screen \<Rightarrow> app \<Rightarrow> app" where
  "goto_screen fmt now s a =
     (if ap_screen a \<noteq> s then spawn_fetch_active fmt now (a\<lparr>ap_prev_screen := ap_screen a, ap_screen := s\<rparr>) else a)"

definition cycle_screen :: "(instant \<Rightarrow> string) \<Rightarrow> instant \<Rightarrow> i32 \<Rightarrow> app \<Rightarrow> app" where
  "cycle_screen fmt now dir a =
     (let idx = int (length (takeWhile (\<lambda>s. s \<noteq> ap_screen a) SCREEN_ORDER)) in
      goto_screen fmt now (SCREEN_ORDER ! nat ((idx + dir) mod int (length SCREEN_ORDER))) a)"

definition loaded_rows :: "('p \<Rightarrow> 'r list) \<Rightarrow> 'p loadable \<Rightarrow> 'r list" where
  "loaded_rows rows l = (case l of Loaded p \<Rightarrow> rows p | _ \<Rightarrow> [])"

text \<open>Indices and lengths are cast to 32 bits on the way; a list in memory is shorter than that.\<close>

definition move_index :: "nat \<Rightarrow> i32 \<Rightarrow> usize option \<Rightarrow> usize option" where
  "move_index len dir sel =
     (if len = 0 then sel else Some (nat (clamp (as_i32 (int (unwrap_or sel 0)) + dir) 0 (as_i32 (int len) - 1))))"

definition clamp_index :: "nat \<Rightarrow> usize option \<Rightarrow> usize option" where
  "clamp_index len sel =
     (if len = 0 then None
      else (case sel of Some i \<Rightarrow> if len \<le> i then Some (len - 1) else Some i | None \<Rightarrow> Some 0))"

definition move_selection :: "i32 \<Rightarrow> app \<Rightarrow> app" where
  "move_selection dir a = a\<lparr>ap_table_selected := move_index (length (loaded_rows tp_data (ap_failed a))) dir (ap_table_selected a)\<rparr>"

definition clamp_selection :: "app \<Rightarrow> app" where
  "clamp_selection a = a\<lparr>ap_table_selected := clamp_index (length (loaded_rows tp_data (ap_failed a))) (ap_table_selected a)\<rparr>"

definition move_cluster_selection :: "i32 \<Rightarrow> app \<Rightarrow> app" where
  "move_cluster_selection dir a = a\<lparr>ap_cluster_selected := move_index (length (loaded_rows id (ap_clusters a))) dir (ap_cluster_selected a)\<rparr>"

definition clamp_cluster_selection :: "app \<Rightarrow> app" where
  "clamp_cluster_selection a = a\<lparr>ap_cluster_selected := clamp_index (length (loaded_rows id (ap_clusters a))) (ap_cluster_selected a)\<rparr>"

definition on_enter :: "(instant \<Rightarrow> string) \<Rightarrow> instant \<Rightarrow> app \<Rightarrow> app" where
  "on_enter fmt now a =
     (if ap_screen a \<noteq> FailedTx then a
      else case ap_table_selected a of
        None \<Rightarrow> a
      | Some i \<Rightarrow>
          let rows = loaded_rows tp_data (ap_failed a) in
          if i < length rows
          then goto_screen fmt now Detail (a\<lparr>ap_selected_hash := Some (dx_tx_hash (rows ! i)), ap_detail_scroll := 0\<rparr>)
          else a)"

definition on_back :: "(instant \<Rightarrow> string) \<Rightarrow> instant \<Rightarrow> app \<Rightarrow> app" where
  "on_back fmt now a = (if ap_screen a = Detail then goto_screen fmt now FailedTx a else a)"

definition on_down :: "app \<Rightarrow> app" where
  "on_down a =
     (case ap_screen a of
        FailedTx \<Rightarrow> move_selection 1 a
      | Detail \<Rightarrow> a\<lparr>ap_detail_scroll := min (ap_detail_scroll a + 1) 65535\<rparr>
      | Clusters \<Rightarrow> move_cluster_selection 1 a
      | Overview \<Rightarrow> a)"

definition on_up :: "app \<Rightarrow> app" where
  "on_up a =
     (case ap_screen a of
        FailedTx \<Rightarrow> move_selection (- 1) a
      | Detail \<Rightarrow> a\<lparr>ap_detail_scroll := ap_detail_scroll a - 1\<rparr>
      | Clusters \<Rightarrow> move_cluster_selection (- 1) a
      | Overview \<Rightarrow> a)"

definition set_filter :: "(failed_tx_filter \<Rightarrow> failed_tx_filter) \<Rightarrow> app \<Rightarrow> app" where
  "set_filter f a = a\<lparr>ap_filter := f (ap_filter a)\<rparr>"

definition next_category :: "string option \<Rightarrow> string option" where
  "next_category c =
     (case c of
        None \<Rightarrow> Some (CATEGORIES ! 0)
      | Some cur \<Rightarrow>
          let pos = length (takeWhile (\<lambda>x. x \<noteq> cur) CATEGORIES);
              idx = (if pos < length CATEGORIES then pos else 0) in
          if idx + 1 < length CATEGORIES then Some (CATEGORIES ! (idx + 1)) else None)"

definition cycle_category :: "(instant \<Rightarrow> string) \<Rightarrow> instant \<Rightarrow> app \<Rightarrow> app" where
  "cycle_category fmt now a =
     spawn_fetch_active fmt now (set_filter (\<lambda>f. f\<lparr>ff_category := next_category (ff_category f), ff_offset := 0\<rparr>) a)"

definition cycle_window :: "(instant \<Rightarrow> string) \<Rightarrow> instant \<Rightarrow> app \<Rightarrow> app" where
  "cycle_window fmt now a =
     spawn_fetch_active fmt now (set_filter (\<lambda>f. f\<lparr>ff_window := window_next (ff_window f), ff_offset := 0\<rparr>) a)"

definition next_page :: "(instant \<Rightarrow> string) \<Rightarrow> instant \<Rightarrow> app \<Rightarrow> app" where
  "next_page fmt now a =
     (case ap_failed a of
        Loaded p \<Rightarrow>
          let f = ap_filter a; to = i64_wrap (ff_offset f + ff_limit f) in
          if to < dp_total (tp_pagination p)
          then spawn_fetch_active fmt now (set_filter (\<lambda>f. f\<lparr>ff_offset := to\<rparr>) a)
          else a
      | _ \<Rightarrow> a)"

definition prev_page :: "(instant \<Rightarrow> string) \<Rightarrow> instant \<Rightarrow> app \<Rightarrow> app" where
  "prev_page fmt now a =
     (if 0 < ff_offset (ap_filter a)
      then spawn_fetch_active fmt now (set_filter (\<lambda>f. f\<lparr>ff_offset := max (i64_wrap (ff_offset f - ff_limit f)) 0\<rparr>) a)
      else a)"

definition apply_action :: "(instant \<Rightarrow> string) \<Rightarrow> instant \<Rightarrow> action \<Rightarrow> app \<Rightarrow> app" where
  "apply_action fmt now act a =
     (case act of
        Quit \<Rightarrow> a\<lparr>ap_should_quit := True\<rparr>
      | ToggleHelp \<Rightarrow> a\<lparr>ap_show_help := \<not> ap_show_help a\<rparr>
      | ToggleAutoPoll \<Rightarrow> a\<lparr>ap_auto_poll := \<not> ap_auto_poll a\<rparr>
      | RefreshNow \<Rightarrow> spawn_fetch_active fmt now a
      | NextTab \<Rightarrow> cycle_screen fmt now 1 a
      | PrevTab \<Rightarrow> cycle_screen fmt now (- 1) a
      | SelectScreen s \<Rightarrow> goto_screen fmt now s a
      | Up \<Rightarrow> on_up a
      | Down \<Rightarrow> on_down a
      | Enter \<Rightarrow> on_enter fmt now a
      | Back \<Rightarrow> on_back fmt now a
      | CycleCategory \<Rightarrow> if ap_screen a = FailedTx then cycle_category fmt now a else a
      | CycleWindow \<Rightarrow> if ap_screen a = FailedTx then cycle_window fmt now a else a
      | NextPage \<Rightarrow> if ap_screen a = FailedTx then next_page fmt now a else a
      | PrevPage \<Rightarrow> if ap_screen a = FailedTx then prev_page fmt now a else a
      | NoAction \<Rightarrow> a)"

definition ingest :: "instant \<Rightarrow> data_msg \<Rightarrow> app \<Rightarrow> app" where
  "ingest now msg a0 =
     (let a = a0\<lparr>ap_inflight := ap_inflight a0 - 1, ap_last_updated := Some now\<rparr> in
      case msg of
        LatestBlockMsg r \<Rightarrow> a\<lparr>ap_latest_block := settle r\<rparr>
      | AnalysisMsg r \<Rightarrow> a\<lparr>ap_analysis := settle r\<rparr>
      | FailedListMsg r \<Rightarrow> clamp_selection (a\<lparr>ap_failed := settle r\<rparr>)
      | DetailMsg r \<Rightarrow> a\<lparr>ap_detail := settle r\<rparr>
      | ClustersMsg r \<Rightarrow> clamp_cluster_selection (a\<lparr>ap_clusters := settle r\<rparr>))"

section \<open>The main loop\<close>

text \<open>One turn of the loop: a key, another terminal event, the end of the input, a tick, or the result of
  a pending fetch, whichever the environment brings first.\<close>

datatype ui_event = KeyPress bool key_code | OtherEvent | InputEnds | Tick | Arrives nat data_msg

definition run_turn :: "(instant \<Rightarrow> string) \<Rightarrow> instant \<Rightarrow> ui_event \<Rightarrow> app \<Rightarrow> app" where
  "run_turn fmt now e a =
     (if ap_should_quit a then a
      else case e of
        KeyPress control code \<Rightarrow> apply_action fmt now (map_key control code (ap_show_help a)) a
      | OtherEvent \<Rightarrow> a
      | InputEnds \<Rightarrow> a\<lparr>ap_should_quit := True\<rparr>
      | Tick \<Rightarrow>
          let b = a\<lparr>ap_tick := wrap_add (ap_tick a) 1\<rparr> in
          if ap_auto_poll b then spawn_fetch_active fmt now b else b
      | Arrives i msg \<Rightarrow>
          if i < length (ap_pending a) \<and> answers (ap_pending a ! i) msg
          then ingest now msg (a\<lparr>ap_pending := take i (ap_pending a) @ drop (Suc i) (ap_pending a)\<rparr>)
          else a)"

definition run_ui :: "(instant \<Rightarrow> string) \<Rightarrow> instant \<Rightarrow> (instant \<times> ui_event) list \<Rightarrow> app" where
  "run_ui fmt start es = foldl (\<lambda>a (now, e). run_turn fmt now e a) (spawn_fetch_active fmt start app_new) es"

section \<open>What every state satisfies\<close>

text \<open>Responses fit the memory they were decoded into, and counts stay below \<open>2\<^sup>6\<^sup>2\<close>.\<close>

fun small_event :: "ui_event \<Rightarrow> bool" where
  "small_event (Arrives i (FailedListMsg (Inr p))) \<longleftrightarrow> length (tp_data p) < 2 ^ 31 \<and> dp_total (tp_pagination p) \<le> 2 ^ 62"
| "small_event (Arrives i (ClustersMsg (Inr rows))) \<longleftrightarrow> length rows < 2 ^ 31"
| "small_event _ \<longleftrightarrow> True"

definition selects :: "'r list \<Rightarrow> usize option \<Rightarrow> bool" where
  "selects rows sel \<longleftrightarrow> (case sel of None \<Rightarrow> rows = [] | Some i \<Rightarrow> i < length rows)"

definition table_ok :: "app \<Rightarrow> bool" where
  "table_ok a \<longleftrightarrow>
     (\<forall>p. ap_failed a = Loaded p \<longrightarrow>
        selects (tp_data p) (ap_table_selected a) \<and> length (tp_data p) < 2 ^ 31 \<and> dp_total (tp_pagination p) \<le> 2 ^ 62)
     \<and> (\<forall>rows. ap_clusters a = Loaded rows \<longrightarrow> selects rows (ap_cluster_selected a) \<and> length rows < 2 ^ 31)"

definition good_filter :: "failed_tx_filter \<Rightarrow> bool" where
  "good_filter f \<longleftrightarrow> ff_limit f = 20 \<and> 0 \<le> ff_offset f \<and> ff_offset f < 2 ^ 62 \<and> 20 dvd ff_offset f
     \<and> (\<forall>c. ff_category f = Some c \<longrightarrow> c \<in> set CATEGORIES)"

definition fetches_ok :: "(instant \<Rightarrow> string) \<Rightarrow> app \<Rightarrow> bool" where
  "fetches_ok fmt a \<longleftrightarrow> (\<forall>q. FetchFailedList q \<in> set (ap_pending a) \<longrightarrow> (\<exists>t f. good_filter f \<and> q = query_pairs fmt t f))"

definition app_ok :: "(instant \<Rightarrow> string) \<Rightarrow> nat \<Rightarrow> app \<Rightarrow> bool" where
  "app_ok fmt n a \<longleftrightarrow> table_ok a \<and> good_filter (ap_filter a) \<and> fetches_ok fmt a
     \<and> (n < 2 ^ 32 \<longrightarrow> ap_inflight a = length (ap_pending a) \<and> length (ap_pending a) \<le> n)"

lemma begin_load_Loaded [simp]: "begin_load l = Loaded x \<longleftrightarrow> l = Loaded x"
  by (cases l) simp_all

lemma settle_Loaded [simp]: "settle r = Loaded x \<longleftrightarrow> r = Inr x"
  by (cases r) simp_all

lemma app_ok_mono: "app_ok fmt n a \<Longrightarrow> n \<le> m \<Longrightarrow> app_ok fmt m a"
  by (auto simp: app_ok_def)

lemma spawn_ok:
  assumes "app_ok fmt n a" "table_ok b" "good_filter (ap_filter b)" "ap_inflight b = ap_inflight a" "ap_pending b = ap_pending a"
    and "\<forall>q. FetchFailedList q \<in> set fs \<longrightarrow> (\<exists>t f. good_filter f \<and> q = query_pairs fmt t f)" "length fs \<le> 2"
  shows "app_ok fmt (n + 2) (spawn fs b)"
  using assms by (auto simp: app_ok_def spawn_def fetches_ok_def table_ok_def)

lemma table_ok_frame [simp]:
  "table_ok (a\<lparr>ap_latest_block := lb, ap_analysis := an\<rparr>) = table_ok a"
  "table_ok (a\<lparr>ap_failed := begin_load (ap_failed a)\<rparr>) = table_ok a"
  "table_ok (a\<lparr>ap_clusters := begin_load (ap_clusters a)\<rparr>) = table_ok a"
  "table_ok (a\<lparr>ap_detail := dt\<rparr>) = table_ok a"
  "table_ok (a\<lparr>ap_prev_screen := s, ap_screen := s'\<rparr>) = table_ok a"
  "table_ok (a\<lparr>ap_selected_hash := h\<rparr>) = table_ok a"
  "table_ok (a\<lparr>ap_detail_scroll := n\<rparr>) = table_ok a"
  "table_ok (a\<lparr>ap_filter := f\<rparr>) = table_ok a"
  "table_ok (a\<lparr>ap_should_quit := q\<rparr>) = table_ok a"
  "table_ok (a\<lparr>ap_show_help := q\<rparr>) = table_ok a"
  "table_ok (a\<lparr>ap_auto_poll := q\<rparr>) = table_ok a"
  "table_ok (a\<lparr>ap_tick := k\<rparr>) = table_ok a"
  by (simp_all add: table_ok_def)

lemma fetches_ok_cong: "ap_pending b = ap_pending a \<Longrightarrow> fetches_ok fmt b = fetches_ok fmt a"
  by (simp add: fetches_ok_def)

text \<open>A step that spawns nothing.\<close>

lemma quiet_ok:
  assumes "app_ok fmt n a" "table_ok b" "good_filter (ap_filter b)" "ap_inflight b = ap_inflight a" "ap_pending b = ap_pending a"
  shows "app_ok fmt n b"
  using assms by (simp add: app_ok_def fetches_ok_cong [of b a])

lemma app_okD: "app_ok fmt n a \<Longrightarrow> table_ok a \<and> good_filter (ap_filter a)"
  by (simp add: app_ok_def)

lemma spawn_fetch_active_ok:
  assumes "app_ok fmt n a"
  shows "app_ok fmt (n + 2) (spawn_fetch_active fmt now a)"
proof -
  have "\<exists>t f. good_filter f \<and> query_pairs fmt now (ap_filter a) = query_pairs fmt t f"
    using app_okD [OF assms] by blast
  then show ?thesis
    using app_okD [OF assms]
    by (auto simp: spawn_fetch_active_def simp del: add_2_eq_Suc' split: screen.split option.split
        intro!: spawn_ok [OF assms] intro: app_ok_mono [OF assms]) blast+
qed

lemma goto_screen_ok:
  assumes "app_ok fmt n a"
  shows "app_ok fmt (n + 2) (goto_screen fmt now s a)"
proof -
  have "app_ok fmt n (a\<lparr>ap_prev_screen := ap_screen a, ap_screen := s\<rparr>)"
    by (rule quiet_ok [OF assms]) (use app_okD [OF assms] in simp_all)
  from spawn_fetch_active_ok [OF this] show ?thesis
    using app_ok_mono [OF assms] by (simp add: goto_screen_def)
qed

lemma filter_step_ok:
  assumes "app_ok fmt n a" "good_filter (f (ap_filter a))"
  shows "app_ok fmt (n + 2) (spawn_fetch_active fmt now (set_filter f a))"
  by (rule spawn_fetch_active_ok, rule quiet_ok [OF assms(1)])
    (use app_okD [OF assms(1)] assms(2) in \<open>simp_all add: set_filter_def\<close>)

lemma next_category_known: "next_category c = Some x \<Longrightarrow> x \<in> set CATEGORIES"
  by (auto simp: next_category_def Let_def CATEGORIES_def intro!: nth_mem split: option.splits if_splits)

lemma cycle_category_ok: "app_ok fmt n a \<Longrightarrow> app_ok fmt (n + 2) (cycle_category fmt now a)"
  unfolding cycle_category_def
  by (rule filter_step_ok) (auto simp: good_filter_def dest: app_okD next_category_known)

lemma cycle_window_ok: "app_ok fmt n a \<Longrightarrow> app_ok fmt (n + 2) (cycle_window fmt now a)"
  unfolding cycle_window_def by (rule filter_step_ok) (auto simp: good_filter_def dest: app_okD)

lemma next_page_ok:
  assumes "app_ok fmt n a"
  shows "app_ok fmt (n + 2) (next_page fmt now a)"
proof (cases "ap_failed a")
  case (Loaded p)
  note ok = app_okD [OF assms]
  have "i64_wrap (ff_offset (ap_filter a) + ff_limit (ap_filter a)) = ff_offset (ap_filter a) + 20"
    using ok by (simp add: good_filter_def)
  moreover have "dp_total (tp_pagination p) \<le> 2 ^ 62" using ok Loaded by (simp add: table_ok_def)
  ultimately show ?thesis
    using Loaded ok app_ok_mono [OF assms]
    by (auto simp: next_page_def Let_def simp del: add_2_eq_Suc' intro!: filter_step_ok [OF assms] simp: good_filter_def)
qed (use app_ok_mono [OF assms] in \<open>simp_all add: next_page_def\<close>)

lemma prev_page_ok:
  assumes "app_ok fmt n a"
  shows "app_ok fmt (n + 2) (prev_page fmt now a)"
proof -
  have f: "good_filter (ap_filter a)" using app_okD [OF assms] by simp
  then have "i64_wrap (ff_offset (ap_filter a) - ff_limit (ap_filter a)) = ff_offset (ap_filter a) - 20"
    by (simp add: good_filter_def)
  with f have "good_filter ((ap_filter a)\<lparr>ff_offset := max (i64_wrap (ff_offset (ap_filter a) - ff_limit (ap_filter a))) 0\<rparr>)"
    by (auto simp: good_filter_def max_def)
  then show ?thesis
    using app_ok_mono [OF assms] by (auto simp: prev_page_def simp del: add_2_eq_Suc' intro!: filter_step_ok [OF assms])
qed

lemma as_i32_small: "0 \<le> i \<Longrightarrow> i < 2 ^ 31 \<Longrightarrow> as_i32 i = i"
  by (simp add: as_i32_def)

lemma move_index_selects:
  assumes "selects rows sel" "length rows < 2 ^ 31"
  shows "selects rows (move_index (length rows) dir sel)"
proof (cases "rows = []")
  case False
  with assms(1) obtain i where "sel = Some i" "i < length rows" by (auto simp: selects_def split: option.splits)
  with assms(2) False show ?thesis
    by (simp add: selects_def move_index_def as_i32_small clamp_def) linarith
qed (use assms(1) in \<open>simp add: move_index_def\<close>)

lemma clamp_index_selects: "selects rows (clamp_index (length rows) sel)"
  by (auto simp: selects_def clamp_index_def split: option.splits)

lemma move_ok:
  assumes "app_ok fmt n a"
  shows "app_ok fmt n (move_selection dir a)" "app_ok fmt n (move_cluster_selection dir a)"
proof -
  note ok = app_okD [OF assms]
  have "table_ok (move_selection dir a)" "table_ok (move_cluster_selection dir a)"
    using ok by (auto simp: table_ok_def move_selection_def move_cluster_selection_def loaded_rows_def intro!: move_index_selects)
  then show "app_ok fmt n (move_selection dir a)" "app_ok fmt n (move_cluster_selection dir a)"
    using ok by (auto intro!: quiet_ok [OF assms] simp: move_selection_def move_cluster_selection_def)
qed

lemma scroll_ok: "app_ok fmt n a \<Longrightarrow> app_ok fmt n (a\<lparr>ap_detail_scroll := k\<rparr>)"
  by (rule quiet_ok) (auto dest: app_okD)

lemma on_enter_ok:
  assumes "app_ok fmt n a"
  shows "app_ok fmt (n + 2) (on_enter fmt now a)"
proof -
  have "app_ok fmt n (a\<lparr>ap_selected_hash := h, ap_detail_scroll := 0\<rparr>)" for h
    by (rule quiet_ok [OF assms]) (use app_okD [OF assms] in simp_all)
  then show ?thesis
    using app_ok_mono [OF assms] by (auto simp: on_enter_def Let_def simp del: add_2_eq_Suc' intro!: goto_screen_ok split: option.split)
qed

lemma flag_ok:
  assumes "app_ok fmt n a"
  shows "app_ok fmt n (a\<lparr>ap_should_quit := b\<rparr>)" "app_ok fmt n (a\<lparr>ap_show_help := b\<rparr>)"
    "app_ok fmt n (a\<lparr>ap_auto_poll := b\<rparr>)" "app_ok fmt n (a\<lparr>ap_tick := k\<rparr>)"
  by (rule quiet_ok [OF assms]; use app_okD [OF assms] in simp)+

lemma apply_action_ok:
  assumes "app_ok fmt n a"
  shows "app_ok fmt (n + 2) (apply_action fmt now act a)"
proof -
  note m = app_ok_mono [of fmt n _ "n + 2", OF _ le_add1]
  have ud: "app_ok fmt n (on_up a)" "app_ok fmt n (on_down a)"
    using assms by (auto simp: on_up_def on_down_def move_ok scroll_ok split: screen.split)
  show ?thesis
    by (cases act) (simp_all only: apply_action_def action.case m flag_ok assms ud spawn_fetch_active_ok cycle_screen_def Let_def
        goto_screen_ok on_enter_ok on_back_def cycle_category_ok cycle_window_ok next_page_ok prev_page_ok if_split simp_thms)
qed

lemma ingest_ok:
  assumes "app_ok fmt n a" "i < length (ap_pending a)" "small_event (Arrives i msg)"
  shows "app_ok fmt n (ingest now msg (a\<lparr>ap_pending := take i (ap_pending a) @ drop (Suc i) (ap_pending a)\<rparr>))"
proof -
  let ?b = "a\<lparr>ap_pending := take i (ap_pending a) @ drop (Suc i) (ap_pending a)\<rparr>"
  have "set (take i (ap_pending a) @ drop (Suc i) (ap_pending a)) \<subseteq> set (ap_pending a)"
    by (auto dest: in_set_takeD in_set_dropD)
  then have f: "fetches_ok fmt (ingest now msg ?b)"
    using assms(1) by (auto simp: app_ok_def fetches_ok_def ingest_def Let_def clamp_selection_def clamp_cluster_selection_def
        split: data_msg.splits)
  have "table_ok (ingest now msg ?b)"
    using app_okD [OF assms(1)] assms(3)
    by (cases msg) (auto simp: ingest_def table_ok_def clamp_selection_def clamp_cluster_selection_def loaded_rows_def clamp_index_selects)
  then show ?thesis
    using assms(1,2) f by (cases msg) (auto simp: app_ok_def ingest_def clamp_selection_def clamp_cluster_selection_def)
qed

lemma run_turn_ok:
  assumes "app_ok fmt n a" "small_event e"
  shows "app_ok fmt (n + 2) (run_turn fmt now e a)"
proof (cases "ap_should_quit a")
  case False
  note m = app_ok_mono [of fmt n _ "n + 2", OF _ le_add1]
  show ?thesis
    using assms(2) False m [OF assms(1)]
    by (cases e) (auto simp: run_turn_def Let_def simp del: add_2_eq_Suc'
        intro: m flag_ok [OF assms(1)] apply_action_ok [OF assms(1)] spawn_fetch_active_ok ingest_ok [OF assms(1)])
qed (use app_ok_mono [OF assms(1)] in \<open>simp add: run_turn_def\<close>)

lemma app_new_ok: "app_ok fmt 0 app_new"
  by (simp add: app_ok_def app_new_def table_ok_def good_filter_def fetches_ok_def)

lemma run_ui_ok: "\<forall>(t, e) \<in> set es. small_event e \<Longrightarrow> app_ok fmt (2 + 2 * length es) (run_ui fmt start es)"
proof (induction es rule: rev_induct)
  case Nil
  show ?case using spawn_fetch_active_ok [OF app_new_ok, of fmt start] by (simp add: run_ui_def numeral_2_eq_2)
next
  case (snoc e es)
  then have "app_ok fmt (2 + 2 * length es + 2) (run_turn fmt (fst e) (snd e) (run_ui fmt start es))"
    by (intro run_turn_ok) (auto simp: case_prod_unfold)
  then show ?case by (simp add: run_ui_def case_prod_unfold add.commute)
qed

text \<open>C22: the state machine of the terminal client.  Whatever keys are pressed, whenever the ticks come and in
  whatever order the responses arrive: the spinner turns exactly while a fetch is outstanding (in a run of
  fewer than \<open>2\<^sup>3\<^sup>1 - 1\<close> events), the selection of a loaded table always points at one of its rows (and at
  none only when there are none), and the filter asks for a page of 20 at a page boundary and for one of the
  ten categories or all of them.\<close>

theorem tui_state_ok:
  fixes fmt :: "instant \<Rightarrow> string" and start :: instant
  assumes "\<forall>(t, e) \<in> set es. small_event e"
  defines "a \<equiv> run_ui fmt start es"
  shows "(length es < 2 ^ 31 - 1 \<longrightarrow> (is_busy a \<longleftrightarrow> ap_pending a \<noteq> []))
     \<and> (\<forall>p. ap_failed a = Loaded p \<longrightarrow>
          (case ap_table_selected a of None \<Rightarrow> tp_data p = [] | Some i \<Rightarrow> i < length (tp_data p)))
     \<and> (\<forall>rows. ap_clusters a = Loaded rows \<longrightarrow>
          (case ap_cluster_selected a of None \<Rightarrow> rows = [] | Some i \<Rightarrow> i < length rows))
     \<and> ff_limit (ap_filter a) = 20 \<and> 0 \<le> ff_offset (ap_filter a) \<and> 20 dvd ff_offset (ap_filter a)
     \<and> (\<forall>c. ff_category (ap_filter a) = Some c \<longrightarrow> c \<in> set CATEGORIES)"
proof -
  have ok: "app_ok fmt (2 + 2 * length es) a" unfolding a_def by (rule run_ui_ok [OF assms(1)])
  then have "length es < 2 ^ 31 - 1 \<longrightarrow> ap_inflight a = length (ap_pending a)" by (simp add: app_ok_def)
  then have "length es < 2 ^ 31 - 1 \<longrightarrow> (is_busy a \<longleftrightarrow> ap_pending a \<noteq> [])" by (simp add: is_busy_def)
  with app_okD [OF ok] show ?thesis by (simp add: table_ok_def selects_def good_filter_def)
qed

section \<open>A late response\<close>

definition sample_row :: "string \<Rightarrow> dto_failed_transaction" where
  "sample_row h = \<lparr>dx_tx_hash = h, dx_error_category = ''Unknown'', dx_revert_reason = None, dx_failing_function = None,
     dx_gas_used = 1, dx_timestamp = ''2023-09-01T12:15:30Z''\<rparr>"

definition sample_page :: dto_failed_page where
  "sample_page = \<lparr>tp_data = [sample_row ''0xa'', sample_row ''0xb''],
     tp_pagination = \<lparr>dp_limit = 20, dp_offset = 0, dp_count = 2, dp_total = 2\<rparr>\<rparr>"

definition sample_detail :: "string \<Rightarrow> dto_failed_tx_detail" where
  "sample_detail h = \<lparr>dd_failed = sample_row h, dd_call_tree = [], dd_call_tree_truncated = False, dd_root_cause = None,
     dd_failing_function_decoded = None, dd_root_cause_decoded = None, dd_diagnosis = None\<rparr>"

text \<open>Open the list, drill into the first row, go back, drill into the second row; the second detail arrives
  first and the first one after it.\<close>

definition late_response :: "(instant \<times> ui_event) list" where
  "late_response = map (Pair 0)
     [KeyPress False (KChar CHR ''2''), Arrives 2 (FailedListMsg (Inr sample_page)), KeyPress False KEnter,
      KeyPress False KEsc, KeyPress False KDown, KeyPress False KEnter,
      Arrives 4 (DetailMsg (Inr (sample_detail ''0xb''))), Arrives 2 (DetailMsg (Inr (sample_detail ''0xa'')))]"

lemmas turn_defs = run_turn_def map_key_def apply_action_def goto_screen_def spawn_fetch_active_def spawn_def query_pairs_def
  on_enter_def on_back_def on_down_def ingest_def clamp_selection_def move_selection_def loaded_rows_def clamp_index_def
  move_index_def as_i32_def clamp_def

lemma late_response_state:
  "let a = run_ui (\<lambda>_. ''t'') 0 late_response in
     ap_screen a = Detail \<and> ap_selected_hash a = Some ''0xb'' \<and> ap_table_selected a = Some 1
     \<and> ap_detail a = Loaded (sample_detail ''0xa'') \<and> FetchDetail ''0xb'' \<notin> set (ap_pending a)"
  by (simp add: run_ui_def late_response_def app_new_def sample_page_def turn_defs start_iso_def Let_def sample_row_def)

theorem tui_state_ok_witness:
  "ap_table_selected (run_ui (\<lambda>_. ''t'') 0 late_response) = Some 1
   \<and> 20 dvd ff_offset (ap_filter (run_ui (\<lambda>_. ''t'') 0 late_response))"
proof -
  have "\<forall>(t, e) \<in> set late_response. small_event e" by (simp add: late_response_def sample_page_def)
  from tui_state_ok [OF this, of "\<lambda>_. ''t''" 0] late_response_state show ?thesis unfolding Let_def by blast
qed

text \<open>A response is not matched with the request it belongs to.  In the run above the screen shows the
  details of the first transaction although the second one is selected, and no fetch that could correct it is
  outstanding.\<close>

lemma stale_detail_is_shown:
  "let a = run_ui (\<lambda>_. ''t'') 0 late_response in
     ap_screen a = Detail \<and> ap_selected_hash a = Some ''0xb''
     \<and> ap_detail a = Loaded (sample_detail ''0xa'') \<and> FetchDetail ''0xb'' \<notin> set (ap_pending a)"
  using late_response_state unfolding Let_def by blast

end
