(* ===== verification/TuiDraw.thy ===== *)
theory TuiDraw
  imports Tui
begin

text \<open>
  What the terminal client draws (\<^verbatim>\<open>crates/tui/src/ui/mod.rs\<close>, \<^verbatim>\<open>overview.rs\<close>, \<^verbatim>\<open>failed_tx.rs\<close>,
  \<^verbatim>\<open>detail.rs\<close>, \<^verbatim>\<open>clusters.rs\<close>).  A frame is the list of the widgets handed to the terminal library, each
  with its rectangle, in drawing order; a slice inside a character and an index outside a layout panic.
  The library itself is a parameter: how it splits a rectangle and what lies inside the border of a block.
\<close>

section \<open>Widgets\<close>

datatype colour = Rgb color | Black | White | Red | Yellow | Cyan | Gray | DarkGray

datatype modifier = Bold | Reversed

record style =
  st_fg :: "colour option"
  st_bg :: "colour option"
  st_mods :: "modifier list"

definition plain :: style where
  "plain = \<lparr>st_fg = None, st_bg = None, st_mods = []\<rparr>"

definition fg :: "colour \<Rightarrow> style" where
  "fg c = plain\<lparr>st_fg := Some c\<rparr>"

definition bold :: "style \<Rightarrow> style" where
  "bold s = s\<lparr>st_mods := st_mods s @ [Bold]\<rparr>"

datatype span = Span style string

type_synonym line = "span list"

definition raw_line :: "string \<Rightarrow> line" where
  "raw_line s = [Span plain s]"

text \<open>Every block of the client has borders on all sides and a title.\<close>

datatype block = Bordered string

datatype alignment = AtLeft | Centred

datatype content = Plain string | Lines "line list"

datatype layout_constraint = Len nat | AtLeast nat | Percent nat | Ratio nat nat

datatype direction = Vertical | Horizontal

datatype widget =
    Paragraph content style alignment nat "block option"
  | TabBar "string list" block nat style string
  | BlockFrame block
  | Clear
  | Table "string list" style "span list list" "layout_constraint list" block style string "usize option"

record rect =
  re_x :: nat
  re_y :: nat
  re_width :: nat
  re_height :: nat

type_synonym frame = "(rect \<times> widget) list"

text \<open>The surroundings of a frame: the layout of the library, the clock, the reading of times and the printing
  of JSON.\<close>

record screen_env =
  se_split :: "direction \<Rightarrow> layout_constraint list \<Rightarrow> rect \<Rightarrow> rect list"
  se_inner :: "block \<Rightarrow> rect \<Rightarrow> rect"
  se_now :: instant
  se_rfc3339 :: "string \<Rightarrow> instant option"
  se_json_text :: "json \<Rightarrow> string"

definition chunk :: "rect list \<Rightarrow> nat \<Rightarrow> rect rust" where
  "chunk rs i = (if i < length rs then Return (rs ! i) else Panic)"

fun then_rust :: "'a rust \<Rightarrow> ('a \<Rightarrow> 'b rust) \<Rightarrow> 'b rust" where
  "then_rust (Return x) f = f x"
| "then_rust Panic f = Panic"

fun each_rust :: "('a \<Rightarrow> 'b rust) \<Rightarrow> 'a list \<Rightarrow> 'b list rust" where
  "each_rust f [] = Return []"
| "each_rust f (x # xs) = then_rust (f x) (\<lambda>y. then_rust (each_rust f xs) (\<lambda>ys. Return (y # ys)))"

section \<open>Text\<close>

text \<open>The UTF-8 form of a character below \<open>2\<^sup>1\<^sup>6\<close>.\<close>

definition uchar :: "nat \<Rightarrow> string" where
  "uchar n =
     (if n < 0x80 then [char_of n]
      else if n < 0x800 then [char_of (0xC0 + n div 64), char_of (0x80 + n mod 64)]
      else [char_of (0xE0 + n div 4096), char_of (0x80 + n div 64 mod 64), char_of (0x80 + n mod 64)])"

definition DOT :: string where
  "DOT = '' '' @ uchar 0xB7 @ '' ''"

definition DASH :: string where
  "DASH = uchar 0x2014"

definition ELLIPSIS :: string where
  "ELLIPSIS = uchar 0x2026"

text \<open>\<^verbatim>\<open>{s:<n$}\<close> counts characters, that is bytes that do not continue one.\<close>

definition char_count :: "string \<Rightarrow> nat" where
  "char_count s = length (filter (\<lambda>c. \<not> (128 \<le> (of_char c :: nat) \<and> (of_char c :: nat) < 192)) s)"

definition pad_right :: "nat \<Rightarrow> string \<Rightarrow> string" where
  "pad_right n s = s @ replicate (n - char_count s) CHR '' ''"

text \<open>\<^verbatim>\<open>sum()\<close> over 64-bit integers wraps.\<close>

definition sum_i64 :: "i64 list \<Rightarrow> i64" where
  "sum_i64 ns = foldl (\<lambda>a n. i64_wrap (a + n)) 0 ns"

definition time_ago :: "screen_env \<Rightarrow> string \<Rightarrow> string" where
  "time_ago E iso_text = time_ago_at (se_rfc3339 E) iso_text (se_now E)"

fun window_label :: "time_window \<Rightarrow> string" where
  "window_label AllTime = ''All''"
| "window_label H24 = ''24h''"
| "window_label D7 = ''7d''"
| "window_label D30 = ''30d''"

definition updated_secs_ago :: "instant \<Rightarrow> app \<Rightarrow> nat option" where
  "updated_secs_ago now a = map_option (\<lambda>t. nat (num_seconds (now - t))) (ap_last_updated a)"

section \<open>Shared pieces\<close>

definition banner :: "rect \<Rightarrow> string \<Rightarrow> colour \<Rightarrow> frame" where
  "banner area msg c = [(area, Paragraph (Plain msg) (fg c) Centred 0 None)]"

definition render_block_banner :: "screen_env \<Rightarrow> rect \<Rightarrow> block \<Rightarrow> string \<Rightarrow> colour \<Rightarrow> frame" where
  "render_block_banner E area b msg c = (area, BlockFrame b) # banner (se_inner E b area) msg c"

definition spinner_frame :: "u64 \<Rightarrow> string" where
  "spinner_frame tick = uchar ([0x280B, 0x2819, 0x2839, 0x2838, 0x283C, 0x2834, 0x2826, 0x2827, 0x2807, 0x280F] ! (tick mod 10))"

definition centered_rect :: "screen_env \<Rightarrow> nat \<Rightarrow> nat \<Rightarrow> rect \<Rightarrow> rect rust" where
  "centered_rect E percent_x percent_y area =
     then_rust (chunk (se_split E Vertical
        [Percent ((100 - percent_y) div 2), Percent percent_y, Percent ((100 - percent_y) div 2)] area) 1) (\<lambda>middle.
     chunk (se_split E Horizontal
        [Percent ((100 - percent_x) div 2), Percent percent_x, Percent ((100 - percent_x) div 2)] middle) 1)"

definition render_banner :: "rect \<Rightarrow> frame" where
  "render_banner area =
     (let up = [0x20, 0x2584, 0x2580, 0x2588, 0x20, 0x2588, 0x2580, 0x2584, 0x2580, 0x2588, 0x20, 0x2584, 0x2580, 0x2588,
            0x20, 0x2588, 0x2580, 0x2588, 0x20, 0x2588, 0x20, 0x2588, 0x20, 0x20, 0x20, 0x2588, 0x20, 0x20, 0x20, 0x2588, 0x2580, 0x2588];
          low = [0x20, 0x2588, 0x2580, 0x2588, 0x20, 0x2588, 0x20, 0x2580, 0x20, 0x2588, 0x20, 0x2588, 0x2580, 0x2588,
            0x20, 0x2588, 0x2580, 0x2584, 0x20, 0x2588, 0x20, 0x2588, 0x2584, 0x2584, 0x20, 0x2588, 0x2584, 0x2584, 0x20, 0x2588, 0x2584, 0x2588] in
      [(area, Paragraph (Lines
         [[Span (bold (fg (Rgb (0xF4, 0xBD, 0x50)))) (concat (map uchar up))],
          [Span (bold (fg (Rgb (0xE5, 0xA9, 0x3D)))) (concat (map uchar low))],
          [Span (fg DarkGray) (''  failure intelligence'' @ DOT @ ''in your terminal'')]]) plain AtLeft 0 None)])"

definition render_tabs :: "rect \<Rightarrow> app \<Rightarrow> frame" where
  "render_tabs area a =
     [(area, TabBar [''[1] Overview'', ''[2] Failed Tx'', ''[3] Detail'', ''[4] Clusters''] (Bordered '' amarillo '')
        (screen_index (ap_screen a)) (bold ((fg Black)\<lparr>st_bg := Some Cyan\<rparr>)) (uchar 0x2502))]"

definition render_status :: "screen_env \<Rightarrow> tui_config \<Rightarrow> rect \<Rightarrow> app \<Rightarrow> frame" where
  "render_status E cfg area a =
     (let spinner = (if is_busy a then spinner_frame (ap_tick a) @ '' '' else []);
          poll = (if ap_auto_poll a then ''poll on '' @ show_nat (tc_refresh_interval_secs cfg) @ ''s'' else ''poll off'');
          updated = (case updated_secs_ago (se_now E) a of Some s \<Rightarrow> ''updated '' @ show_nat s @ ''s ago'' | None \<Rightarrow> DASH);
          hints = (case ap_screen a of
              Overview \<Rightarrow> ''Tab switch'' @ DOT @ ''r refresh'' @ DOT @ ''p poll''
            | FailedTx \<Rightarrow> ''j/k move'' @ DOT @ ''Enter detail'' @ DOT @ ''c cat'' @ DOT @ ''t window'' @ DOT @ ''n/b page''
            | Detail \<Rightarrow> ''j/k scroll'' @ DOT @ ''Esc back''
            | Clusters \<Rightarrow> ''j/k move'' @ DOT @ ''r refresh'' @ DOT @ ''p poll'') in
      [(area, Paragraph (Plain (spinner @ tc_api_url cfg @ DOT @ poll @ DOT @ updated @ DOT @ hints @ DOT @ ''? help'' @ DOT @ ''q quit''))
         (fg DarkGray) AtLeft 0 None)])"

definition render_help :: "screen_env \<Rightarrow> rect \<Rightarrow> frame rust" where
  "render_help E area =
     then_rust (centered_rect E 62 70 area) (\<lambda>r. Return
       [(r, Clear),
        (r, Paragraph (Lines (map raw_line
          [''amarillo-tui '' @ DASH @ '' keys'', [], ''Tab / Shift+Tab    switch tab'',
           ''1 / 2 / 3 / 4      Overview / Failed Tx / Detail / Clusters'',
           ''j / k  '' @ uchar 0x2191 @ '' / '' @ uchar 0x2193 @ ''       move selection / scroll'',
           ''Enter              open detail for selected row'', ''Esc                back'',
           ''c / t              cycle category / time window'', ''n / b              next / previous page'',
           ''r                  refresh now'', ''p                  toggle auto-poll'',
           ''? / Esc / q        close this help'', ''q / Ctrl+C         quit'']))
          plain AtLeft 0 (Some (Bordered '' Help '')))])"

section \<open>The overview\<close>

definition kpi_card :: "rect \<Rightarrow> string \<Rightarrow> string \<Rightarrow> colour \<Rightarrow> frame" where
  "kpi_card area title v c =
     [(area, Paragraph (Plain (CHR 0x0A # v)) (bold (fg c)) Centred 0 (Some (Bordered ('' '' @ title @ '' ''))))]"

text \<open>\<^verbatim>\<open>max_by_key\<close> returns the last of several maximal elements.\<close>

fun max_by_count :: "dto_failed_tx_analysis list \<Rightarrow> dto_failed_tx_analysis option" where
  "max_by_count [] = None"
| "max_by_count (r # rs) =
     (case max_by_count rs of
        None \<Rightarrow> Some r
      | Some m \<Rightarrow> if da_failure_count m < da_failure_count r then Some r else Some m)"

definition render_kpis :: "screen_env \<Rightarrow> rect \<Rightarrow> app \<Rightarrow> frame rust" where
  "render_kpis E area a =
     (let cols = se_split E Horizontal [Ratio 1 3, Ratio 1 3, Ratio 1 3] area;
          block_val = (case ap_latest_block a of
              Loaded (Some n) \<Rightarrow> group_thousands n | Loaded None \<Rightarrow> DASH | LoadFailed _ \<Rightarrow> ''error'' | _ \<Rightarrow> ELLIPSIS);
          (total_val, total_color) = (case ap_analysis a of
              Loaded v \<Rightarrow> (group_thousands (sum_i64 (map da_failure_count v)), White)
            | LoadFailed _ \<Rightarrow> (''error'', Red)
            | _ \<Rightarrow> (ELLIPSIS, DarkGray));
          (cat_val, cat_color) = (case ap_analysis a of
              Loaded v \<Rightarrow> (case max_by_count v of
                  Some m \<Rightarrow> (error_category_label (da_error_category m), Rgb (error_category_color (da_error_category m)))
                | None \<Rightarrow> (''none'', DarkGray))
            | LoadFailed _ \<Rightarrow> (''error'', Red)
            | _ \<Rightarrow> (ELLIPSIS, DarkGray)) in
      then_rust (chunk cols 0) (\<lambda>c0. then_rust (chunk cols 1) (\<lambda>c1. then_rust (chunk cols 2) (\<lambda>c2. Return
        (kpi_card c0 ''Latest block'' block_val Cyan @ kpi_card c1 ''Total failed tx'' total_val total_color
         @ kpi_card c2 ''Top category'' cat_val cat_color)))))"

text \<open>The bar of a category with \<open>n\<close> failures when the largest has \<open>top\<close>.\<close>

definition bar_cells :: "i64 \<Rightarrow> i64 \<Rightarrow> nat \<Rightarrow> nat" where
  "bar_cells n most bar_w =
     (let scaled = f64_mul (f64_div (i64_as_f64 n) (i64_as_f64 most)) (i64_as_f64 (int bar_w)) in
      clamp (f64_as_usize (f64_round scaled)) (if 0 < n then 1 else 0) bar_w)"

definition LABEL_W :: nat where
  "LABEL_W = 24"

definition STATS_W :: nat where
  "STATS_W = 42"

definition bar_width :: "nat \<Rightarrow> nat" where
  "bar_width width = max (width - (LABEL_W + STATS_W)) 1"

definition distribution_line :: "screen_env \<Rightarrow> i64 \<Rightarrow> nat \<Rightarrow> dto_failed_tx_analysis \<Rightarrow> line" where
  "distribution_line E most bar_w r =
     (let cat = normalize_category (da_error_category r) in
      [Span plain (pad_right LABEL_W (error_category_label cat)),
       Span (fg (Rgb (error_category_color cat)))
         (concat (replicate (bar_cells (da_failure_count r) most bar_w) (uchar 0x2588))),
       Span plain ('' '' @ show_int (da_failure_count r) @ '' ('' @ format_pct_str (da_pct_of_total r) @ '')'' @ DOT
         @ format_compact (to_number (da_avg_gas_wasted r)) @ '' gas'' @ DOT @ time_ago E (da_most_recent_failure r))])"

definition largest_count :: "dto_failed_tx_analysis list \<Rightarrow> i64" where
  "largest_count v = max (if v = [] then 1 else Max (set (map da_failure_count v))) 1"

definition distribution_lines :: "screen_env \<Rightarrow> dto_failed_tx_analysis list \<Rightarrow> nat \<Rightarrow> line list" where
  "distribution_lines E v width =
     map (distribution_line E (largest_count v) (bar_width width)) (sort_key (\<lambda>r. - da_failure_count r) v)"

definition render_distribution :: "screen_env \<Rightarrow> rect \<Rightarrow> app \<Rightarrow> frame" where
  "render_distribution E area a =
     (let b = Bordered '' Failure distribution by category '' in
      case ap_analysis a of
        Loaded v \<Rightarrow>
          if v \<noteq> [] then
            let inner = se_inner E b area in
            [(area, BlockFrame b), (inner, Paragraph (Lines (distribution_lines E v (re_width inner))) plain AtLeft 0 None)]
          else render_block_banner E area b ''No failed transactions indexed yet.'' DarkGray
      | LoadFailed e \<Rightarrow> render_block_banner E area b (''Error: '' @ e) Red
      | _ \<Rightarrow> render_block_banner E area b (''Loading'' @ ELLIPSIS) Yellow)"

definition render_overview :: "screen_env \<Rightarrow> rect \<Rightarrow> app \<Rightarrow> frame rust" where
  "render_overview E area a =
     (let rows = se_split E Vertical [Len 5, AtLeast 0] area in
      then_rust (chunk rows 0) (\<lambda>r0. then_rust (render_kpis E r0 a) (\<lambda>kpis.
      then_rust (chunk rows 1) (\<lambda>r1. Return (kpis @ render_distribution E r1 a)))))"

section \<open>The failed transactions\<close>

definition render_filter :: "rect \<Rightarrow> app \<Rightarrow> frame" where
  "render_filter area a =
     (let cat = (case ff_category (ap_filter a) of Some c \<Rightarrow> error_category_label c | None \<Rightarrow> ''ALL'') in
      [(area, Paragraph (Lines
         [[Span (fg DarkGray) '' Category: '', Span (fg Cyan) (''['' @ cat @ '']''), Span (fg DarkGray) ''  Window: '',
           Span (fg Cyan) (''['' @ window_label (ff_window (ap_filter a)) @ '']''),
           Span (fg DarkGray) ''   [c] category  [t] window'']]) plain AtLeft 0 None)])"

definition failed_tx_row :: "screen_env \<Rightarrow> dto_failed_transaction \<Rightarrow> span list rust" where
  "failed_tx_row E t =
     (let cat = normalize_category (dx_error_category t) in
      then_rust (truncate_hash (dx_tx_hash t)) (\<lambda>h. Return
        [Span plain h, Span (fg (Rgb (error_category_color cat))) (error_category_label cat),
         Span plain (group_thousands (dx_gas_used t)), Span plain (unwrap_or (dx_revert_reason t) DASH),
         Span plain (time_ago E (dx_timestamp t))]))"

definition header_row :: style where
  "header_row = bold (fg Gray)"

definition selected_row :: style where
  "selected_row = plain\<lparr>st_mods := [Reversed]\<rparr>"

definition MARK :: string where
  "MARK = uchar 0x25B6 @ '' ''"

definition render_failed_table :: "screen_env \<Rightarrow> rect \<Rightarrow> app \<Rightarrow> frame rust" where
  "render_failed_table E area a =
     (let b = Bordered '' Failed transactions '' in
      case ap_failed a of
        Loaded p \<Rightarrow>
          if tp_data p \<noteq> [] then
            then_rust (each_rust (failed_tx_row E) (tp_data p)) (\<lambda>rows. Return
              [(area, Table [''tx hash'', ''category'', ''gas'', ''revert reason'', ''age''] header_row rows
                 [Len 14, Len 22, Len 10, AtLeast 16, Len 10] b selected_row MARK (ap_table_selected a))])
          else Return (render_block_banner E area b ''No failed transactions match the current filter.'' DarkGray)
      | LoadFailed e \<Rightarrow> Return (render_block_banner E area b (''Error: '' @ e) Red)
      | _ \<Rightarrow> Return (render_block_banner E area b (''Loading'' @ ELLIPSIS) Yellow))"

text \<open>Division of 64-bit integers truncates.\<close>

definition trunc_div :: "i64 \<Rightarrow> i64 \<Rightarrow> i64" where
  "trunc_div x y = (if 0 \<le> x then x div y else - (- x div y))"

definition failed_footer_text :: "dto_failed_page loadable \<Rightarrow> string" where
  "failed_footer_text l =
     (case l of
        Loaded p \<Rightarrow>
          let pg = tp_pagination p;
              limit = max (dp_limit pg) 1;
              first = (if dp_total pg = 0 then 0 else i64_wrap (dp_offset pg + 1));
              to = i64_wrap (dp_offset pg + dp_count pg);
              page = i64_wrap (trunc_div (dp_offset pg) limit + 1);
              pages = max (f64_as_i64 (f64_ceil (f64_div (i64_as_f64 (dp_total pg)) (i64_as_f64 limit)))) 1 in
          '' page '' @ show_int page @ ''/'' @ show_int pages @ DOT @ ''showing '' @ show_int first @ uchar 0x2013 @ show_int to
          @ '' of '' @ show_int (dp_total pg) @ DOT @ ''[n] next  [b] prev''
      | _ \<Rightarrow> '' '' @ DASH)"

definition render_failed_footer :: "rect \<Rightarrow> app \<Rightarrow> frame" where
  "render_failed_footer area a = [(area, Paragraph (Plain (failed_footer_text (ap_failed a))) (fg DarkGray) AtLeft 0 None)]"

definition render_failed_tx :: "screen_env \<Rightarrow> rect \<Rightarrow> app \<Rightarrow> frame rust" where
  "render_failed_tx E area a =
     (let rows = se_split E Vertical [Len 1, AtLeast 0, Len 1] area in
      then_rust (chunk rows 0) (\<lambda>r0. then_rust (chunk rows 1) (\<lambda>r1. then_rust (render_failed_table E r1 a) (\<lambda>tab.
      then_rust (chunk rows 2) (\<lambda>r2. Return (render_filter r0 a @ tab @ render_failed_footer r2 a))))))"

section \<open>The clusters\<close>

definition cluster_row :: "screen_env \<Rightarrow> dto_unknown_revert_cluster \<Rightarrow> span list" where
  "cluster_row E c =
     [Span plain (dc_template c), Span (fg (Rgb (cluster_kind_color (dc_cluster_kind c)))) (dc_cluster_kind c),
      Span plain (group_thousands (dc_occurrences c)), Span plain (format_pct_str (dc_pct_of_unknown c)),
      Span plain (format_compact (to_number (dc_total_gas_wasted c))),
      Span plain (format_compact (to_number (dc_avg_gas_wasted c))), Span plain (time_ago E (dc_last_seen c))]"

definition render_cluster_table :: "screen_env \<Rightarrow> rect \<Rightarrow> app \<Rightarrow> frame" where
  "render_cluster_table E area a =
     (let b = Bordered '' Unknown revert clusters '' in
      case ap_clusters a of
        Loaded rows \<Rightarrow>
          if rows \<noteq> [] then
            [(area, Table [''template'', ''kind'', ''count'', ''% unk'', ''gas total'', ''gas avg'', ''last seen''] header_row
               (map (cluster_row E) rows) [AtLeast 20, Len 12, Len 8, Len 8, Len 10, Len 10, Len 11] b selected_row MARK
               (ap_cluster_selected a))]
          else render_block_banner E area b (''No UNKNOWN failures '' @ DASH @ '' every revert is classified.'') DarkGray
      | LoadFailed e \<Rightarrow> render_block_banner E area b (''Error: '' @ e) Red
      | _ \<Rightarrow> render_block_banner E area b (''Loading'' @ ELLIPSIS) Yellow)"

definition render_cluster_footer :: "rect \<Rightarrow> app \<Rightarrow> frame" where
  "render_cluster_footer area a =
     (let txt = (case ap_clusters a of
          Loaded rows \<Rightarrow> '' '' @ show_nat (length rows) @ '' cluster(s)'' @ DOT @ show_int (sum_i64 (map dc_occurrences rows))
            @ '' unknown failure(s)'' @ DOT @ ''ordered by occurrences desc''
        | _ \<Rightarrow> '' '' @ DASH) in
      [(area, Paragraph (Plain txt) (fg DarkGray) AtLeft 0 None)])"

definition render_clusters :: "screen_env \<Rightarrow> rect \<Rightarrow> app \<Rightarrow> frame rust" where
  "render_clusters E area a =
     (let rows = se_split E Vertical [AtLeast 0, Len 1] area in
      then_rust (chunk rows 0) (\<lambda>r0. then_rust (chunk rows 1) (\<lambda>r1.
      Return (render_cluster_table E r0 a @ render_cluster_footer r1 a))))"

section \<open>The diagnosis\<close>

definition label_style :: style where
  "label_style = fg DarkGray"

definition header_style :: style where
  "header_style = bold (fg Cyan)"

definition kv :: "string \<Rightarrow> string \<Rightarrow> line" where
  "kv key v = [Span label_style (pad_right 12 key @ '' ''), Span plain v]"

fun join_comma :: "string list \<Rightarrow> string" where
  "join_comma [] = []"
| "join_comma [s] = s"
| "join_comma (s # ss) = s @ '', '' @ join_comma ss"

text \<open>Other values than strings and arrays are printed as JSON.\<close>

fun value_to_string :: "(json \<Rightarrow> string) \<Rightarrow> json \<Rightarrow> string" where
  "value_to_string js (JString s) = s"
| "value_to_string js (JArray xs) = ''['' @ join_comma (map (value_to_string js) xs) @ '']''"
| "value_to_string js v = js v"

definition arg_line :: "screen_env \<Rightarrow> nat \<times> string \<times> json \<Rightarrow> line" where
  "arg_line E = (\<lambda>(i, ty, v). raw_line (''    ['' @ show_nat i @ ''] '' @ ty @ '': '' @ value_to_string (se_json_text E) v))"

definition push_decoded :: "screen_env \<Rightarrow> string \<Rightarrow> dto_decoded_function \<Rightarrow> line list" where
  "push_decoded E title df =
     [[Span header_style title], kv ''selector'' (dfn_selector df), kv ''name'' (dfn_name df), kv ''signature'' (dfn_signature df)]
     @ (case dfn_source df of Some src \<Rightarrow> [kv ''source'' src] | None \<Rightarrow> [])
     @ (case dfn_args df of
          Some args \<Rightarrow>
            if args \<noteq> [] then [Span label_style ''  args:''] # map (arg_line E) (enumerate 0 args)
            else [[Span label_style ''  args: (none)'']]
        | None \<Rightarrow> [[Span label_style ''  args: (not decoded)'']])
     @ [raw_line []]"

definition frame_line :: "i64 option \<Rightarrow> dto_trace_log \<Rightarrow> line rust" where
  "frame_line root_id f =
     then_rust (truncate_hash (dg_from_addr f)) (\<lambda>caller.
     then_rust (truncate_hash (unwrap_or (dg_to_addr f) ''(create)'')) (\<lambda>callee. Return
       [Span (if Some (dg_trace_id f) = root_id then bold (fg Red) else plain)
          (concat (replicate (nat (max (dg_call_depth f) 0)) ''  '') @ dg_call_type f @ '' '' @ caller @ '' '' @ uchar 0x2192 @ '' ''
           @ callee @ ''  gas '' @ group_thousands (dg_gas_used f)
           @ (if dg_value f \<noteq> ''0'' \<and> dg_value f \<noteq> [] then ''  value '' @ dg_value f else [])
           @ (case dg_error f of Some err \<Rightarrow> ''  '' @ uchar 0x2B95 @ '' revert: '' @ err | None \<Rightarrow> []))]))"

definition summary_lines :: "screen_env \<Rightarrow> dto_failed_transaction \<Rightarrow> line list" where
  "summary_lines E t =
     (let cat = normalize_category (dx_error_category t) in
      [kv ''tx hash'' (dx_tx_hash t),
       [Span label_style (pad_right 12 ''category'' @ '' ''),
        Span (bold (fg (Rgb (error_category_color cat)))) (error_category_label cat)],
       kv ''revert'' (unwrap_or (dx_revert_reason t) DASH), kv ''function'' (unwrap_or (dx_failing_function t) DASH),
       kv ''gas used'' (group_thousands (dx_gas_used t)), kv ''when'' (time_ago E (dx_timestamp t)), raw_line []])"

definition diagnosis_lines :: "dto_diagnosis option \<Rightarrow> line list" where
  "diagnosis_lines dg =
     [Span header_style ''Diagnosis''] #
     (case dg of
        Some g \<Rightarrow> [kv ''why'' (ddi_message g)]
          @ (case ddi_recommended_action g of Some act \<Rightarrow> [kv ''fix'' act] | None \<Rightarrow> [])
          @ (case ddi_source g of Some src \<Rightarrow> [kv ''source'' src] | None \<Rightarrow> [])
      | None \<Rightarrow> [[Span label_style ''  (no diagnosis seeded for this category)'']])"

definition detail_lines :: "screen_env \<Rightarrow> dto_failed_tx_detail \<Rightarrow> line list rust" where
  "detail_lines E d =
     (let root_id = map_option dg_trace_id (dd_root_cause d);
          title = ''Call tree ('' @ show_nat (length (dd_call_tree d)) @ '' frames)''
            @ (if dd_call_tree_truncated d then '' '' @ DASH @ '' truncated'' else []) in
      then_rust (each_rust (frame_line root_id) (dd_call_tree d)) (\<lambda>frames. Return
        (summary_lines E (dd_failed d) @ [[Span header_style title]] @ frames @ [raw_line []]
         @ (case dd_failing_function_decoded d of Some df \<Rightarrow> push_decoded E ''Failing function'' df | None \<Rightarrow> [])
         @ (case dd_root_cause_decoded d of Some df \<Rightarrow> push_decoded E ''Root cause function'' df | None \<Rightarrow> [])
         @ diagnosis_lines (dd_diagnosis d))))"

definition render_detail :: "screen_env \<Rightarrow> rect \<Rightarrow> app \<Rightarrow> frame rust" where
  "render_detail E area a =
     (let b = Bordered '' Failure diagnosis '' in
      case ap_detail a of
        Loaded d \<Rightarrow> then_rust (detail_lines E d) (\<lambda>ls. Return
          [(area, BlockFrame b), (se_inner E b area, Paragraph (Lines ls) plain AtLeft (ap_detail_scroll a) None)])
      | LoadFailed e \<Rightarrow> Return (render_block_banner E area b (''Error: '' @ e) Red)
      | Loading \<Rightarrow> Return (render_block_banner E area b (''Loading'' @ ELLIPSIS) Yellow)
      | Idle \<Rightarrow> Return (render_block_banner E area b ''Select a failed transaction (Enter on the Failed Tx tab).'' DarkGray))"

section \<open>A frame\<close>

definition draw :: "screen_env \<Rightarrow> tui_config \<Rightarrow> rect \<Rightarrow> app \<Rightarrow> frame rust" where
  "draw E cfg full a =
     (let banner_h = (if 18 \<le> re_height full \<and> 34 \<le> re_width full then 3 else 0);
          chunks = se_split E Vertical [Len banner_h, Len 3, AtLeast 0, Len 1] full in
      then_rust (if 0 < banner_h then then_rust (chunk chunks 0) (\<lambda>c. Return (render_banner c)) else Return []) (\<lambda>head_part.
      then_rust (chunk chunks 1) (\<lambda>c1.
      then_rust (chunk chunks 2) (\<lambda>c2.
      then_rust (case ap_screen a of
          Overview \<Rightarrow> render_overview E c2 a
        | FailedTx \<Rightarrow> render_failed_tx E c2 a
        | Detail \<Rightarrow> render_detail E c2 a
        | Clusters \<Rightarrow> render_clusters E c2 a) (\<lambda>body.
      then_rust (chunk chunks 3) (\<lambda>c3.
      then_rust (if ap_show_help a then render_help E full else Return []) (\<lambda>help.
      Return (head_part @ render_tabs c1 a @ body @ render_status E cfg c3 a @ help))))))))"

end
