(* ===== verification/TuiApi.thy ===== *)
theory TuiApi
  imports Tui Admin
begin

text \<open>
  The terminal client against the API it talks to: the query string the client builds, read by the query
  extractor of the list route, and the category in the answer, read by the client.
\<close>

section \<open>The list request\<close>

text \<open>What the extractor of the list route reads from the pairs of a query string.\<close>

definition query_text :: "(string \<times> string) list \<Rightarrow> string \<Rightarrow> string option" where
  "query_text q name = map_of q name"

definition query_i64 :: "(string \<times> string) list \<Rightarrow> string \<Rightarrow> i64 option" where
  "query_i64 q name = Option.bind (map_of q name) (parse_signed 64)"

definition serve_list :: "(string \<Rightarrow> instant option) \<Rightarrow> (string \<times> string) list \<Rightarrow> failed_transaction total_paginated handler" where
  "serve_list rfc3339 q =
     list_failed_tx rfc3339 (query_text q ''category'') (query_text q ''from'') (query_text q ''to'')
       (query_i64 q ''limit'') (query_i64 q ''offset'')"

text \<open>How far a window reaches back.\<close>

fun window_span :: "time_window \<Rightarrow> int option" where
  "window_span AllTime = None"
| "window_span H24 = Some (24 * 3600000000)"
| "window_span D7 = Some (7 * 86400000000)"
| "window_span D30 = Some (30 * 86400000000)"

lemma start_iso_span: "start_iso fmt now w = map_option (\<lambda>s. fmt (now - s)) (window_span w)"
  by (cases w) (simp_all add: start_iso_def)

lemma query_pairs_read:
  assumes "good_filter f"
  shows "query_text (query_pairs fmt now f) ''category'' = ff_category f"
    "query_text (query_pairs fmt now f) ''from'' = map_option (\<lambda>s. fmt (now - s)) (window_span (ff_window f))"
    "query_text (query_pairs fmt now f) ''to'' = None"
    "query_i64 (query_pairs fmt now f) ''limit'' = Some 20"
    "query_i64 (query_pairs fmt now f) ''offset'' = Some (ff_offset f)"
proof -
  have i: "parse_signed 64 (show_int (ff_limit f)) = Some 20" "parse_signed 64 (show_int (ff_offset f)) = Some (ff_offset f)"
    using assms by (simp_all add: good_filter_def parse_signed_show_int)
  show "query_text (query_pairs fmt now f) ''category'' = ff_category f"
    "query_text (query_pairs fmt now f) ''from'' = map_option (\<lambda>s. fmt (now - s)) (window_span (ff_window f))"
    "query_text (query_pairs fmt now f) ''to'' = None"
    "query_i64 (query_pairs fmt now f) ''limit'' = Some 20"
    "query_i64 (query_pairs fmt now f) ''offset'' = Some (ff_offset f)"
    by (simp_all add: query_text_def query_i64_def query_pairs_def start_iso_span i split: option.split)
qed

lemma parse_category_filter:
  assumes "good_filter f"
  obtains c where "parse_category ''category'' (ff_category f) = Inr c" "map_option as_wire c = ff_category f"
proof (cases "ff_category f")
  case (Some w)
  with assms obtain k where k: "w = as_wire k" by (auto simp: good_filter_def CATEGORIES_wire)
  have "w \<noteq> []" by (cases k) (simp_all add: k)
  moreover have "ErrorCategory_from_str w = Inr k" unfolding k by (rule ec.dec_enc)
  ultimately show thesis using Some k by (intro that [of "Some k"]) (simp_all add: parse_category_def)
qed (simp add: parse_category_def that)

lemma normalize_category_variant: "normalize_category (variant_name k) = as_wire k"
  by (cases k) (simp_all add: normalize_category_def)

text \<open>The rows of a page.\<close>

lemma page_rows:
  assumes "0 \<le> k"
  shows "list_failed_transactions c from_t to_t 20 k d =
      Inr (take 20 (drop (nat k) (sort_key (\<lambda>f. - f_timestamp f) (filter (failed_filter c from_t to_t) (failed_transactions d)))), d)"
  using assms by (simp add: list_failed_transactions_def select_def pg_page_def)

lemma serve_list_eq:
  fixes now :: instant and d :: db
  assumes chrono: "\<And>t. fmt t \<noteq> [] \<and> rfc3339 (fmt t) = Some t" and f: "good_filter f"
    and c: "parse_category ''category'' (ff_category f) = Inr c"
  defines "all \<equiv> filter (failed_filter c (map_option (\<lambda>s. now - s) (window_span (ff_window f))) None) (failed_transactions d)"
  defines "rows \<equiv> take 20 (drop (nat (ff_offset f)) (sort_key (\<lambda>f. - f_timestamp f) all))"
  shows "serve_list rfc3339 (query_pairs fmt now f) d =
     (Inr (rows, \<lparr>pm_limit = 20, pm_offset = ff_offset f, pm_count = int (length rows), pm_total = int (length all)\<rparr>), d)"
proof -
  have t: "parse_ts rfc3339 (map_option (\<lambda>s. fmt (now - s)) w) n = Inr (map_option (\<lambda>s. now - s) w)" for w n
    using chrono by (cases w) (simp_all add: parse_ts_def)
  have n: "parse_ts rfc3339 None n = Inr None" for n by (simp add: parse_ts_def)
  have l: "clamp (unwrap_or (Some 20) 20) 1 100 = (20 :: int)" "max (unwrap_or (Some (ff_offset f)) 0) 0 = ff_offset f"
    using f by (simp_all add: clamp_def good_filter_def)
  have k: "0 \<le> ff_offset f" using f by (simp add: good_filter_def)
  show ?thesis
    unfolding serve_list_def query_pairs_read [OF f] list_failed_tx_def and_then_answer c sum.case t n l Let_def
    by (simp add: and_then_def ask_def page_rows [OF k] count_failed_transactions_def answer_def all_def rows_def)
qed


text \<open>A rendering of instants that has the law.\<close>

definition decimal_instant :: "string \<Rightarrow> instant option" where
  "decimal_instant s =
     (case s of
        [] \<Rightarrow> None
      | c # cs \<Rightarrow> if c = CHR ''-'' then map_option (\<lambda>n. - int n) (digits_value 10 0 cs)
                  else map_option int (digits_value 10 0 s))"

lemma decimal_instant_show: "show_int t \<noteq> [] \<and> decimal_instant (show_int t) = Some t"
proof -
  obtain c cs where c: "show_nat (nat t) = c # cs" by (cases "show_nat (nat t)") simp_all
  then have "c \<noteq> CHR ''-''" using show_nat_hd [of "nat t"] by auto
  with c show ?thesis
    using digits_value_show_nat [of "nat t"]
    by (auto simp: decimal_instant_def show_int_def digits_value_show_nat simp del: digits_value.simps)
qed

definition filtered_run :: "(instant \<times> ui_event) list" where
  "filtered_run = map (Pair 5) [KeyPress False (KChar CHR ''2''), KeyPress False (KChar CHR ''c''), KeyPress False (KChar CHR ''t'')]"

abbreviation filtered_query :: "(string \<times> string) list" where
  "filtered_query \<equiv> query_pairs show_int 5 \<lparr>ff_category = Some ''INSUFFICIENT_BALANCE'', ff_window = H24, ff_limit = 20, ff_offset = 0\<rparr>"

lemma filtered_query_pending: "FetchFailedList filtered_query \<in> set (ap_pending (run_ui show_int 0 filtered_run))"
  by (simp add: filtered_run_def run_ui_def app_new_def run_turn_def map_key_def apply_action_def goto_screen_def
      spawn_fetch_active_def spawn_def cycle_category_def cycle_window_def set_filter_def next_category_def CATEGORIES_def)

lemma filtered_request:
  "\<exists>q rows m. FetchFailedList q \<in> set (ap_pending (run_ui show_int 0 filtered_run))
     \<and> serve_list decimal_instant q sample_db = (Inr (rows, m), sample_db)"
proof -
  have f: "good_filter \<lparr>ff_category = Some ''INSUFFICIENT_BALANCE'', ff_window = H24, ff_limit = 20, ff_offset = 0\<rparr>"
    by (simp add: good_filter_def CATEGORIES_def)
  obtain c where c: "parse_category ''category'' (Some ''INSUFFICIENT_BALANCE'') = Inr c" using parse_category_filter [OF f] by auto
  from serve_list_eq [of show_int decimal_instant, OF decimal_instant_show f, of c 5 sample_db] c filtered_query_pending
  show ?thesis by auto
qed


end
