(* ===== verification/TuiScreens.thy ===== *)
theory TuiScreens
  imports TuiDraw TuiApi "HOL-Library.Multiset"
begin

text \<open>
  What the drawn screens show: when drawing panics, the page numbers under the list of failed transactions
  against the pages the API serves, the bars of the overview, and the highlighted frame of the call tree.
\<close>

section \<open>Panics while drawing\<close>

text \<open>Shortening a string to its first six and last four bytes is possible.\<close>

definition sliceable :: "string \<Rightarrow> bool" where
  "sliceable s \<longleftrightarrow> length s \<le> 12 \<or> (is_char_boundary s 6 \<and> is_char_boundary s (length s - 4))"

lemma sliceable_ascii: "list_all (\<lambda>c. (of_char c :: nat) < 128) s \<Longrightarrow> sliceable s"
  by (auto simp: sliceable_def is_char_boundary_def list_all_length not_le)

lemma truncate_hash_Panic [simp]: "truncate_hash s = Panic \<longleftrightarrow> \<not> sliceable s"
  by (simp add: truncate_hash_def sliceable_def)

lemma then_rust_Panic [simp]: "then_rust r f = Panic \<longleftrightarrow> r = Panic \<or> (\<exists>x. r = Return x \<and> f x = Panic)"
  by (cases r) simp_all

lemma then_rust_Return [simp]: "then_rust r f = Return y \<longleftrightarrow> (\<exists>x. r = Return x \<and> f x = Return y)"
  by (cases r) simp_all

lemma each_rust_Panic [simp]: "each_rust f xs = Panic \<longleftrightarrow> (\<exists>x \<in> set xs. f x = Panic)"
  by (induction xs) (auto, metis rust.exhaust)

lemma each_rust_Return: "each_rust f xs = Return ys \<longleftrightarrow> list_all2 (\<lambda>x y. f x = Return y) xs ys"
  by (induction xs arbitrary: ys) (auto simp: list_all2_Cons1)

lemma truncate_hash_cases: "(\<exists>x. truncate_hash s = Return x) \<longleftrightarrow> sliceable s"
  by (metis rust.exhaust rust.distinct(1) truncate_hash_Panic)

lemma failed_tx_row_Panic: "failed_tx_row E t = Panic \<longleftrightarrow> \<not> sliceable (dx_tx_hash t)"
  by (simp add: failed_tx_row_def Let_def)

lemma frame_line_Panic:
  "frame_line r f = Panic \<longleftrightarrow> \<not> (sliceable (dg_from_addr f) \<and> (\<forall>to. dg_to_addr f = Some to \<longrightarrow> sliceable to))"
proof -
  have "sliceable ''(create)''" by (simp add: sliceable_def)
  then have "sliceable (unwrap_or (dg_to_addr f) ''(create)'') \<longleftrightarrow> (\<forall>to. dg_to_addr f = Some to \<longrightarrow> sliceable to)"
    by (cases "dg_to_addr f") simp_all
  then show ?thesis by (auto simp: frame_line_def truncate_hash_cases [of "dg_from_addr f"])
qed

lemma detail_lines_Panic: "detail_lines E d = Panic \<longleftrightarrow> (\<exists>f \<in> set (dd_call_tree d). frame_line (map_option dg_trace_id (dd_root_cause d)) f = Panic)"
  by (simp add: detail_lines_def Let_def)

lemma chunk_total [simp]: "i < length rs \<Longrightarrow> chunk rs i = Return (rs ! i)"
  by (simp add: chunk_def)

lemma render_detail_Panic: "render_detail E area a = Panic \<longleftrightarrow> (\<exists>d. ap_detail a = Loaded d \<and> detail_lines E d = Panic)"
  by (cases "ap_detail a") (simp_all add: render_detail_def Let_def)

lemma render_failed_table_Panic:
  "render_failed_table E area a = Panic \<longleftrightarrow> (\<exists>p t. ap_failed a = Loaded p \<and> t \<in> set (tp_data p) \<and> \<not> sliceable (dx_tx_hash t))"
  by (cases "ap_failed a") (auto simp: render_failed_table_def failed_tx_row_Panic Let_def)

text \<open>The layout library returns one rectangle for each constraint.\<close>

definition layout_ok :: "screen_env \<Rightarrow> bool" where
  "layout_ok E \<longleftrightarrow> (\<forall>dir cs r. length (se_split E dir cs r) = length cs)"

lemma chunk_layout:
  "layout_ok E \<Longrightarrow> i < length cs \<Longrightarrow> chunk (se_split E dir cs r) i = Return (se_split E dir cs r ! i)"
  by (simp add: layout_ok_def)

lemma body_Panic:
  assumes "layout_ok E"
  shows "render_overview E area a \<noteq> Panic" "render_clusters E area a \<noteq> Panic" "render_help E area \<noteq> Panic"
    "render_failed_tx E area a = Panic \<longleftrightarrow> (\<exists>r. render_failed_table E r a = Panic)"
proof -
  note c = chunk_layout [OF assms]
  show "render_overview E area a \<noteq> Panic"
    by (auto simp: render_overview_def render_kpis_def c Let_def split: prod.split)
  show "render_clusters E area a \<noteq> Panic" by (auto simp: render_clusters_def c Let_def)
  show "render_help E area \<noteq> Panic" by (auto simp: render_help_def centered_rect_def c Let_def)
  show "render_failed_tx E area a = Panic \<longleftrightarrow> (\<exists>r. render_failed_table E r a = Panic)"
    by (auto simp: render_failed_tx_def c Let_def render_failed_table_Panic)
qed

lemma draw_Panic:
  assumes "layout_ok E"
  shows "draw E cfg full a = Panic \<longleftrightarrow>
     (ap_screen a = FailedTx \<and> (\<exists>p t. ap_failed a = Loaded p \<and> t \<in> set (tp_data p) \<and> \<not> sliceable (dx_tx_hash t)))
     \<or> (ap_screen a = Detail \<and> (\<exists>d f. ap_detail a = Loaded d \<and> f \<in> set (dd_call_tree d)
          \<and> \<not> (sliceable (dg_from_addr f) \<and> (\<forall>to. dg_to_addr f = Some to \<longrightarrow> sliceable to))))"
proof -
  note c = chunk_layout [OF assms] and b = body_Panic [OF assms]
  have h: "\<exists>x. render_help E full = Return x" using b(3) by (cases "render_help E full") auto
  show ?thesis
    by (cases "ap_screen a")
      (auto simp: draw_def c Let_def b h render_failed_table_Panic render_detail_Panic detail_lines_Panic frame_line_Panic)
qed

text \<open>C26: drawing a frame panics in exactly two situations, both about strings the API sent that are shortened at
  a byte position inside a character: a transaction hash of the loaded list, or a caller or callee of the
  loaded call tree.  Every other state of the client, whatever is loading, failed, empty or out of range, is
  drawn.\<close>

theorem drawing_panics_iff:
  assumes "layout_ok E"
  shows "draw E cfg full a = Panic \<longleftrightarrow>
     (ap_screen a = FailedTx \<and> (\<exists>p t. ap_failed a = Loaded p \<and> t \<in> set (tp_data p) \<and> \<not> sliceable (dx_tx_hash t)))
     \<or> (ap_screen a = Detail \<and> (\<exists>d f. ap_detail a = Loaded d \<and> f \<in> set (dd_call_tree d)
          \<and> \<not> (sliceable (dg_from_addr f) \<and> (\<forall>to. dg_to_addr f = Some to \<longrightarrow> sliceable to))))"
  by (rule draw_Panic [OF assms])

definition one_rect :: rect where
  "one_rect = \<lparr>re_x = 0, re_y = 0, re_width = 100, re_height = 40\<rparr>"

definition plain_env :: screen_env where
  "plain_env = \<lparr>se_split = (\<lambda>dir cs r. map (\<lambda>_. r) cs), se_inner = (\<lambda>b r. r), se_now = 0, se_rfc3339 = (\<lambda>_. None),
     se_json_text = (\<lambda>_. [])\<rparr>"

theorem drawing_panics_iff_witness:
  "draw plain_env (tui_from_env_with (\<lambda>_. None)) one_rect (app_new\<lparr>ap_screen := FailedTx, ap_failed := Loaded sample_page\<rparr>) \<noteq> Panic
   \<and> draw plain_env (tui_from_env_with (\<lambda>_. None)) one_rect (app_new\<lparr>ap_screen := FailedTx,
       ap_failed := Loaded (sample_page\<lparr>tp_data := [sample_row (''aaaaa'' @ ELLIPSIS @ ''bbbbbb'')]\<rparr>)\<rparr>) = Panic"
proof -
  have l: "layout_ok plain_env" by (simp add: layout_ok_def plain_env_def)
  show ?thesis
    unfolding drawing_panics_iff [OF l]
    by (auto simp: sample_page_def sample_row_def sliceable_def ELLIPSIS_def uchar_def is_char_boundary_def app_new_def)
qed

section \<open>The page numbers\<close>

text \<open>The pagination of an answer as the client receives it.\<close>

definition received_meta :: "pagination_meta \<Rightarrow> dto_pagination_meta" where
  "received_meta m = \<lparr>dp_limit = pm_limit m, dp_offset = pm_offset m, dp_count = pm_count m, dp_total = pm_total m\<rparr>"

definition footer_shows :: "int \<Rightarrow> int \<Rightarrow> int \<Rightarrow> int \<Rightarrow> int \<Rightarrow> string" where
  "footer_shows page pages first to n =
     '' page '' @ show_int page @ ''/'' @ show_int pages @ DOT @ ''showing '' @ show_int first @ uchar 0x2013 @ show_int to
     @ '' of '' @ show_int n @ DOT @ ''[n] next  [b] prev''"

lemma failed_footer_text_exact:
  assumes "1 \<le> pm_limit m" "pm_limit m < 2 ^ 53" "0 \<le> pm_offset m" "pm_offset m < 2 ^ 62" "0 \<le> pm_count m" "pm_count m < 2 ^ 53"
    "0 \<le> pm_total m" "pm_total m < 2 ^ 53" "tp_pagination p = received_meta m"
  shows "failed_footer_text (Loaded p) =
     footer_shows (pm_offset m div pm_limit m + 1) (max ((pm_total m + pm_limit m - 1) div pm_limit m) 1)
       (if pm_total m = 0 then 0 else pm_offset m + 1) (pm_offset m + pm_count m) (pm_total m)"
proof -
  have "pm_offset m div pm_limit m \<le> pm_offset m" "0 \<le> pm_offset m div pm_limit m"
    using assms(1,3) zdiv_mono2 [of "pm_offset m" 1 "pm_limit m"] by (simp_all add: pos_imp_zdiv_nonneg_iff)
  then have "i64_wrap (trunc_div (pm_offset m) (pm_limit m) + 1) = pm_offset m div pm_limit m + 1"
    using assms(3,4) by (simp add: trunc_div_def)
  then show ?thesis
    using assms by (simp add: failed_footer_text_def received_meta_def footer_shows_def Let_def f64_ceil_quotient max_absorb1)
qed

lemma page_arithmetic:
  fixes k n c :: int
  assumes "0 \<le> k" "20 dvd k" "0 \<le> n" "c = min 20 (max (n - k) 0)" "0 < c"
  shows "k div 20 + 1 \<le> max ((n + 19) div 20) 1 \<and> k + 1 \<le> k + c \<and> k + c \<le> n
     \<and> (k div 20 + 1 = max ((n + 19) div 20) 1 \<longleftrightarrow> k + c = n)"
proof -
  obtain j where j: "k = 20 * j" using assms(2) by blast
  have "k < n" using assms(4,5) by auto
  then have "20 * (j + 1) \<le> n + 19" unfolding j by simp
  then have m: "j + 1 \<le> (n + 19) div 20" by presburger
  moreover have "0 \<le> j" using assms(1) j by simp
  ultimately have "max ((n + 19) div 20) 1 = (n + 19) div 20" by simp
  note m = this m
  have "j + 1 = (n + 19) div 20 \<longleftrightarrow> n \<le> 20 * j + 20"
  proof (cases "n \<le> 20 * j + 20")
    case True
    then have "(n + 19) div 20 \<le> (20 * j + 39) div 20" by (intro zdiv_mono1) simp_all
    also have "\<dots> = j + 1" by simp
    finally show ?thesis using m(2) True by simp
  next
    case False
    then have "(20 * j + 40) div 20 \<le> (n + 19) div 20" by (intro zdiv_mono1) simp_all
    then show ?thesis using False by simp
  qed
  then have "j + 1 = (n + 19) div 20 \<longleftrightarrow> k + c = n" using assms(4) \<open>k < n\<close> j by auto
  with m show ?thesis using assms(4,5) j by auto
qed

text \<open>C27: the footer of the list tells the truth about the page the API served.  For every list request the
  client sends in any run, and any database with fewer than \<open>2\<^sup>5\<^sup>3\<close> failures: the numbers shown are the exact
  ones, although the number of pages is computed with floating point numbers.  On a page with rows the page
  number is at most the number of pages, the row numbers lie within the total, and the page is the last
  one exactly when it ends with the last row.  Only a page past the end, which a rollback can leave the client
  on, is shown with a number beyond the number of pages.\<close>

theorem footer_of_served_page:
  assumes chrono: "\<And>t. fmt t \<noteq> [] \<and> rfc3339 (fmt t) = Some t"
    and small: "\<forall>(t, e) \<in> set es. small_event e"
    and pending: "FetchFailedList q \<in> set (ap_pending (run_ui fmt start es))"
    and served: "serve_list rfc3339 q d = (Inr (rows, m), d')"
    and few: "length (failed_transactions d) < 2 ^ 53"
    and shown: "tp_pagination p = received_meta m"
  defines "k \<equiv> pm_offset m" and "n \<equiv> pm_total m"
  defines "pages \<equiv> max ((n + 19) div 20) 1"
  shows "failed_footer_text (Loaded p) =
       footer_shows (k div 20 + 1) pages (if n = 0 then 0 else k + 1) (k + int (length rows)) n
     \<and> (rows \<noteq> [] \<longrightarrow> k div 20 + 1 \<le> pages \<and> k + 1 \<le> k + int (length rows) \<and> k + int (length rows) \<le> n
          \<and> (k div 20 + 1 = pages \<longleftrightarrow> k + int (length rows) = n))"
proof -
  from run_ui_ok [OF small, of fmt start] pending obtain now f where f: "good_filter f" and q: "q = query_pairs fmt now f"
    unfolding app_ok_def fetches_ok_def by blast
  from parse_category_filter [OF f] obtain c where c: "parse_category ''category'' (ff_category f) = Inr c" by blast
  define all where "all = filter (failed_filter c (map_option (\<lambda>s. now - s) (window_span (ff_window f))) None) (failed_transactions d)"
  have rows: "rows = take 20 (drop (nat (ff_offset f)) (sort_key (\<lambda>f. - f_timestamp f) all))"
    and m: "m = \<lparr>pm_limit = 20, pm_offset = ff_offset f, pm_count = int (length rows), pm_total = int (length all)\<rparr>"
    using served serve_list_eq [OF chrono f c, of now d] unfolding q all_def [symmetric] by auto
  have o: "0 \<le> ff_offset f" "ff_offset f < 2 ^ 62" "20 dvd ff_offset f" using f by (simp_all add: good_filter_def)
  have len: "int (length rows) = min 20 (max (int (length all) - ff_offset f) 0)" using o(1) by (simp add: rows)
  have n: "int (length all) < 2 ^ 53"
  proof -
    have "length all \<le> length (failed_transactions d)" unfolding all_def by (rule length_filter_le)
    with few show ?thesis by simp
  qed
  define c n0 where "c = int (length rows)" and "n0 = int (length all)"
  have pm: "pm_limit m = 20" "pm_offset m = ff_offset f" "pm_count m = c" "pm_total m = n0" by (simp_all add: m c_def n0_def)
  have c: "0 \<le> c" "c \<le> 20" "c = min 20 (max (n0 - k) 0)"
    using len by (simp_all add: c_def n0_def k_def pm)
  have c4: "rows \<noteq> [] \<longleftrightarrow> 0 < c" by (simp add: c_def)
  have n0: "0 \<le> n0" "n0 < 2 ^ 53" using n by (simp_all add: n0_def)
  have "n0 + 20 - 1 = n0 + 19" by simp
  with failed_footer_text_exact [of m p] have "failed_footer_text (Loaded p) =
      footer_shows (k div 20 + 1) pages (if n = 0 then 0 else k + 1) (k + c) n"
    using shown o n0 c(1,2) unfolding pm k_def n_def pages_def by simp
  moreover have "0 < c \<longrightarrow> k div 20 + 1 \<le> pages \<and> k + 1 \<le> k + c \<and> k + c \<le> n \<and> (k div 20 + 1 = pages \<longleftrightarrow> k + c = n)"
    using o n0 c(3) unfolding pm k_def n_def pages_def by (intro impI page_arithmetic)
  ultimately show ?thesis unfolding c4 unfolding c_def by blast
qed

theorem footer_of_served_page_witness:
  "\<exists>q rows m. FetchFailedList q \<in> set (ap_pending (run_ui show_int 0 filtered_run))
     \<and> serve_list decimal_instant q sample_db = (Inr (rows, m), sample_db)
     \<and> failed_footer_text (Loaded (sample_page\<lparr>tp_pagination := received_meta m\<rparr>))
       = footer_shows (pm_offset m div 20 + 1) (max ((pm_total m + 19) div 20) 1) (if pm_total m = 0 then 0 else pm_offset m + 1)
           (pm_offset m + int (length rows)) (pm_total m)"
proof -
  have s: "\<forall>(t, e) \<in> set filtered_run. small_event e" by (simp add: filtered_run_def)
  from filtered_request obtain q rows m where p: "FetchFailedList q \<in> set (ap_pending (run_ui show_int 0 filtered_run))"
      "serve_list decimal_instant q sample_db = (Inr (rows, m), sample_db)" by blast
  have "length (failed_transactions sample_db) < 2 ^ 53" by (simp add: sample_db_def)
  moreover have "tp_pagination (sample_page\<lparr>tp_pagination := received_meta m\<rparr>) = received_meta m" by simp
  ultimately show ?thesis
    using footer_of_served_page [of show_int decimal_instant, OF decimal_instant_show s p] p by blast
qed

section \<open>The bars of the overview\<close>

text \<open>The length of a bar before it is rounded to cells.\<close>

definition bar_scale :: "int \<Rightarrow> int \<Rightarrow> nat \<Rightarrow> rat" where
  "bar_scale n most w = round_mag (round_mag (of_int n / of_int most) * of_nat w)"

lemma round_mag_1: "round_mag 1 = 1"
  using round_mag_nat [of 1] by simp

lemma bar_scale_bounds:
  assumes "0 \<le> n" "n \<le> most" "1 \<le> most" "w < 2 ^ 16"
  shows "0 \<le> round_mag (of_int n / of_int most)" "round_mag (of_int n / of_int most) \<le> 1"
    "0 \<le> bar_scale n most w" "bar_scale n most w \<le> of_nat w"
proof -
  define x where "x = round_mag (of_int n / of_int most)"
  have q: "0 \<le> of_int n / (of_int most :: rat)" "of_int n / (of_int most :: rat) \<le> 1" using assms by (simp_all add: field_simps)
  show x: "0 \<le> round_mag (of_int n / of_int most)" using q by (intro round_mag_nonneg)
  show x1: "round_mag (of_int n / of_int most) \<le> 1" using round_mag_mono [OF q] by (simp add: round_mag_1)
  have "0 \<le> x * of_nat w" "x * of_nat w \<le> of_nat w" using x x1 by (simp_all add: x_def mult_left_le_one_le)
  then show "0 \<le> bar_scale n most w" "bar_scale n most w \<le> of_nat w"
    using round_mag_mono [of "x * of_nat w" "of_nat w"] assms(4)
    by (simp_all add: bar_scale_def x_def round_mag_nonneg round_mag_nat)
qed

lemma bar_scale_mono:
  assumes "0 \<le> n" "n \<le> n'" "1 \<le> most"
  shows "bar_scale n most w \<le> bar_scale n' most w"
proof -
  have "of_int n / (of_int most :: rat) \<le> of_int n' / of_int most" using assms by (intro divide_right_mono) simp_all
  moreover have "0 \<le> of_int n / (of_int most :: rat)" using assms by simp
  ultimately show ?thesis unfolding bar_scale_def
    by (intro round_mag_mono mult_right_mono mult_nonneg_nonneg round_mag_nonneg) simp_all
qed

lemma bar_cells_scale:
  assumes "0 \<le> n" "n \<le> most" "1 \<le> most" "most < 2 ^ 53" "w < 2 ^ 16"
  shows "bar_cells n most w = clamp (nat \<lfloor>bar_scale n most w + 1 / 2\<rfloor>) (if 0 < n then 1 else 0) w"
proof -
  note b = bar_scale_bounds [OF assms(1-3,5)]
  define x where "x = round_mag (of_int n / of_int most)"
  have i: "i64_as_f64 n = Finite False (of_int n)" "i64_as_f64 most = Finite False (of_int most)"
    "i64_as_f64 (int w) = Finite False (of_nat w)"
    using assms by (simp_all add: i64_as_f64_small)
  have q: "of_int n / (of_int most :: rat) \<le> 1" "0 \<le> of_int n / (of_int most :: rat)" using assms by (simp_all add: field_simps)
  moreover have "of_int n / (of_int most :: rat) \<le> 2 ^ 53" by (rule order_trans [OF q(1)]) simp
  ultimately have "f64_div (i64_as_f64 n) (i64_as_f64 most) = Finite False x"
    using assms(3) f64_of_small [of "of_int n / of_int most" False] by (simp add: i x_def)
  moreover have w: "of_nat w \<le> (2 ^ 16 :: rat)" using assms(5) by (metis less_imp_le of_nat_le_iff of_nat_numeral of_nat_power)
  then have "f64_of False (x * of_nat w) = Finite False (bar_scale n most w)"
    using b(1,2) mult_left_le_one_le [of "of_nat w :: rat" x] by (subst f64_of_small) (simp_all add: x_def bar_scale_def)
  ultimately have "f64_mul (f64_div (i64_as_f64 n) (i64_as_f64 most)) (i64_as_f64 (int w)) = Finite False (bar_scale n most w)"
    by (simp add: i)
  moreover have "\<lfloor>bar_scale n most w + 1 / 2\<rfloor> \<le> 2 ^ 16 + 1" using b(4) w by (simp add: floor_le_iff)
  moreover have "0 \<le> \<lfloor>bar_scale n most w + 1 / 2\<rfloor>" using b(3) by simp
  ultimately show ?thesis by (simp add: bar_cells_def f64_as_usize_def f64_as_int_def clamp_id Let_def)
qed

lemma bar_cells_bounds:
  assumes "0 \<le> n" "n \<le> most" "1 \<le> most" "most < 2 ^ 53" "w < 2 ^ 16" "1 \<le> w"
  shows "bar_cells n most w \<le> w" "bar_cells n most w = 0 \<longleftrightarrow> n = 0" "n = most \<Longrightarrow> bar_cells n most w = w"
proof -
  note e = bar_cells_scale [OF assms(1-5)]
  show "bar_cells n most w \<le> w" using assms(6) clamp_bounds [of "if 0 < n then 1 else 0" w] by (simp add: e)
  show "bar_cells n most w = 0 \<longleftrightarrow> n = 0"
  proof (cases "n = 0")
    case True
    then show ?thesis unfolding e by (simp add: bar_scale_def clamp_def)
  next
    case False
    then show ?thesis using assms(1,6) clamp_bounds [of 1 w "nat \<lfloor>bar_scale n most w + 1 / 2\<rfloor>"] by (simp add: e)
  qed
  show "bar_cells n most w = w" if "n = most"
  proof -
    have "bar_scale n most w = of_nat w" using that assms(3,5) by (simp add: bar_scale_def round_mag_1 round_mag_nat)
    then have "\<lfloor>bar_scale n most w + 1 / 2\<rfloor> = int w" by (simp add: floor_eq_iff)
    then show ?thesis using assms(6) by (simp add: e clamp_def)
  qed
qed

lemma clamp_mono: "x \<le> y \<Longrightarrow> lo \<le> lo' \<Longrightarrow> lo' \<le> hi \<Longrightarrow> clamp x lo hi \<le> clamp y lo' hi"
  by (auto simp: clamp_def)

lemma bar_cells_mono:
  assumes "0 \<le> n" "n \<le> n'" "n' \<le> most" "1 \<le> most" "most < 2 ^ 53" "w < 2 ^ 16" "1 \<le> w"
  shows "bar_cells n most w \<le> bar_cells n' most w"
proof -
  have "nat \<lfloor>bar_scale n most w + 1 / 2\<rfloor> \<le> nat \<lfloor>bar_scale n' most w + 1 / 2\<rfloor>"
    using bar_scale_mono [OF assms(1,2,4), of w] by (intro nat_mono floor_mono) simp
  moreover have "bar_cells n most w = clamp (nat \<lfloor>bar_scale n most w + 1 / 2\<rfloor>) (if 0 < n then 1 else 0) w"
    "bar_cells n' most w = clamp (nat \<lfloor>bar_scale n' most w + 1 / 2\<rfloor>) (if 0 < n' then 1 else 0) w"
    by (rule bar_cells_scale; use assms in simp)+
  ultimately show ?thesis using assms(1,2,7) by (simp only:) (intro clamp_mono; simp)
qed

lemma largest_count_bound: "r \<in> set v \<Longrightarrow> da_failure_count r \<le> largest_count v"
  by (auto simp: largest_count_def intro!: le_max_iff_disj [THEN iffD2] disjI1)

lemma rows_descending: "sorted_wrt (\<ge>) (map da_failure_count (sort_key (\<lambda>r. - da_failure_count r) v))"
proof -
  have "sorted (map (\<lambda>r. - da_failure_count r) (sort_key (\<lambda>r. - da_failure_count r) v))" by simp
  then show ?thesis by (simp add: sorted_wrt_map)
qed

lemma first_row_largest:
  assumes "v \<noteq> []" "0 < da_failure_count (sort_key (\<lambda>r. - da_failure_count r) v ! 0)"
  shows "da_failure_count (sort_key (\<lambda>r. - da_failure_count r) v ! 0) = largest_count v"
proof -
  define rows where "rows = sort_key (\<lambda>r. - da_failure_count r) v"
  have set: "set rows = set v" and len: "length rows = length v" by (simp_all add: rows_def)
  have "Max (set (map da_failure_count v)) \<in> da_failure_count ` set rows" using assms(1) Max_in [of "set (map da_failure_count v)"] by (simp add: set)
  then obtain m where m: "m \<in> set rows" "da_failure_count m = Max (set (map da_failure_count v))" by (metis imageE)
  have "da_failure_count m \<le> da_failure_count (rows ! 0)"
    using rows_descending [of v, folded rows_def] m(1) by (cases rows) auto
  moreover have "rows ! 0 \<in> set v" using assms(1) len set by (metis length_greater_0_conv nth_mem)
  moreover have "largest_count v = max (Max (set (map da_failure_count v))) 1" using assms(1) by (simp only: largest_count_def if_False)
  ultimately show ?thesis using m(2) largest_count_bound [of "rows ! 0" v] assms(2) unfolding rows_def by linarith
qed

text \<open>C28: the distribution on the overview.  Every category has one line, the most frequent first; the bars are
  at least as long as the ones below them, a bar is missing exactly for a category without failures, no bar
  is wider than the space between label and statistics, and the bar of the most frequent category fills it, all this
  although lengths are computed and rounded with floating point numbers.\<close>

theorem distribution_bars:
  fixes E :: screen_env
  assumes "v \<noteq> []" "\<forall>r \<in> set v. 0 \<le> da_failure_count r \<and> da_failure_count r < 2 ^ 53" "width < 2 ^ 16"
  defines "ls \<equiv> distribution_lines E v width"
  shows "\<exists>rows bars. mset rows = mset v \<and> sorted_wrt (\<ge>) (map da_failure_count rows) \<and> sorted_wrt (\<ge>) bars
     \<and> length bars = length v \<and> length ls = length v
     \<and> (\<forall>i < length v. ls ! i ! 1 =
            Span (fg (Rgb (error_category_color (normalize_category (da_error_category (rows ! i))))))
              (concat (replicate (bars ! i) (uchar 0x2588)))
          \<and> bars ! i \<le> max (width - 66) 1 \<and> (bars ! i = 0 \<longleftrightarrow> da_failure_count (rows ! i) = 0))
     \<and> (0 < da_failure_count (rows ! 0) \<longrightarrow> bars ! 0 = max (width - 66) 1)"
proof -
  define rows where "rows = sort_key (\<lambda>r. - da_failure_count r) v"
  define most where "most = largest_count v"
  define bars where "bars = map (\<lambda>r. bar_cells (da_failure_count r) most (bar_width width)) rows"
  have w: "bar_width width = max (width - 66) 1" "bar_width width < 2 ^ 16" "1 \<le> bar_width width"
    using assms(3) by (simp_all add: bar_width_def LABEL_W_def STATS_W_def)
  have set: "set rows = set v" and len: "length rows = length v" by (simp_all add: rows_def)
  have le: "da_failure_count r \<le> most" if "r \<in> set v" for r using that unfolding most_def by (rule largest_count_bound)
  have most: "1 \<le> most" "most < 2 ^ 53" using assms(1,2) by (auto simp: most_def largest_count_def)
  note desc = rows_descending [of v, folded rows_def] and r0 = first_row_largest [OF assms(1), folded rows_def most_def]
  have b: "bar_cells (da_failure_count r) most (bar_width width) \<le> bar_width width"
      "bar_cells (da_failure_count r) most (bar_width width) = 0 \<longleftrightarrow> da_failure_count r = 0"
      "da_failure_count r = most \<Longrightarrow> bar_cells (da_failure_count r) most (bar_width width) = bar_width width"
    if "r \<in> set v" for r
    using that assms(2) le most w by (intro bar_cells_bounds; simp)+
  have "sorted_wrt (\<ge>) bars"
    unfolding bars_def sorted_wrt_map
    by (rule sorted_wrt_mono_rel [OF _ desc [unfolded sorted_wrt_map]]) (use assms(2) le most w set in \<open>auto intro!: bar_cells_mono\<close>)
  moreover have "ls ! i ! 1 = Span (fg (Rgb (error_category_color (normalize_category (da_error_category (rows ! i))))))
              (concat (replicate (bars ! i) (uchar 0x2588)))" if "i < length v" for i
    using that len by (simp add: ls_def distribution_lines_def rows_def [symmetric] most_def [symmetric] distribution_line_def bars_def Let_def)
  moreover have in_v: "rows ! i \<in> set v" if "i < length v" for i using that len set by (metis nth_mem)
  have "bars ! i = bar_cells (da_failure_count (rows ! i)) most (bar_width width)" if "i < length v" for i
    using that len by (simp add: bars_def)
  note bars_i = this
  have "\<forall>i < length v. bars ! i \<le> bar_width width \<and> (bars ! i = 0 \<longleftrightarrow> da_failure_count (rows ! i) = 0)"
    using b(1,2) in_v bars_i by metis
  moreover have "0 < da_failure_count (rows ! 0) \<longrightarrow> bars ! 0 = bar_width width"
    using b(3) in_v [of 0] bars_i [of 0] r0 assms(1) by auto
  moreover have "mset rows = mset v" "length bars = length v" "length ls = length v"
    by (simp_all add: rows_def bars_def ls_def distribution_lines_def)
  ultimately show ?thesis using desc unfolding w(1) by blast
qed

definition sample_analysis :: "dto_failed_tx_analysis list" where
  "sample_analysis = map (\<lambda>(c, n). \<lparr>da_error_category = c, da_failure_count = n, da_avg_gas_wasted = ''21000'', da_pct_of_total = ''1.00'',
     da_most_recent_failure = []\<rparr>) [(''Unknown'', 2), (''Unauthorized'', 5)]"

theorem distribution_bars_witness:
  "\<exists>c. length (distribution_lines plain_env sample_analysis 100) = 2
     \<and> distribution_lines plain_env sample_analysis 100 ! 0 ! 1 = Span c (concat (replicate 34 (uchar 0x2588)))"
proof -
  have v: "sample_analysis \<noteq> []" "\<forall>r \<in> set sample_analysis. 0 \<le> da_failure_count r \<and> da_failure_count r < 2 ^ 53" "100 < (2 ^ 16 :: nat)"
    and pos: "\<forall>r \<in> set sample_analysis. 0 < da_failure_count r" and len: "length sample_analysis = 2"
    by (simp_all add: sample_analysis_def)
  from distribution_bars [OF v, where E = plain_env] obtain rows bars
    where r: "mset rows = mset sample_analysis" "length (distribution_lines plain_env sample_analysis 100) = length sample_analysis"
      and lines: "\<forall>i < length sample_analysis. distribution_lines plain_env sample_analysis 100 ! i ! 1 =
         Span (fg (Rgb (error_category_color (normalize_category (da_error_category (rows ! i)))))) (concat (replicate (bars ! i) (uchar 0x2588)))"
      and full: "0 < da_failure_count (rows ! 0) \<longrightarrow> bars ! 0 = max (100 - 66) 1" by metis
  have "length rows = 2" "set rows = set sample_analysis" using mset_eq_length [OF r(1)] mset_eq_setD [OF r(1)] len by simp_all
  then have "rows ! 0 \<in> set sample_analysis" using nth_mem [of 0 rows] by simp
  then have "bars ! 0 = 34" using pos full by simp
  then show ?thesis using r(2) lines len by simp
qed

section \<open>The call tree\<close>

text \<open>The detail shows every frame of the call tree once, in order, and in red exactly the ones with the identity of
  the root cause.\<close>

lemma frame_line_style:
  "frame_line r f = Return l \<Longrightarrow> \<exists>s. l = [Span (if Some (dg_trace_id f) = r then bold (fg Red) else plain) s]"
  by (auto simp: frame_line_def)

lemma detail_shows_call_tree:
  assumes "detail_lines E d = Return ls"
  shows "\<exists>pre frames post. ls = pre @ frames @ post \<and> length frames = length (dd_call_tree d)
     \<and> (\<forall>i < length (dd_call_tree d). \<exists>s. frames ! i =
          [Span (if map_option dg_trace_id (dd_root_cause d) = Some (dg_trace_id (dd_call_tree d ! i)) then bold (fg Red) else plain) s])"
proof -
  let ?root = "map_option dg_trace_id (dd_root_cause d)"
  obtain pre frames post where fr: "each_rust (frame_line ?root) (dd_call_tree d) = Return frames" and ls: "ls = pre @ frames @ post"
    using assms unfolding detail_lines_def Let_def then_rust_Return by (metis append_assoc rust.inject)
  have a: "list_all2 (\<lambda>f l. frame_line ?root f = Return l) (dd_call_tree d) frames" using fr by (simp add: each_rust_Return)
  then have "length frames = length (dd_call_tree d)" by (simp add: list_all2_lengthD)
  moreover have "\<exists>s. frames ! i = [Span (if ?root = Some (dg_trace_id (dd_call_tree d ! i)) then bold (fg Red) else plain) s]"
    if "i < length (dd_call_tree d)" for i
    using frame_line_style [OF list_all2_nthD [OF a that]] by (simp add: eq_commute)
  ultimately show ?thesis using ls by blast
qed

end
