(* ===== verification/TuiClient.thy ===== *)
theory TuiClient
  imports TuiApi
begin

text \<open>
  The HTTP client of the terminal client (\<^verbatim>\<open>crates/tui/src/client.rs\<close>, \<^verbatim>\<open>error.rs\<close>) and what its configuration shows
  of itself (\<^verbatim>\<open>config.rs\<close>).  Sending a request and decoding JSON are parameters; modelled are the requests, the
  classification of the answers and the messages they become.
\<close>

section \<open>Errors\<close>

datatype tui_error = Http string | Decode string | ApiError nat string | Io string

fun tui_error_text :: "tui_error \<Rightarrow> string" where
  "tui_error_text (Http e) = ''http request failed: '' @ e"
| "tui_error_text (Decode e) = ''failed to decode response: '' @ e"
| "tui_error_text (ApiError status message) = ''api error ('' @ show_nat status @ ''): '' @ message"
| "tui_error_text (Io e) = ''io error: '' @ e"

section \<open>Requests\<close>

record api_client =
  cl_base_url :: string
  cl_admin_api_key :: "string option"
  cl_timeout_secs :: u64

definition api_client_new :: "tui_config \<Rightarrow> api_client" where
  "api_client_new cfg = \<lparr>cl_base_url = trim_end_slashes (tc_api_url cfg), cl_admin_api_key = tc_admin_api_key cfg,
     cl_timeout_secs = tc_request_timeout_secs cfg\<rparr>"

record http_get =
  hg_url :: string
  hg_query :: "(string \<times> string) list"
  hg_bearer :: "string option"

definition get_request :: "api_client \<Rightarrow> string \<Rightarrow> (string \<times> string) list \<Rightarrow> http_get" where
  "get_request c path query = \<lparr>hg_url = cl_base_url c @ path, hg_query = query, hg_bearer = cl_admin_api_key c\<rparr>"

fun fetch_request :: "api_client \<Rightarrow> fetch \<Rightarrow> http_get" where
  "fetch_request c FetchLatestBlock = get_request c ''/v1/blocks/latest'' []"
| "fetch_request c FetchAnalysis = get_request c ''/v1/analytics/failed-tx'' []"
| "fetch_request c (FetchFailedList query) = get_request c ''/v1/failed-tx'' query"
| "fetch_request c (FetchDetail tx_hash) = get_request c (''/v1/failed-tx/'' @ tx_hash) []"
| "fetch_request c FetchClusters = get_request c ''/v1/analytics/failed-tx/unknown-clusters'' []"

section \<open>Answers\<close>

text \<open>What sending a request gave: an error, or a status and the body, which may be unreadable.\<close>

type_synonym http_answer = "string + (nat \<times> (string + string))"

definition get_json :: "(string \<Rightarrow> string option) \<Rightarrow> (string \<Rightarrow> string + 'a) \<Rightarrow> http_answer \<Rightarrow> tui_error + 'a" where
  "get_json error_body decode resp =
     (case resp of
        Inl e \<Rightarrow> Inl (Http e)
      | Inr (status, text) \<Rightarrow>
          if \<not> (200 \<le> status \<and> status < 300) then
            (let body = (case text of Inl _ \<Rightarrow> [] | Inr b \<Rightarrow> b) in
             Inl (ApiError status (unwrap_or (error_body body) body)))
          else (case bind_result text decode of Inl e \<Rightarrow> Inl (Decode e) | Inr v \<Rightarrow> Inr v))"

record decoders =
  de_error_body :: "string \<Rightarrow> string option"
  de_latest_block :: "string \<Rightarrow> string + i64 option"
  de_analysis :: "string \<Rightarrow> string + dto_failed_tx_analysis list"
  de_failed_page :: "string \<Rightarrow> string + dto_failed_page"
  de_detail :: "string \<Rightarrow> string + dto_failed_tx_detail"
  de_clusters :: "string \<Rightarrow> string + dto_unknown_revert_cluster list"

definition shown :: "tui_error + 'a \<Rightarrow> string + 'a" where
  "shown r = map_sum tui_error_text id r"

text \<open>The message a fetch sends to the application.\<close>

fun fetch_message :: "decoders \<Rightarrow> fetch \<Rightarrow> http_answer \<Rightarrow> data_msg" where
  "fetch_message D FetchLatestBlock resp = LatestBlockMsg (shown (get_json (de_error_body D) (de_latest_block D) resp))"
| "fetch_message D FetchAnalysis resp = AnalysisMsg (shown (get_json (de_error_body D) (de_analysis D) resp))"
| "fetch_message D (FetchFailedList q) resp = FailedListMsg (shown (get_json (de_error_body D) (de_failed_page D) resp))"
| "fetch_message D (FetchDetail h) resp = DetailMsg (shown (get_json (de_error_body D) (de_detail D) resp))"
| "fetch_message D FetchClusters resp = ClustersMsg (shown (get_json (de_error_body D) (de_clusters D) resp))"

section \<open>The configuration shows no key\<close>

definition tui_debug_fields :: "tui_config \<Rightarrow> (string \<times> string) list" where
  "tui_debug_fields c =
     [(''api_url'', tc_api_url c),
      (''admin_api_key'', case tc_admin_api_key c of None \<Rightarrow> ''None'' | Some _ \<Rightarrow> ''Some(***)''),
      (''refresh_interval_secs'', show_nat (tc_refresh_interval_secs c)),
      (''request_timeout_secs'', show_nat (tc_request_timeout_secs c)),
      (''log_dir'', tc_log_dir c), (''log_filter'', tc_log_filter c)]"

lemma tui_debug_hides_key: "tui_debug_fields (c\<lparr>tc_admin_api_key := Some k\<rparr>) = tui_debug_fields (c\<lparr>tc_admin_api_key := Some k'\<rparr>)"
  by (simp add: tui_debug_fields_def)

section \<open>Fetches and the API\<close>

text \<open>Every fetch sends exactly the message that the application accepts as its answer.\<close>

lemma fetch_message_answers: "answers f (fetch_message D f resp)"
  by (cases f) simp_all

lemma trim_end_slashes_idem [simp]: "trim_end_slashes (trim_end_slashes s) = trim_end_slashes s"
proof -
  have "dropWhile P (dropWhile P xs) = dropWhile P xs" for P and xs :: string by (induction xs) auto
  then show ?thesis by (simp add: trim_end_slashes_def)
qed

text \<open>An error of the API is shown with its status and its message, whatever was fetched.\<close>

lemma api_error_shown:
  assumes "into_response e = (status, j)" "\<And>msg. de_error_body D (render (JObject [(''error'', JString msg)])) = Some msg"
  shows "\<exists>msg. j = JObject [(''error'', JString msg)] \<and> 400 \<le> status \<and>
     shown (get_json (de_error_body D) decode (Inr (status, Inr (render j)))) =
       Inl (''api error ('' @ show_nat status @ ''): '' @ msg)"
  using assms(1) by (cases e) (auto simp: get_json_def shown_def assms(2))

text \<open>So the detail of an unknown transaction settles as a failure that names it.\<close>

lemma unknown_detail_settles:
  assumes "\<And>msg. de_error_body D (render (JObject [(''error'', JString msg)])) = Some msg"
    and "into_response (ApiNotFound msg) = (status, j)"
  shows "ap_detail (ingest now (fetch_message D (FetchDetail h) (Inr (status, Inr (render j)))) a)
       = LoadFailed (''api error (404): '' @ msg)"
proof -
  have "show_nat 404 = ''404''" by code_simp
  with assms(2) api_error_shown [of "ApiNotFound msg" status j D render "de_detail D"] assms(1) show ?thesis
    by (auto simp: ingest_def Let_def)
qed

end
