(* ===== verification/TuiMain.thy ===== *)
theory TuiMain
  imports TuiScreens TuiClient
begin

text \<open>
  The process of the terminal client: the loop that draws and waits (\<^verbatim>\<open>run\<close> in \<^verbatim>\<open>crates/tui/src/app.rs\<close>), taking and
  giving back the terminal (\<^verbatim>\<open>terminal.rs\<close>) and \<^verbatim>\<open>main.rs\<close>.  Which operations on the terminal succeed is part of
  its world; an operation that fails changes nothing.
\<close>

section \<open>The loop\<close>

datatype run_end = Run_ok | Run_failed | Run_panics | Run_goes_on

text \<open>One turn: the surroundings of the frame, whether it could be written, and the event that ends the wait.\<close>

record ui_turn =
  ut_env :: screen_env
  ut_area :: rect
  ut_written :: bool
  ut_now :: instant
  ut_event :: ui_event

fun app_loop :: "(instant \<Rightarrow> string) \<Rightarrow> tui_config \<Rightarrow> ui_turn list \<Rightarrow> app \<Rightarrow> run_end" where
  "app_loop fmt cfg [] a = Run_goes_on"
| "app_loop fmt cfg (t # ts) a =
     (case draw (ut_env t) cfg (ut_area t) a of
        Panic \<Rightarrow> Run_panics
      | Return _ \<Rightarrow>
          if \<not> ut_written t then Run_failed
          else if ap_should_quit a then Run_ok
          else app_loop fmt cfg ts (run_turn fmt (ut_now t) (ut_event t) a))"

definition app_run :: "(instant \<Rightarrow> string) \<Rightarrow> tui_config \<Rightarrow> bool \<Rightarrow> instant \<Rightarrow> ui_turn list \<Rightarrow> run_end" where
  "app_run fmt cfg client_built start ts =
     (if \<not> client_built then Run_failed else app_loop fmt cfg ts (spawn_fetch_active fmt start app_new))"

section \<open>The terminal\<close>

record tty =
  tty_raw :: bool
  tty_alt :: bool

record tty_faults =
  tf_raw_on :: bool
  tf_alt_on :: bool
  tf_terminal :: bool
  tf_raw_off :: bool
  tf_alt_off :: bool
  tf_cursor :: bool
  tf_hook_raw_off :: bool
  tf_hook_alt_off :: bool

text \<open>A field of the faults is true when the operation succeeds.\<close>

definition tty_setup :: "tty_faults \<Rightarrow> tty \<Rightarrow> (tui_error + unit) \<times> tty" where
  "tty_setup f t =
     (if \<not> tf_raw_on f then (Inl (Io ''raw mode''), t)
      else let t1 = t\<lparr>tty_raw := True\<rparr> in
      if \<not> tf_alt_on f then (Inl (Io ''alternate screen''), t1)
      else let t2 = t1\<lparr>tty_alt := True\<rparr> in
      if \<not> tf_terminal f then (Inl (Io ''terminal''), t2)
      else (Inr (), t2))"

definition tty_restore :: "tty_faults \<Rightarrow> tty \<Rightarrow> (tui_error + unit) \<times> tty" where
  "tty_restore f t =
     (if \<not> tf_raw_off f then (Inl (Io ''raw mode''), t)
      else let t1 = t\<lparr>tty_raw := False\<rparr> in
      if \<not> tf_alt_off f then (Inl (Io ''alternate screen''), t1)
      else let t2 = t1\<lparr>tty_alt := False\<rparr> in
      if \<not> tf_cursor f then (Inl (Io ''cursor''), t2)
      else (Inr (), t2))"

text \<open>The hook ignores failures.\<close>

definition panic_hook :: "tty_faults \<Rightarrow> tty \<Rightarrow> tty" where
  "panic_hook f t =
     (let t1 = (if tf_hook_raw_off f then t\<lparr>tty_raw := False\<rparr> else t) in
      if tf_hook_alt_off f then t1\<lparr>tty_alt := False\<rparr> else t1)"

section \<open>The process\<close>

datatype tui_exit = Tui_ok | Tui_err | Tui_panic | Tui_runs

record tui_world =
  tw_get :: "string \<Rightarrow> string option"
  tw_log_opens :: bool
  tw_faults :: tty_faults
  tw_fmt :: "instant \<Rightarrow> string"
  tw_client_built :: bool
  tw_start :: instant
  tw_turns :: "ui_turn list"

text \<open>The library that opens the log file panics when it cannot; the hook is installed after that.\<close>

definition tui_main :: "tui_world \<Rightarrow> tty \<Rightarrow> tui_exit \<times> tty" where
  "tui_main w t =
     (let config = tui_from_env_with (tw_get w); f = tw_faults w in
      if \<not> tw_log_opens w then (Tui_panic, t)
      else case tty_setup f t of
        (Inl _, t1) \<Rightarrow> (Tui_err, t1)
      | (Inr _, t1) \<Rightarrow>
          (case app_run (tw_fmt w) config (tw_client_built w) (tw_start w) (tw_turns w) of
             Run_panics \<Rightarrow> (Tui_panic, panic_hook f t1)
           | Run_goes_on \<Rightarrow> (Tui_runs, t1)
           | Run_ok \<Rightarrow> (Tui_ok, snd (tty_restore f t1))
           | Run_failed \<Rightarrow> (Tui_err, snd (tty_restore f t1))))"

section \<open>The terminal comes back\<close>

definition cooked :: tty where
  "cooked = \<lparr>tty_raw = False, tty_alt = False\<rparr>"

text \<open>The states the loop draws.\<close>

fun drawn_states :: "(instant \<Rightarrow> string) \<Rightarrow> ui_turn list \<Rightarrow> app \<Rightarrow> app list" where
  "drawn_states fmt [] a = []"
| "drawn_states fmt (t # ts) a = a # drawn_states fmt ts (run_turn fmt (ut_now t) (ut_event t) a)"

definition shows_unsliceable :: "app \<Rightarrow> bool" where
  "shows_unsliceable a \<longleftrightarrow>
     (ap_screen a = FailedTx \<and> (\<exists>p t. ap_failed a = Loaded p \<and> t \<in> set (tp_data p) \<and> \<not> sliceable (dx_tx_hash t)))
     \<or> (ap_screen a = Detail \<and> (\<exists>d f. ap_detail a = Loaded d \<and> f \<in> set (dd_call_tree d)
          \<and> \<not> (sliceable (dg_from_addr f) \<and> (\<forall>to. dg_to_addr f = Some to \<longrightarrow> sliceable to))))"

lemma app_loop_panics:
  assumes "\<forall>t \<in> set ts. layout_ok (ut_env t)" "app_loop fmt cfg ts a = Run_panics"
  shows "\<exists>b \<in> set (drawn_states fmt ts a). shows_unsliceable b"
  using assms
proof (induction ts arbitrary: a)
  case (Cons t ts)
  then have l: "layout_ok (ut_env t)" by simp
  show ?case
  proof (cases "draw (ut_env t) cfg (ut_area t) a")
    case Panic
    then have "shows_unsliceable a" unfolding shows_unsliceable_def draw_Panic [OF l] .
    then show ?thesis by simp
  next
    case (Return x)
    with Cons show ?thesis by (auto split: if_splits)
  qed
qed simp

lemma app_run_panics:
  assumes "\<forall>t \<in> set ts. layout_ok (ut_env t)" "app_run fmt cfg c start ts = Run_panics"
  shows "\<exists>b \<in> set (drawn_states fmt ts (spawn_fetch_active fmt start app_new)). shows_unsliceable b"
  using assms app_loop_panics by (auto simp: app_run_def split: if_splits)

lemma tty_setup_effect:
  "tty_setup f cooked = (r, t) \<Longrightarrow>
     t = \<lparr>tty_raw = tf_raw_on f, tty_alt = tf_raw_on f \<and> tf_alt_on f\<rparr>
     \<and> (r = Inr () \<longleftrightarrow> tf_raw_on f \<and> tf_alt_on f \<and> tf_terminal f)"
  by (auto simp: tty_setup_def cooked_def Let_def split: if_splits)

text \<open>C25: what the client does to the terminal.  Started in a cooked terminal, when it has ended, however it ended: raw mode and the
  alternate screen are off whenever the operations that switch them off succeed and taking the terminal
  had succeeded or not begun.  In particular a panic while drawing, which needs an unsliceable string on the
  screen, gives the terminal back.  But when taking the terminal fails after raw mode was switched on, nothing switches it
  off again: the user's shell is left in raw mode, and on the alternate screen if that was entered.\<close>

theorem terminal_given_back:
  assumes run: "tui_main w cooked = (x, t)" and ended: "x \<noteq> Tui_runs" and layout: "\<forall>u \<in> set (tw_turns w). layout_ok (ut_env u)"
  defines "f \<equiv> tw_faults w"
  defines "taken \<equiv> tf_raw_on f \<and> tf_alt_on f \<and> tf_terminal f"
  shows "((taken \<or> \<not> tf_raw_on f \<or> \<not> tw_log_opens w) \<and> tf_raw_off f \<and> tf_alt_off f \<and> tf_hook_raw_off f \<and> tf_hook_alt_off f
          \<longrightarrow> t = cooked)
     \<and> (tw_log_opens w \<and> tf_raw_on f \<and> \<not> taken \<longrightarrow> x = Tui_err \<and> tty_raw t \<and> (tty_alt t \<longleftrightarrow> tf_alt_on f))
     \<and> (tw_log_opens w \<and> x = Tui_panic \<longrightarrow>
          (\<exists>b \<in> set (drawn_states (tw_fmt w) (tw_turns w) (spawn_fetch_active (tw_fmt w) (tw_start w) app_new)). shows_unsliceable b))"
proof (cases "tw_log_opens w")
  case True
  obtain r t1 where s: "tty_setup f cooked = (r, t1)" by fastforce
  note e = tty_setup_effect [OF s]
  show ?thesis
  proof (cases r)
    case (Inl err)
    with run True s have "x = Tui_err" "t = t1" by (simp_all add: tui_main_def Let_def f_def)
    with e Inl True show ?thesis by (auto simp: taken_def cooked_def)
  next
    case (Inr u)
    have tk: taken "t1 = \<lparr>tty_raw = True, tty_alt = True\<rparr>" using e Inr by (simp_all add: taken_def)
    let ?run = "app_run (tw_fmt w) (tui_from_env_with (tw_get w)) (tw_client_built w) (tw_start w) (tw_turns w)"
    have "tui_main w cooked =
       (case ?run of
          Run_panics \<Rightarrow> (Tui_panic, panic_hook f t1)
        | Run_goes_on \<Rightarrow> (Tui_runs, t1)
        | Run_ok \<Rightarrow> (Tui_ok, snd (tty_restore f t1))
        | Run_failed \<Rightarrow> (Tui_err, snd (tty_restore f t1)))"
      using True s Inr by (simp add: tui_main_def Let_def f_def [symmetric])
    note t = this [unfolded run]
    have "x = Tui_panic \<Longrightarrow>
        \<exists>b \<in> set (drawn_states (tw_fmt w) (tw_turns w) (spawn_fetch_active (tw_fmt w) (tw_start w) app_new)). shows_unsliceable b"
      using t by (intro app_run_panics [OF layout]) (auto split: run_end.splits)
    then show ?thesis
      using t tk ended by (cases ?run) (auto simp: cooked_def tty_restore_def panic_hook_def Let_def)
  qed
next
  case False
  with run show ?thesis by (simp add: tui_main_def Let_def)
qed

definition half_taken :: tui_world where
  "half_taken = \<lparr>tw_get = (\<lambda>_. None), tw_log_opens = True,
     tw_faults = \<lparr>tf_raw_on = True, tf_alt_on = False, tf_terminal = True, tf_raw_off = True, tf_alt_off = True, tf_cursor = True,
       tf_hook_raw_off = True, tf_hook_alt_off = True\<rparr>,
     tw_fmt = (\<lambda>_. ''t''), tw_client_built = True, tw_start = 0, tw_turns = []\<rparr>"

theorem terminal_given_back_witness:
  "\<exists>x t. tui_main half_taken cooked = (x, t) \<and> x = Tui_err \<and> tty_raw t \<and> \<not> tty_alt t"
proof -
  obtain x t where r: "tui_main half_taken cooked = (x, t)" by fastforce
  then have "x = Tui_err" by (auto simp: tui_main_def half_taken_def tty_setup_def)
  with terminal_given_back [OF r] r show ?thesis by (auto simp: half_taken_def)
qed

end
