(* ===== verification/Triggers.thy ===== *)
theory Triggers
  imports Worker
begin

text \<open>
  The writes of a block in a seeded database.  \<^verbatim>\<open>scripts/seed.sh\<close> installs the views the API reads together with
  the triggers of \<^verbatim>\<open>sql/triggers/001_triggers.sql\<close>, so a deployment that has the one has the other.  Modelled
  are the triggers that reject a row or write a table the indexer or the API uses: the check of block times,
  the stub of a failed transaction and the activity of traders.  The notification of price snapshots and the
  audit log have no reader.
\<close>

section \<open>Triggers\<close>

definition fn_trg_block_timestamp_validate :: "instant \<Rightarrow> block_row \<Rightarrow> bool" where
  "fn_trg_block_timestamp_validate now b \<longleftrightarrow> b_timestamp b \<le> now + 15000000"

definition stub_row :: "transaction_row \<Rightarrow> block_row \<Rightarrow> failed_transaction" where
  "stub_row t b = \<lparr>f_tx_hash = t_tx_hash t, f_error_category = Unknown, f_revert_reason = None, f_failing_function = None,
     f_gas_used = t_gas_used t, f_timestamp = b_timestamp b\<rparr>"

definition fn_trg_transaction_check_failed :: "transaction_row \<Rightarrow> db \<Rightarrow> db" where
  "fn_trg_transaction_check_failed t d =
     (if t_status t = 0 then
        d\<lparr>failed_transactions := insert_new f_tx_hash (failed_transactions d)
            (map (stub_row t) (filter (\<lambda>b. b_block_number b = t_block_number t) (blocks d)))\<rparr>
      else d)"

fun touch_profile :: "string \<Rightarrow> instant \<Rightarrow> i32 \<Rightarrow> user_profile list \<Rightarrow> user_profile list" where
  "touch_profile a t k [] = [\<lparr>up_user_address = a, up_label = None, up_first_seen = t, up_last_seen = t, up_total_swaps = k,
     up_total_volume_usd = 0\<rparr>]"
| "touch_profile a t k (u # us) =
     (if up_user_address u = a
      then u\<lparr>up_last_seen := max (up_last_seen u) t, up_total_swaps := up_total_swaps u + k\<rparr> # us
      else u # touch_profile a t k us)"

definition fn_trg_swap_update_user_profile :: "swap_event \<Rightarrow> db \<Rightarrow> db" where
  "fn_trg_swap_update_user_profile s d =
     (let us = touch_profile (s_sender s) (s_timestamp s) 1 (user_profiles d) in
      d\<lparr>user_profiles := if s_recipient s \<noteq> s_sender s then touch_profile (s_recipient s) (s_timestamp s) 0 us else us\<rparr>)"

section \<open>Writes with triggers\<close>

text \<open>A row trigger runs before a proposed row, also before one that a conflict skips, or after an inserted row.\<close>

fun run_write_seeded :: "instant \<Rightarrow> db_write \<Rightarrow> nat stmt" where
  "run_write_seeded now (W_blocks rs) d =
     (if list_all (fn_trg_block_timestamp_validate now) rs then insert_blocks rs d
      else Inl (Sqlx ''Block timestamp is in the future''))"
| "run_write_seeded now (W_transactions rs) d =
     (case insert_transactions rs d of
        Inl e \<Rightarrow> Inl e
      | Inr (n, d') \<Rightarrow> Inr (n, fold fn_trg_transaction_check_failed (drop (length (transactions d)) (transactions d')) d'))"
| "run_write_seeded now (W_swaps rs) d =
     (case insert_swap_events rs d of
        Inl e \<Rightarrow> Inl e
      | Inr (n, d') \<Rightarrow>
          let d'' = fold fn_trg_swap_update_user_profile (drop (length (swap_events d)) (swap_events d')) d' in
          if list_all (\<lambda>u. int4_ok (up_total_swaps u)) (user_profiles d'') then Inr (n, d'')
          else Inl (Sqlx ''integer out of range''))"
| "run_write_seeded now w d = run_write w d"

fun run_steps_seeded :: "instant \<Rightarrow> task_step list \<Rightarrow> db \<Rightarrow> bool \<times> db" where
  "run_steps_seeded now [] d = (True, d)"
| "run_steps_seeded now (Abort # ss) d = (False, d)"
| "run_steps_seeded now (Write w # ss) d =
     (case run_write_seeded now w d of Inl _ \<Rightarrow> (False, d) | Inr (_, d') \<Rightarrow> run_steps_seeded now ss d')"

section \<open>The stub wins\<close>

definition blank :: "failed_transaction \<Rightarrow> bool" where
  "blank f \<longleftrightarrow> f_error_category f = Unknown \<and> f_revert_reason f = None \<and> f_failing_function f = None"

text \<open>Once the transaction is stored, its failure is recorded, and without a diagnosis.\<close>

definition stubbed :: "string \<Rightarrow> db \<Rightarrow> bool" where
  "stubbed h d \<longleftrightarrow> (tx_known d h \<longrightarrow> h \<in> f_tx_hash ` set (failed_transactions d))
     \<and> (\<forall>f \<in> set (failed_transactions d). f_tx_hash f = h \<longrightarrow> blank f)"

fun fails :: "string \<Rightarrow> task_step \<Rightarrow> bool" where
  "fails h (Write (W_transactions rs)) = list_all (\<lambda>t. t_tx_hash t = h \<longrightarrow> t_status t = 0) rs"
| "fails h _ = True"

lemma trigger_frame:
  "transactions (fold fn_trg_transaction_check_failed ts d) = transactions d"
  "blocks (fold fn_trg_transaction_check_failed ts d) = blocks d"
  "f_tx_hash ` set (failed_transactions d) \<subseteq> f_tx_hash ` set (failed_transactions (fold fn_trg_transaction_check_failed ts d))"
proof (induction ts arbitrary: d)
  case (Cons t ts)
  {
    case 1 show ?case using Cons(1) by (simp add: fn_trg_transaction_check_failed_def)
  next
    case 2 show ?case using Cons(2) by (simp add: fn_trg_transaction_check_failed_def)
  next
    case 3
    have "f_tx_hash ` set (failed_transactions d) \<subseteq> f_tx_hash ` set (failed_transactions (fn_trg_transaction_check_failed t d))"
      using insert_new_mono by (fastforce simp: fn_trg_transaction_check_failed_def)
    with Cons(3) [of "fn_trg_transaction_check_failed t d"] show ?case by simp
  }
qed simp_all

lemma trigger_stubs:
  assumes "t \<in> set ts" "t_status t = 0" "block_known d (t_block_number t)"
  shows "t_tx_hash t \<in> f_tx_hash ` set (failed_transactions (fold fn_trg_transaction_check_failed ts d))"
  using assms
proof (induction ts arbitrary: d)
  case (Cons u ts)
  show ?case
  proof (cases "u = t")
    case True
    have "\<exists>b \<in> set (blocks d). b_block_number b = t_block_number t" using Cons.prems(3) by (auto simp: block_known_def)
    then have "t_tx_hash t \<in> f_tx_hash ` set (failed_transactions (fn_trg_transaction_check_failed t d))"
      using Cons.prems(2) by (auto simp: fn_trg_transaction_check_failed_def insert_new_keys stub_row_def image_image)
    with trigger_frame(3) [of "fn_trg_transaction_check_failed t d" ts] True show ?thesis by auto
  next
    case False
    with Cons show ?thesis by (auto simp: fn_trg_transaction_check_failed_def block_known_def)
  qed
qed simp

lemma trigger_blank:
  assumes "\<forall>f \<in> set (failed_transactions d). f_tx_hash f = h \<longrightarrow> blank f"
  shows "\<forall>f \<in> set (failed_transactions (fold fn_trg_transaction_check_failed ts d)). f_tx_hash f = h \<longrightarrow> blank f"
  using assms
proof (induction ts arbitrary: d)
  case (Cons t ts)
  have "\<forall>f \<in> set (failed_transactions (fn_trg_transaction_check_failed t d)). f_tx_hash f = h \<longrightarrow> blank f"
  proof -
    have "f \<in> set (failed_transactions d) \<or> (\<exists>b. f = stub_row t b)"
      if "f \<in> set (failed_transactions (fn_trg_transaction_check_failed t d))" for f
      using that set_insert_new [of f_tx_hash "failed_transactions d"
          "map (stub_row t) (filter (\<lambda>b. b_block_number b = t_block_number t) (blocks d))"]
      by (auto simp: fn_trg_transaction_check_failed_def split: if_splits)
    with Cons.prems show ?thesis by (fastforce simp: stub_row_def blank_def)
  qed
  from Cons.IH [OF this] show ?case by simp
qed simp

lemma fold_swap_frame:
  "transactions (fold fn_trg_swap_update_user_profile ss d) = transactions d"
  "failed_transactions (fold fn_trg_swap_update_user_profile ss d) = failed_transactions d"
  by (induction ss arbitrary: d) (simp_all add: fn_trg_swap_update_user_profile_def Let_def)

lemma stubbed_frame:
  "stubbed h d \<Longrightarrow> transactions d' = transactions d \<Longrightarrow> failed_transactions d' = failed_transactions d \<Longrightarrow> stubbed h d'"
  by (simp add: stubbed_def tx_known_def)

lemma stubbed_transactions:
  assumes "insert_transactions rs d = Inr (n, d1)" "stubbed h d" "list_all (\<lambda>t. t_tx_hash t = h \<longrightarrow> t_status t = 0) rs"
  shows "stubbed h (fold fn_trg_transaction_check_failed (drop (length (transactions d)) (transactions d1)) d1)" (is "stubbed h ?e")
  using assms(1) unfolding insert_transactions_def
proof (cases rule: insert_dest)
  case 1
  with assms(2) show ?thesis by simp
next
  case (2 t)
  note c = insert_rows_cases [OF 2(1)]
  obtain ys where ys: "t = transactions d @ ys" "set ys \<subseteq> set rs"
    using insert_new_append [of t_tx_hash "transactions d" rs] c(1) by auto
  have e: "failed_transactions d1 = failed_transactions d" "blocks d1 = blocks d" "transactions d1 = transactions d @ ys"
    using 2(2) ys(1) by simp_all
  have "h \<in> f_tx_hash ` set (failed_transactions ?e)" if k: "tx_known ?e h"
  proof (cases "tx_known d h")
    case True
    with assms(2) trigger_frame(3) [of d1 "drop (length (transactions d)) (transactions d1)"] e(1) show ?thesis
      by (auto simp: stubbed_def)
  next
    case False
    then obtain y where y: "y \<in> set ys" "t_tx_hash y = h" using k e(3) by (auto simp: tx_known_def trigger_frame)
    moreover have "t_status y = 0" using y ys(2) assms(3) by (auto simp: list_all_iff)
    moreover have "block_known d1 (t_block_number y)" using c(3) y(1) ys(1) e(2) by (auto simp: list_all_iff block_known_def)
    ultimately show ?thesis using trigger_stubs [of y ys d1] e(3) by auto
  qed
  moreover have "\<forall>f \<in> set (failed_transactions ?e). f_tx_hash f = h \<longrightarrow> blank f"
    using assms(2) e(1) by (intro trigger_blank) (simp add: stubbed_def)
  ultimately show ?thesis by (simp add: stubbed_def)
qed

lemma stubbed_failed:
  assumes "insert_failed_transactions rs d = Inr (n, d')" "stubbed h d"
  shows "stubbed h d'"
  using assms(1) unfolding insert_failed_transactions_def
proof (cases rule: insert_dest)
  case 1
  with assms(2) show ?thesis by simp
next
  case (2 t)
  note c = insert_rows_cases [OF 2(1)]
  have new: "f_tx_hash f \<noteq> h" if "f \<in> set (drop (length (failed_transactions d)) t)" for f
  proof
    assume "f_tx_hash f = h"
    with c(3) that have "tx_known d h" by (auto simp: list_all_iff)
    with assms(2) have "h \<in> f_tx_hash ` set (failed_transactions d)" by (simp add: stubbed_def)
    with insert_new_fresh [of f "failed_transactions d" f_tx_hash rs] that c(1) \<open>f_tx_hash f = h\<close> show False by simp
  qed
  obtain ys where t: "t = failed_transactions d @ ys"
    using insert_new_append [of f_tx_hash "failed_transactions d" rs] c(1) by auto
  from assms(2) new t 2(2) show ?thesis by (auto simp: stubbed_def)
qed

lemma stubbed_write:
  assumes "run_write_seeded now w d = Inr (n, d')" "stubbed h d" "fails h (Write w)"
  shows "stubbed h d'"
proof (cases w)
  case (W_blocks rs)
  with assms(1) have "insert_blocks rs d = Inr (n, d')" by (auto split: if_splits)
  then show ?thesis using assms(2)
    by (auto simp: insert_blocks_def split: if_splits sum.splits intro: stubbed_frame)
next
  case (W_transactions rs)
  with assms stubbed_transactions show ?thesis by (auto split: sum.splits)
next
  case (W_swaps rs)
  with assms(1) obtain d1 where i: "insert_swap_events rs d = Inr (n, d1)"
    and d': "d' = fold fn_trg_swap_update_user_profile (drop (length (swap_events d)) (swap_events d1)) d1"
    by (auto simp: Let_def split: sum.splits if_splits)
  from i have "transactions d1 = transactions d" "failed_transactions d1 = failed_transactions d"
    by (auto simp: insert_swap_events_def split: if_splits sum.splits)
  with assms(2) d' show ?thesis by (auto simp: fold_swap_frame intro: stubbed_frame)
next
  case (W_failed rs)
  with assms stubbed_failed show ?thesis by simp
qed (use assms in \<open>auto simp: insert_liquidity_events_def insert_token_transfers_def insert_trace_logs_def
    split: if_splits sum.splits intro: stubbed_frame\<close>)

lemma stubbed_steps:
  assumes "run_steps_seeded now ss d = (True, d')" "stubbed h d" "list_all (fails h) ss"
  shows "stubbed h d'"
  using assms
proof (induction now ss d rule: run_steps_seeded.induct)
  case (3 now w ss d)
  then obtain n d1 where w: "run_write_seeded now w d = Inr (n, d1)" by (auto split: sum.splits)
  with 3 have "stubbed h d1" using stubbed_write by auto
  with 3 w show ?case by auto
qed simp_all

text \<open>C21: in a seeded database the diagnosis of a failure is lost.  When a block is processed there, the failure of
  each transaction that was not stored before is recorded by the trigger as unknown, without reason and
  selector; the row with the category, the revert reason and the selector that the indexer determined
  conflicts with it and is dropped.\<close>

theorem seeded_triggers_hide_the_diagnosis:
  assumes "run_steps_seeded now (process_block E N n) d = (True, d')"
    and "\<not> tx_known d h" "h \<notin> f_tx_hash ` set (failed_transactions d)"
    and "list_all (fails h) (process_block E N n)" "tx_known d' h"
  shows "(\<exists>f \<in> set (failed_transactions d'). f_tx_hash f = h)
     \<and> (\<forall>f \<in> set (failed_transactions d'). f_tx_hash f = h \<longrightarrow>
          f_error_category f = Unknown \<and> f_revert_reason f = None \<and> f_failing_function f = None)"
proof -
  have "stubbed h d" using assms(2,3) by (auto simp: stubbed_def)
  from stubbed_steps [OF assms(1) this assms(4)] assms(5) show ?thesis by (auto simp: stubbed_def blank_def)
qed

text \<open>A failed call of a function: the indexer knows its selector, the stored row does not.\<close>

definition call_trace :: json where
  "call_trace = JObject [(''type'', JString ''CALL''), (''from'', JString ''0xAA''), (''gasUsed'', JString ''0x5208''),
     (''input'', JString ''0xa9059cbb'')]"

definition call_node :: node where
  "call_node = sample_node\<lparr>debug_trace_transaction := (\<lambda>_. Inr (CallTracer (Inr call_trace)))\<rparr>"

lemma call_flattened:
  "parse_trace h call_trace = Inr \<lparr>ft_tx_hash = h, ft_frames =
     [\<lparr>ff_depth = 0, ff_call_type = ''CALL'', ff_from = ''0xaa'', ff_to = None, ff_value = ''0'',
       ff_gas_used = 21000, ff_input = Some ''0xa9059cbb'', ff_output = None, ff_error = None\<rparr>]\<rparr>"
proof -
  have "to_lowercase ''0xAA'' = ''0xaa''" by code_simp
  moreover have "from_str_radix 64 16 (strip_0x ''0x5208'') = Some 21000"
    by (simp add: from_str_radix_def strip_0x_def strip_prefix_def digit_value_def)
  ultimately show ?thesis
    by (simp add: parse_trace_def parse_call_frame.simps flatten_call_frame.simps call_trace_def
        get_str_def get_array_def flat_of_def value_decimal_def)
qed

lemma call_plan:
  "process_block sample_ext call_node 18 =
     [Write (W_blocks [block_model sample_ext 18 sample_rpc_block]),
      Write (W_transactions [tx_model sample_ext 18 (hd (hdr_transactions sample_rpc_block)) sample_receipt]),
      Write (W_traces [\<lparr>g_tx_hash = ''0xt'', g_call_depth = 0, g_call_type = ''CALL'', g_from_addr = ''0xaa'',
         g_to_addr = None, g_value = 0, g_gas_used = 21000, g_input = Some ''0xa9059cbb'', g_output = None,
         g_error = None, g_trace_id = 0\<rparr>]),
      Write (W_failed [\<lparr>f_tx_hash = ''0xt'', f_error_category = Unknown, f_revert_reason = None,
         f_failing_function = Some ''0xa9059cbb'', f_gas_used = 21000, f_timestamp = 1700000000\<rparr>])]"
proof -
  have "big_or_zero sample_ext ''0'' = 0"
    by (simp add: big_or_zero_def sample_ext_def sample_sol_def sample_decimal_def digit_value_def)
  moreover have "strip_0x ''0xa9059cbb'' = ''a9059cbb''" by (simp add: strip_0x_def strip_prefix_def)
  ultimately show ?thesis
    by (simp add: is_char_boundary_def process_block_def call_node_def sample_node_def sample_receipt_def sample_rpc_block_def tx_models_def
        when_rows_def log_events_def call_flattened failed_tx_of_def revert_reason_of_def selector_of_def
        category_of_def to_trace_log_def sample_ext_def Let_def)
qed

theorem seeded_triggers_hide_the_diagnosis_witness:
  "\<exists>d'. run_steps_seeded 1700000000 (process_block sample_ext call_node 18) empty_db = (True, d')
     \<and> (\<exists>f \<in> set (failed_transactions d'). f_tx_hash f = ''0xt'' \<and> f_failing_function f = None)
     \<and> (\<exists>f. Write (W_failed [f]) \<in> set (process_block sample_ext call_node 18) \<and> f_tx_hash f = ''0xt'' \<and> f_failing_function f = Some ''0xa9059cbb'')"
proof -
  have e: "ext_sol sample_ext = sample_sol" by (simp add: sample_ext_def)
  have c: "block_check (block_model sample_ext 18 sample_rpc_block)"
    "transaction_check (tx_model sample_ext 18 (hd (hdr_transactions sample_rpc_block)) sample_receipt)"
    using sample_checked unfolding sample_plan by simp_all
  obtain d' where d': "run_steps_seeded 1700000000 (process_block sample_ext call_node 18) empty_db = (True, d')" "tx_known d' ''0xt''"
    unfolding call_plan using c
    by (simp add: empty_db_def stmt_defs insert_rows_def fn_trg_block_timestamp_validate_def fn_trg_transaction_check_failed_def
        block_known_def tx_known_def block_model_def tx_model_def sample_rpc_block_def sample_receipt_def sample_ext_def stub_row_def
        trace_check_def failed_check_def varchar_ok_def text_ok_def char_len_def numeric_ok_def opt_ok_def number_rows_def)
  have "list_all (fails ''0xt'') (process_block sample_ext call_node 18)"
    unfolding call_plan by (simp add: tx_model_def sample_receipt_def)
  with seeded_triggers_hide_the_diagnosis [OF d'(1), of "''0xt''"] d'(2)
  have "\<exists>f \<in> set (failed_transactions d'). f_tx_hash f = ''0xt'' \<and> f_failing_function f = None"
    by (auto simp: empty_db_def tx_known_def)
  moreover have "\<exists>f. Write (W_failed [f]) \<in> set (process_block sample_ext call_node 18) \<and> f_tx_hash f = ''0xt''
      \<and> f_failing_function f = Some ''0xa9059cbb''"
    unfolding call_plan by auto
  ultimately show ?thesis using d'(1) by blast
qed

end
