(* ===== verification/Node.thy ===== *)
theory Node
  imports Follow
begin

text \<open>
  How the indexer is driven by its node (\<^verbatim>\<open>rpc_with_retry\<close>, \<^verbatim>\<open>spawn_head_ticks\<close> and the waiting of
  \<^verbatim>\<open>WorkerPool::follow\<close> in \<^verbatim>\<open>crates/indexer/src/worker.rs\<close>).  The back-off library is a parameter.  The task that
  listens for new heads and the follow loop share a channel of capacity one; every interleaving of the two, of
  the subscription and of the signal is a sequence of events.
\<close>

section \<open>Retrying a call\<close>

record backoff_policy =
  bp_initial_ms :: nat
  bp_max_interval_ms :: nat
  bp_max_elapsed_ms :: "nat option"

datatype 'e retry_error = Transient 'e | Permanent 'e

text \<open>The answers of the node to the successive attempts of one call.\<close>

type_synonym 'a attempts = "nat \<Rightarrow> string + 'a"

type_synonym 'a retrier = "backoff_policy \<Rightarrow> (nat \<Rightarrow> string retry_error + 'a) \<Rightarrow> string + 'a"

definition rpc_with_retry :: "'a retrier \<Rightarrow> 'a attempts \<Rightarrow> string + 'a" where
  "rpc_with_retry retry f =
     retry \<lparr>bp_initial_ms = 500, bp_max_interval_ms = 10000, bp_max_elapsed_ms = Some 60000\<rparr>
       (\<lambda>n. case f n of Inl e \<Rightarrow> Inl (Transient e) | Inr v \<Rightarrow> Inr v)"

text \<open>The library repeats transient errors for some time and stops at a permanent error or a result.\<close>

definition stops_at :: "(nat \<Rightarrow> string retry_error + 'a) \<Rightarrow> nat \<Rightarrow> string + 'a \<Rightarrow> bool" where
  "stops_at f n r \<longleftrightarrow> (\<forall>m < n. \<exists>e. f m = Inl (Transient e))
     \<and> r = (case f n of Inr v \<Rightarrow> Inr v | Inl (Transient e) \<Rightarrow> Inl e | Inl (Permanent e) \<Rightarrow> Inl e)"

definition retries :: "'a retrier \<Rightarrow> bool" where
  "retries retry \<longleftrightarrow> (\<forall>p f. \<exists>n. stops_at f n (retry p f))"

text \<open>So the indexer goes on with the answer to one of the attempts, all earlier ones having failed; in particular it
  gives up only on an error of the node.\<close>

lemma rpc_with_retry_answer:
  assumes "retries retry"
  shows "\<exists>n. rpc_with_retry retry f = f n \<and> (\<forall>m < n. \<exists>e. f m = Inl e)"
proof -
  let ?g = "\<lambda>n. case f n of Inl e \<Rightarrow> Inl (Transient e) | Inr v \<Rightarrow> Inr v"
  obtain n where n: "stops_at ?g n (rpc_with_retry retry f)"
    using assms unfolding retries_def rpc_with_retry_def by blast
  then have "rpc_with_retry retry f = f n" by (auto simp: stops_at_def split: sum.splits)
  moreover have "\<exists>e. f m = Inl e" if "m < n" for m
    using n that by (cases "f m") (force simp: stops_at_def)+
  ultimately show ?thesis by blast
qed

text \<open>The policy bounds the time, not the number of attempts: a conforming library may succeed at any attempt.\<close>

lemma no_bound_on_attempts:
  "\<exists>retry. retries retry \<and> rpc_with_retry retry (\<lambda>n. if n < k then Inl ''down'' else Inr v) = Inr v"
proof -
  define P :: "(nat \<Rightarrow> string retry_error + 'a) \<Rightarrow> nat \<Rightarrow> bool" where "P f n \<longleftrightarrow> (\<forall>e. f n \<noteq> Inl (Transient e))" for f n
  define stop where "stop f = (if \<exists>n. P f n then LEAST n. P f n else 0)" for f
  define retry :: "'a retrier" where
    "retry = (\<lambda>p f. case f (stop f) of Inr v \<Rightarrow> Inr v | Inl (Transient e) \<Rightarrow> Inl e | Inl (Permanent e) \<Rightarrow> Inl e)"
  have "\<exists>e. f m = Inl (Transient e)" if "m < stop f" for f m
    using that not_less_Least [of m "P f"] by (auto simp: stop_def P_def split: if_splits)
  then have r: "retries retry" by (auto simp: retries_def stops_at_def retry_def)
  let ?g = "\<lambda>n. case if n < k then Inl ''down'' else Inr v of Inl e \<Rightarrow> Inl (Transient e) | Inr v \<Rightarrow> Inr v"
  have "P ?g k" by (simp add: P_def)
  moreover have "k \<le> n" if "P ?g n" for n using that by (auto simp: P_def split: if_splits)
  ultimately have "stop ?g = k" by (auto simp: stop_def intro!: Least_equality)
  then have "rpc_with_retry retry (\<lambda>n. if n < k then Inl ''down'' else Inr v) = Inr v"
    by (simp add: rpc_with_retry_def retry_def)
  with r show ?thesis by blast
qed

section \<open>Ticks for new heads\<close>

datatype ticker = Connecting | Subscribing | Receiving | Sending | Ended

datatype loop_phase = Busy | Waiting | Gone

text \<open>The listening task, the channel and the loop; the loop holds the receiver while it is subscribed.  Two
  counters, of the heads received and the ticks taken, are kept for the statements.\<close>

record head_ticks =
  ht_task :: ticker
  ht_buffer :: nat
  ht_subscribed :: bool
  ht_phase :: loop_phase
  ht_heads :: nat
  ht_ticks :: nat

definition loop_start :: "trigger_mode \<Rightarrow> head_ticks" where
  "loop_start m =
     (let sub = (case m of Subscribe _ \<Rightarrow> True | Polling \<Rightarrow> False) in
      \<lparr>ht_task = (if sub then Connecting else Ended), ht_buffer = 0, ht_subscribed = sub, ht_phase = Busy, ht_heads = 0, ht_ticks = 0\<rparr>)"

datatype ticker_event = Connected | Connect_failed | Subscribed_ok | Subscribe_failed | Head_seen | Stream_ended | Sent | Send_failed

text \<open>One step of the task; \<^const>\<open>None\<close> when it cannot happen.  A send waits for room and fails once the receiver is
  gone; when the task ends, the sender is dropped.\<close>

definition spawn_head_ticks :: "ticker_event \<Rightarrow> head_ticks \<Rightarrow> head_ticks option" where
  "spawn_head_ticks ev s =
     (case (ht_task s, ev) of
        (Connecting, Connected) \<Rightarrow> Some (s\<lparr>ht_task := Subscribing\<rparr>)
      | (Connecting, Connect_failed) \<Rightarrow> Some (s\<lparr>ht_task := Ended\<rparr>)
      | (Subscribing, Subscribed_ok) \<Rightarrow> Some (s\<lparr>ht_task := Receiving\<rparr>)
      | (Subscribing, Subscribe_failed) \<Rightarrow> Some (s\<lparr>ht_task := Ended\<rparr>)
      | (Receiving, Head_seen) \<Rightarrow> Some (s\<lparr>ht_task := Sending, ht_heads := ht_heads s + 1\<rparr>)
      | (Receiving, Stream_ended) \<Rightarrow> Some (s\<lparr>ht_task := Ended\<rparr>)
      | (Sending, Sent) \<Rightarrow>
          if ht_subscribed s \<and> ht_buffer s < 1 then Some (s\<lparr>ht_task := Receiving, ht_buffer := ht_buffer s + 1\<rparr>) else None
      | (Sending, Send_failed) \<Rightarrow> if \<not> ht_subscribed s then Some (s\<lparr>ht_task := Ended\<rparr>) else None
      | _ \<Rightarrow> None)"

definition drop_receiver :: "head_ticks \<Rightarrow> head_ticks" where
  "drop_receiver s = s\<lparr>ht_subscribed := False, ht_buffer := 0\<rparr>"

text \<open>The end of a wait.  A closed channel is seen once its buffer is empty.\<close>

definition wait_ends :: "wake \<Rightarrow> head_ticks \<Rightarrow> head_ticks option" where
  "wait_ends w s =
     (if ht_phase s \<noteq> Waiting then None
      else case w of
        Ctrl_c \<Rightarrow> Some (drop_receiver s\<lparr>ht_phase := Gone\<rparr>)
      | Tick \<Rightarrow>
          if ht_subscribed s \<and> 0 < ht_buffer s
          then Some (s\<lparr>ht_buffer := ht_buffer s - 1, ht_phase := Busy, ht_ticks := ht_ticks s + 1\<rparr>) else None
      | Channel_closed \<Rightarrow>
          if ht_subscribed s \<and> ht_buffer s = 0 \<and> ht_task s = Ended then Some (drop_receiver s\<lparr>ht_phase := Busy\<rparr>) else None
      | Slept \<Rightarrow> if \<not> ht_subscribed s then Some (s\<lparr>ht_phase := Busy\<rparr>) else None)"

datatype tick_event = Task ticker_event | Cycle_done | Loop_leaves | Wakes wake

definition tick_step :: "tick_event \<Rightarrow> head_ticks \<Rightarrow> head_ticks option" where
  "tick_step ev s =
     (case ev of
        Task e \<Rightarrow> spawn_head_ticks e s
      | Cycle_done \<Rightarrow> if ht_phase s = Busy then Some (s\<lparr>ht_phase := Waiting\<rparr>) else None
      | Loop_leaves \<Rightarrow> if ht_phase s = Busy then Some (drop_receiver s\<lparr>ht_phase := Gone\<rparr>) else None
      | Wakes w \<Rightarrow> wait_ends w s)"

fun tick_run :: "tick_event list \<Rightarrow> head_ticks \<Rightarrow> head_ticks option" where
  "tick_run [] s = Some s"
| "tick_run (ev # evs) s = Option.bind (tick_step ev s) (tick_run evs)"

section \<open>No head is lost and no wait is endless\<close>

definition ticks_inv :: "head_ticks \<Rightarrow> bool" where
  "ticks_inv s \<longleftrightarrow> ht_buffer s \<le> 1 \<and> (ht_subscribed s \<longrightarrow>
     ht_heads s = ht_ticks s + ht_buffer s + (if ht_task s = Sending then 1 else 0))"

lemmas tick_defs = tick_step_def spawn_head_ticks_def wait_ends_def drop_receiver_def

lemma tick_step_inv: "ticks_inv s \<Longrightarrow> tick_step ev s = Some s' \<Longrightarrow> ticks_inv s'"
  by (cases ev) (auto simp: tick_defs ticks_inv_def split: ticker.splits ticker_event.splits wake.splits if_splits)

lemma tick_run_inv: "ticks_inv s \<Longrightarrow> tick_run evs s = Some s' \<Longrightarrow> ticks_inv s'"
  by (induction evs arbitrary: s) (auto simp: bind_eq_Some_conv dest: tick_step_inv)

lemma loop_start_inv: "ticks_inv (loop_start m)"
  by (simp add: ticks_inv_def loop_start_def split: trigger_mode.split)

lemma tick_step_polling: "\<not> ht_subscribed s \<Longrightarrow> tick_step ev s = Some s' \<Longrightarrow> \<not> ht_subscribed s'"
  by (cases ev) (auto simp: tick_defs split: ticker.splits ticker_event.splits wake.splits if_splits)

lemma tick_run_polling: "\<not> ht_subscribed s \<Longrightarrow> tick_run evs s = Some s' \<Longrightarrow> \<not> ht_subscribed s'"
  by (induction evs arbitrary: s) (auto simp: bind_eq_Some_conv dest: tick_step_polling)

lemma tick_step_ended:
  assumes "ht_task s = Ended" "tick_step ev s = Some s'"
  shows "ht_task s' = Ended \<and> ht_buffer s' + (if ev = Wakes Tick then 1 else 0) \<le> ht_buffer s"
  using assms by (cases ev) (auto simp: tick_defs split: ticker.splits ticker_event.splits wake.splits if_splits)

lemma tick_run_ended:
  "ht_task s = Ended \<Longrightarrow> tick_run evs s = Some s' \<Longrightarrow> count_list evs (Wakes Tick) \<le> ht_buffer s"
proof (induction evs arbitrary: s)
  case (Cons ev evs)
  from Cons.prems(2) obtain u where u: "tick_step ev s = Some u" "tick_run evs u = Some s'" by (auto simp: bind_eq_Some_conv)
  with Cons tick_step_ended [OF Cons.prems(1) u(1)] show ?case by (fastforce split: if_splits)
qed simp

text \<open>C24: new heads drive the follow loop.  In every interleaving of the listening task, the loop and the signal:
  while the loop is subscribed every head has been taken as a tick, is in the channel or is being sent, and at most two
  are outstanding.  A waiting loop is never stuck: it can be woken, or the head being sent can be put into
  the channel, or the task is waiting for the node.  When the task has ended, at most one more tick comes
  before the loop sees the closed channel; from then on, as from the start without a subscription, it polls.\<close>

theorem head_ticks_drive_the_loop:
  assumes run: "tick_run evs (loop_start m) = Some s"
  shows "(ht_subscribed s \<longrightarrow> ht_ticks s \<le> ht_heads s \<and> ht_heads s \<le> ht_ticks s + 2)
     \<and> (ht_phase s = Waiting \<longrightarrow>
          (\<exists>w \<in> {Tick, Channel_closed, Slept}. wait_ends w s \<noteq> None) \<or> spawn_head_ticks Sent s \<noteq> None
          \<or> ht_task s \<in> {Connecting, Subscribing, Receiving})
     \<and> (ht_task s = Ended \<longrightarrow> (\<forall>evs' s'. tick_run evs' s = Some s' \<longrightarrow> count_list evs' (Wakes Tick) \<le> 1))
     \<and> (\<not> ht_subscribed s \<or> m = Polling \<longrightarrow>
          (\<forall>evs' s'. tick_run evs' s = Some s' \<longrightarrow> \<not> ht_subscribed s' \<and> (ht_phase s' = Waiting \<longrightarrow> wait_ends Slept s' \<noteq> None)))"
proof -
  have inv: "ticks_inv s" by (rule tick_run_inv [OF loop_start_inv run])
  have "m = Polling \<Longrightarrow> \<not> ht_subscribed s" using tick_run_polling [OF _ run] by (simp add: loop_start_def)
  moreover have "ht_phase s = Waiting \<longrightarrow>
          (\<exists>w \<in> {Tick, Channel_closed, Slept}. wait_ends w s \<noteq> None) \<or> spawn_head_ticks Sent s \<noteq> None
          \<or> ht_task s \<in> {Connecting, Subscribing, Receiving}"
    by (cases "ht_task s") (auto simp: wait_ends_def spawn_head_ticks_def)
  moreover have "ht_phase s' = Waiting \<longrightarrow> wait_ends Slept s' \<noteq> None" if "\<not> ht_subscribed s'" for s'
    using that by (simp add: wait_ends_def)
  moreover have "count_list evs' (Wakes Tick) \<le> 1" if "ht_task s = Ended" "tick_run evs' s = Some s'" for evs' s'
    using tick_run_ended [OF that] inv by (simp add: ticks_inv_def)
  moreover have "ht_subscribed s \<longrightarrow> ht_ticks s \<le> ht_heads s \<and> ht_heads s \<le> ht_ticks s + 2"
    using inv by (auto simp: ticks_inv_def)
  ultimately show ?thesis using tick_run_polling [of s] by blast
qed

definition dying_subscription :: "tick_event list" where
  "dying_subscription = [Task Connected, Task Subscribed_ok, Task Head_seen, Task Sent, Task Head_seen, Cycle_done, Wakes Tick,
     Task Sent, Task Stream_ended, Cycle_done, Wakes Tick, Cycle_done, Wakes Channel_closed, Cycle_done]"

theorem head_ticks_drive_the_loop_witness:
  "\<exists>s. tick_run dying_subscription (loop_start (Subscribe ''ws://n'')) = Some s \<and> ht_ticks s = 2 \<and> ht_heads s = 2
     \<and> (\<forall>evs' s'. tick_run evs' s = Some s' \<longrightarrow> \<not> ht_subscribed s')"
proof -
  have "\<exists>s. tick_run dying_subscription (loop_start (Subscribe ''ws://n'')) = Some s \<and> ht_ticks s = 2 \<and> ht_heads s = 2
      \<and> \<not> ht_subscribed s"
    by (simp add: dying_subscription_def loop_start_def tick_defs)
  then obtain s where s: "tick_run dying_subscription (loop_start (Subscribe ''ws://n'')) = Some s"
    "ht_ticks s = 2" "ht_heads s = 2" "\<not> ht_subscribed s" by blast
  from head_ticks_drive_the_loop [OF s(1)] s show ?thesis by blast
qed

text \<open>The follow loop's own step agrees: a cycle that ends undisturbed leaves the loop subscribed exactly when the
  channel does.\<close>

lemma finish_cycle_wakes:
  assumes "wait_ends w s = Some s'" "cy_wake env = w" "\<not> cy_cancel env" "\<not> list_ex ce_cancel (cy_chunks env)"
    "fo_subscribed st = ht_subscribed s"
  shows "if ht_phase s' = Gone then finish_cycle env st = Stopped st
     else \<exists>st'. finish_cycle env st = Continue st' \<and> fo_subscribed st' = ht_subscribed s' \<and> fo_db st' = fo_db st"
  using assms by (cases w) (auto simp: finish_cycle_def wait_ends_def drop_receiver_def split: if_splits)

end
