(* ===== verification/Spec2Isabelle.thy ===== *)
theory Spec2Isabelle
  imports Startup Dispatchers ApiMain TuiMain Triggers Node
begin

text \<open>
  Verification of amarillo, a failure-intelligence indexer for Uniswap V3 transactions.

  \<^bold>\<open>The program.\<close>  The \<^emph>\<open>indexer\<close> (\<^verbatim>\<open>crates/indexer\<close>) reads blocks from an Ethereum node, decodes their events
  and the traces of failed transactions (\<^verbatim>\<open>crates/decoder\<close>) and stores them in PostgreSQL through \<^verbatim>\<open>crates/db\<close>; it
  runs over a fixed range of blocks, follows the head of the chain and rolls back reorganised blocks, or, as
  a process of its own, \<^emph>\<open>dispatches alerts\<close> to webhooks.  The \<^emph>\<open>API\<close> (\<^verbatim>\<open>crates/api\<close>) serves the tables and manages
  alert subscriptions and contract labels; the \<^emph>\<open>terminal client\<close> (\<^verbatim>\<open>crates/tui\<close>) displays what the API serves.  The
  processes share nothing but the database: the indexer writes the indexing tables and the checkpoint, the
  API writes subscriptions and labels, the dispatchers write the delivery ledger.

  \<^bold>\<open>The theories\<close> follow the crates; each imports what it calls.

  \<^item> \<open>Prelude\<close>: Rust integers and their casts, results, text functions, the lemma collections, and the locale
    \<open>invariant_system\<close> (an invariant that every step keeps holds in every reachable state).  \<open>Encoding\<close>: number
    parsing and printing, UTF-8, JSON values.
  \<^item> \<open>Classifier\<close>, \<open>Trace\<close>, \<open>Events\<close>, \<open>Abi\<close> (\<^verbatim>\<open>crates/decoder/src\<close>): classify_error, the call tracer's frames and the
    revert data, decode_log with its four event decoders, decode_args.
  \<^item> \<open>Models\<close>, \<open>Tables\<close>, \<open>Inserts\<close>, \<open>Rollback\<close>, \<open>Alerts\<close>, \<open>Reads\<close>, \<open>Clusters\<close>, \<open>Analytics\<close>, \<open>Validators\<close> (\<^verbatim>\<open>crates/db/src\<close> and the
    SQL it relies on): the row types; the database as a record of tables, statements as functions from a
    database to an error or a result and a database, with the constraints of the migrations; one definition
    per query of \<^verbatim>\<open>queries.rs\<close>; the webhook validators.  The locale \<open>conflict_table\<close> is the contract of
    \<^verbatim>\<open>ON CONFLICT DO NOTHING\<close>, interpreted on nine inserts; \<open>claim_ledger\<close> that of the delivery ledger;
    \<open>wire_codec\<close> that of the enums' text forms.
  \<^item> \<open>Worker\<close>, \<open>Reorg\<close>, \<open>Indexer\<close>, \<open>Follow\<close>, \<open>Node\<close>, \<open>Schema\<close>, \<open>Startup\<close>, \<open>Triggers\<close> (\<^verbatim>\<open>worker.rs\<close>, \<^verbatim>\<open>config.rs\<close>, \<^verbatim>\<open>main.rs\<close>): process_block as
    the list of its database writes; the fork search; process_chunk and index_range under every schedule of
    the block tasks and every lost query; the cycle of the follow loop and its step relation; the
    retried calls, the task that listens for new heads and its channel, event by event; the process
    with its three modes; the writes in a database that carries the triggers of \<^verbatim>\<open>sql/triggers\<close>.  The locales
    \<open>table_invariant\<close> and \<open>process_invariant\<close> carry a property of the tables from the single statements to whole
    processes.
  \<^item> \<open>Dispatch\<close>, \<open>Cycle\<close>, \<open>Dispatchers\<close> (\<^verbatim>\<open>alerts.rs\<close>): one alert as a sequence of atomic steps, the bounded pool of
    tasks of a pass (locale \<open>counted_pool\<close>), and any number of dispatchers interleaved with crashes.
  \<^item> \<open>Api\<close>, \<open>Admin\<close>, \<open>Routes\<close>, \<open>ApiMain\<close> (\<^verbatim>\<open>crates/api/src\<close>): configuration, key check, error mapping, every handler, the
    router as one function from requests to answers, and the process that starts and serves.
  \<^item> \<open>Doubles\<close>: Rust's 64-bit floating point numbers as rationals rounded to 53 bits, with the standard library's parsing
    and printing, and how far rounding moves a number.
  \<^item> \<open>TuiFormat\<close>, \<open>Tui\<close>, \<open>TuiApi\<close>, \<open>TuiClient\<close>, \<open>TuiDraw\<close>, \<open>TuiScreens\<close>, \<open>TuiMain\<close> (\<^verbatim>\<open>crates/tui/src\<close>): formatting, the state
    machine of the application with its outstanding fetches, the client's requests served by the API's handler,
    the classification of answers, every frame as the list of its widgets, what the frames show, and the process
    that takes the terminal and gives it back.
  \<^item> This theory: what the API stores and what the dispatcher later does with it.

  \<^bold>\<open>What is shown.\<close>
  \<^item> Indexing: the checkpoint never runs ahead of the data, restarting an interrupted range finishes it, the
    follow loop leaves no holes while it runs, rollback removes exactly the replaced blocks, the fork search finds
    the lowest replaced block, every row conforms to the schema in every mode.
  \<^item> Alerts: no two dispatchers hold the same alert, a delivery is acknowledged once per lost acknowledgement
    more than once at most, the ledger refines a map of states, every pending alert of a pass is counted once, each
    request is signed and goes to an accepted address, error texts keep no URL.
  \<^item> Interfaces: writes need the key, stored subscriptions and labels are well-formed, whatever the API stored
    the dispatcher can deliver, pages and aggregates account for every row, the terminal client's requests
    are accepted and its state stays consistent; the page numbers and bars it computes with floating point are
    the exact ones, and it draws every state but those with a string that cannot be cut.
  \<^item> Processes: the follow loop misses no head while it is subscribed and is never stuck waiting, a subscription that
    dies is replaced by polling, the terminal is given back however the client ends.
  \<^item> Decoding: traces and revert strings round trip, the address policy is a table of CIDR blocks.
  \<^item> Where the code does something else than it means to, the behaviour is proved as it is: a chunk that fails
    before a reorganisation leaves a gap, failing deliveries starve later ones, a range below the checkpoint is
    skipped, the trigger of a seeded database hides every diagnosis, an idle pool has no statistics, a late
    answer replaces the wrong detail, hostile revert data makes the decoder panic, a terminal that is taken
    half way stays in raw mode.

  \<^bold>\<open>Conventions.\<close>  Rust integers are numbers in the range of their type, with wrap-around, saturation and casts
  written out where the source's operations can leave it; strings are lists of bytes; instants count
  microseconds; decimals of scale zero are integers, others rational numbers.  A panic is a value.  Loops of
  tasks take a script of the environment (which task moves next, and whether its query is lost): theorems
  quantify over all scripts, and completion is shown for every script that gives each of the at most seven
  steps of a block a turn.  The fork search ends because its window grows; recursion on JSON and on call
  frames is on the size of the value.

  \<^bold>\<open>Parameters.\<close>  Code outside the repository is an argument of the definitions that use it: the node, the
  generated event decoders and dynamic ABI types of alloy, decimal parsing, HMAC and hexadecimal codecs, the
  URL parser, DNS and HTTP, the random generator, the clock and its rendering, the web framework's header and
  constant-time comparison, numeric division of PostgreSQL, the back-off library, the layout of the terminal
  library and its operations on the terminal.  What a theorem needs of them is a named
  hypothesis, and its witness instantiates them.  Text is ordered by its bytes.

  \<^bold>\<open>Not modelled.\<close>  Logging; the decoding of the API's JSON into the client's records, which serde derives; the
  cursor of the terminal and the cells a widget is rendered to; the tracing and CORS layers; migrations and
  seed data as such; the views, procedures and triggers no query depends on; the web console.  The number of
  permits of the indexer's semaphore is not modelled: every schedule is allowed, so each with fewer tasks at
  a time is covered.
\<close>

section \<open>From the interface to the dispatcher\<close>

lemma pending_match_row:
  assumes "find_pending_alert_matches t limit stale d = Inr (ms, d')" "m \<in> set ms"
  obtains a where "a \<in> set (subscriptions d)" "a_active a" "a_sub_type a = ''per_event''"
    "m_subscription_id m = a_subscription_id a" "m_webhook_url m = a_webhook_url a" "m_signing_secret m = a_signing_secret a"
proof -
  from assms have "m \<in> set (pending_pairs t stale d)"
    by (auto simp: find_pending_alert_matches_def pg_limit_def split: if_splits sum.splits dest: in_set_takeD)
  then show thesis by (auto simp: pending_pairs_def intro: that)
qed

lemma pending_rate_row:
  assumes "find_pending_rate_alert_matches t limit d = Inr (rs, d')" "r \<in> set rs"
  obtains a where "a \<in> set (subscriptions d)" "a_active a"
    "r_subscription_id r = a_subscription_id a" "r_webhook_url r = a_webhook_url a" "r_signing_secret r = a_signing_secret a"
proof -
  from assms have "r \<in> set (sort_key r_subscription_id (map (\<lambda>s. \<lparr>r_subscription_id = a_subscription_id s, r_webhook_url = a_webhook_url s,
                r_signing_secret = a_signing_secret s, r_match_count = int (length (rate_hits t d s)),
                r_threshold_count = the (a_threshold_count s), r_threshold_window_secs = the (a_threshold_window_secs s)\<rparr>)
              (filter (rate_due t d) (subscriptions d))))"
    by (auto simp: find_pending_rate_alert_matches_def pg_limit_def Let_def simp del: set_sort split: if_splits sum.splits dest: in_set_takeD)
  then show thesis by (auto simp: rate_due_def intro: that)
qed

text \<open>The laws of the crates both sides share: decoding undoes encoding, and both use the same URL parser.\<close>

definition shared_crates :: "'ty api_ext \<Rightarrow> alert_ext \<Rightarrow> bool" where
  "shared_crates X E \<longleftrightarrow> x_url X = ae_url E \<and> x_hex X = ae_hex_encode E \<and> (\<forall>b. ae_hex_decode E (ae_hex_encode E b) = Inr b)"

lemma prepare_posts:
  assumes "shared_crates X E" "good_subscription (x_url X) a" "a_signing_secret a = x_hex X key"
  shows "prepare E (a_webhook_url a) (a_signing_secret a) p = Post (signed_request (a_webhook_url a) (sign_payload E key (as_bytes p)) p)"
  using assms by (simp add: prepare_def shared_crates_def good_subscription_def)

text \<open>C6: whatever the interface stored, the dispatcher can deliver.  After any sequence of requests,
  interleaved with anything else, every alert the dispatcher finds pending, per event or by rate, passes
  the dispatcher's URL check and has a secret that decodes, so the dispatcher posts it: the request goes to
  the subscription's URL and is signed with the key whose hexadecimal form is the subscription's secret.
  Neither the ``unsafe url'' nor the ``corrupt secret'' branch can be reached.\<close>

theorem interface_subscriptions_are_delivered:
  assumes "shared_crates X E" "store_ok X d0" "(api_step X key)\<^sup>*\<^sup>* d0 d"
  shows "(\<forall>ms d' m. find_pending_alert_matches t limit stale d = Inr (ms, d') \<and> m \<in> set ms \<longrightarrow>
       (\<exists>k. m_signing_secret m = x_hex X k \<and> (\<forall>p. prepare E (m_webhook_url m) (m_signing_secret m) p =
          Post (signed_request (m_webhook_url m) (sign_payload E k (as_bytes p)) p))))
   \<and> (\<forall>rs d' r. find_pending_rate_alert_matches t limit d = Inr (rs, d') \<and> r \<in> set rs \<longrightarrow>
       (\<exists>k. r_signing_secret r = x_hex X k \<and> (\<forall>p. prepare E (r_webhook_url r) (r_signing_secret r) p =
          Post (signed_request (r_webhook_url r) (sign_payload E k (as_bytes p)) p))))"
proof -
  from api.reachable [OF assms(3,2)] have ok: "store_ok X d" .
  have good: "\<exists>k. a_signing_secret a = x_hex X k \<and> (\<forall>p. prepare E (a_webhook_url a) (a_signing_secret a) p =
      Post (signed_request (a_webhook_url a) (sign_payload E k (as_bytes p)) p))" if "a \<in> set (subscriptions d)" for a
    using ok that prepare_posts [OF assms(1)] unfolding store_ok_def by blast
  show ?thesis
    by (intro conjI allI impI; elim conjE) (erule (1) pending_match_row pending_rate_row, use good in force)+
qed

lemma rotated_row:
  assumes "api_rotate_alert_subscription_secret hex random i d = (Inr c, d')"
    and "a \<in> set (subscriptions d')" "a_active a" "a_subscription_id a = i"
  shows "a_signing_secret a = sc_signing_secret c"
proof -
  from rotate_accepted [OF assms(1)] obtain k where k: "sc_signing_secret c = hex k" "subscriptions d' =
      map (\<lambda>a. if a_subscription_id a = i \<and> a_active a then a\<lparr>a_signing_secret := hex k\<rparr> else a) (subscriptions d)" by blast
  from assms(2)
  obtain b where "a = (if a_subscription_id b = i \<and> a_active b then b\<lparr>a_signing_secret := hex k\<rparr> else b)"
    unfolding k(2) set_map by (rule imageE)
  with assms(3,4) k(1) show ?thesis by (simp split: if_splits)
qed

lemma deactivated_row:
  assumes "api_deactivate_alert_subscription i d = (r, d')" "a \<in> set (subscriptions d')" "a_active a"
  shows "a_subscription_id a \<noteq> i"
proof -
  have d': "subscriptions d' = map (\<lambda>a. if a_subscription_id a = i \<and> a_active a then a\<lparr>a_active := False\<rparr> else a) (subscriptions d)"
    using deactivate_effect [OF assms(1)] by simp
  from assms(2) obtain b where "a = (if a_subscription_id b = i \<and> a_active b then b\<lparr>a_active := False\<rparr> else b)"
    unfolding d' set_map by (rule imageE)
  with assms(3) show ?thesis by (simp split: if_splits)
qed


text \<open>A hexadecimal codec that has the law.\<close>

fun hex_pairs :: "string \<Rightarrow> string + byte list" where
  "hex_pairs [] = Inr []"
| "hex_pairs [_] = Inl ''odd number of digits''"
| "hex_pairs (a # b # s) =
     (case (digit_value a, digit_value b, hex_pairs s) of
        (Some x, Some y, Inr bs) \<Rightarrow> Inr (of_nat (16 * x + y) # bs) | _ \<Rightarrow> Inl ''not a digit'')"

lemma hex_pairs_encode: "hex_pairs (concat (map hex_byte bs)) = Inr bs"
proof (induction bs)
  case (Cons b bs)
  have "unat b div 16 < 16" using unsigned_less [of b, where 'a = nat] by simp
  moreover have "(of_nat (16 * (unat b div 16) + unat b mod 16) :: byte) = b" unfolding mult_div_mod_eq by simp
  ultimately show ?case using Cons by (simp add: hex_byte_def)
qed simp

definition codec_ext :: alert_ext where
  "codec_ext = sample_alert_ext\<lparr>ae_hex_decode := hex_pairs\<rparr>"

definition subscribed_db :: db where
  "subscribed_db = watched_db\<lparr>subscriptions := map (\<lambda>a. a\<lparr>a_signing_secret := concat (map hex_byte [7]), a_to_addr := None\<rparr>) (subscriptions watched_db),
     seq_subscription := 8\<rparr>"

theorem interface_subscriptions_are_delivered_witness:
  "\<exists>ms. find_pending_alert_matches 0 10 60 subscribed_db = Inr (ms, subscribed_db) \<and> length ms = 2
     \<and> (\<forall>m \<in> set ms. \<exists>k. prepare codec_ext (m_webhook_url m) (m_signing_secret m) ''{}'' =
          Post (signed_request (m_webhook_url m) (sign_payload codec_ext k (as_bytes ''{}'')) ''{}''))"
proof -
  have s: "shared_crates sample_api_ext codec_ext"
    by (simp add: shared_crates_def codec_ext_def sample_api_ext_def sample_alert_ext_def hex_pairs_encode)
  have "good_subscription (x_url sample_api_ext) a" if "a \<in> set (subscriptions subscribed_db)" for a
    using that by (simp add: good_subscription_def sample_api_ext_def sample_url_safe)
      (simp add: subscribed_db_def watched_db_def rate_fields_chk_def opt_ok_def)
  moreover have "\<exists>key. a_signing_secret a = x_hex sample_api_ext key" if "a \<in> set (subscriptions subscribed_db)" for a
    using that by (intro exI [of _ "[7]"]) (simp add: subscribed_db_def watched_db_def sample_api_ext_def sample_alert_ext_def)
  ultimately have o: "store_ok sample_api_ext subscribed_db"
    by (auto simp: store_ok_def subscribed_db_def watched_db_def sample_db_def empty_db_def)
  obtain ms where ms: "find_pending_alert_matches 0 10 60 subscribed_db = Inr (ms, subscribed_db)" "length ms = 2"
    by (simp add: find_pending_alert_matches_def int4_ok_def pg_limit_def pending_pairs_def subscribed_db_def watched_db_def
        sample_db_def empty_db_def sample_failed_def sub_matches_def in_flight_def)
  with interface_subscriptions_are_delivered [OF s o rtranclp.rtrancl_refl [of _ subscribed_db], where t = 0 and limit = 10 and stale = 60]
  show ?thesis by (intro exI [of _ ms]) blast
qed

definition dispatched_db :: db where
  "dispatched_db = snd (api_deactivate_alert_subscription 7 subscribed_db)"


end
